(* ===== verification/Umdk_Prelude.thy ===== *)
theory Umdk_Prelude
  imports Main "HOL-Library.Word"
begin

section \<open>Shared vocabulary of the UMDK development\<close>

text \<open>
  What every component theory builds on: names for the machine integers of the C and C++
  sources, the byte-addressed memory the lock server overlays its structures on, half-word
  access into 32-bit cells (for the unions of the wire format), general facts on words and
  intervals, and the step-system interface through which invariants are lifted from single
  steps to runs.
\<close>

unbundle bit_operations_syntax

named_theorems umdk_mem \<open>load/store laws of the byte memory\<close>

type_synonym u8 = "8 word"
type_synonym u16 = "16 word"
type_synonym u32 = "32 word"
type_synonym u64 = "64 word"

text \<open>Values of the C constants the sources use.\<close>

abbreviation UINT16_MAX :: nat where "UINT16_MAX \<equiv> 65535"
abbreviation UINT32_MAX :: u32 where "UINT32_MAX \<equiv> 0xFFFFFFFF"

subsection \<open>Words\<close>

lemma unat_add_u32: "unat (a + b :: u32) = (unat a + unat b) mod 2 ^ 32"
  by (simp add: unat_word_ariths)

lemma unat_add_u32_small:
  "unat a + unat b < 2 ^ 32 \<Longrightarrow> unat (a + b :: u32) = unat a + unat b"
  by (simp add: unat_word_ariths)

lemma unat_sub_u32: "b \<le> a \<Longrightarrow> unat (a - b :: u32) = unat a - unat b"
  by (rule unat_sub)

lemma u32_lt_bound [simp]: "unat (x :: u32) < 4294967296"
  by (rule order_less_le_trans [OF unsigned_less]) simp

lemma u16_lt_bound [simp]: "unat (x :: u16) < 65536"
  by (rule order_less_le_trans [OF unsigned_less]) simp

subsection \<open>Half-words of a 32-bit cell\<close>

text \<open>The low and high 16 bits of a little-endian 32-bit cell, and their stores.\<close>

definition lo16 :: "u32 \<Rightarrow> u16" where
  "lo16 w = ucast w"

definition hi16 :: "u32 \<Rightarrow> u16" where
  "hi16 w = ucast (drop_bit 16 w)"

definition mk32 :: "u16 \<Rightarrow> u16 \<Rightarrow> u32" where
  "mk32 l h = ucast l OR push_bit 16 (ucast h)"

lemma lo16_mk32 [simp]: "lo16 (mk32 l h) = l"
  unfolding lo16_def mk32_def by (rule bit_word_eqI) (auto simp: bit_simps)

lemma hi16_mk32 [simp]: "hi16 (mk32 l h) = h"
proof (rule bit_word_eqI)
  fix n assume "n < LENGTH(16)"
  moreover have "\<not> bit l (n + 16)" using bit_imp_le_length [of l "n + 16"] by auto
  ultimately show "bit (hi16 (mk32 l h)) n \<longleftrightarrow> bit h n"
    unfolding hi16_def mk32_def by (auto simp: bit_simps add.commute)
qed

lemma mk32_lo16_hi16 [simp]: "mk32 (lo16 w) (hi16 w) = w"
proof (rule bit_word_eqI)
  fix n assume "n < LENGTH(32)"
  then show "bit (mk32 (lo16 w) (hi16 w)) n \<longleftrightarrow> bit w n"
    unfolding lo16_def hi16_def mk32_def by (cases "n < 16") (auto simp: bit_simps)
qed

lemma mk32_inject [simp]: "mk32 l h = mk32 l' h' \<longleftrightarrow> l = l' \<and> h = h'"
  by (metis lo16_mk32 hi16_mk32)

lemma mk32_zero [simp]: "mk32 0 0 = 0"
  by (simp add: mk32_def)

lemma lo16_zero [simp]: "lo16 0 = 0" and hi16_zero [simp]: "hi16 0 = 0"
  by (simp_all add: lo16_def hi16_def)

subsection \<open>Byte memory\<close>

type_synonym bmem = "nat \<Rightarrow> u8"

definition load32 :: "bmem \<Rightarrow> nat \<Rightarrow> u32" where
  "load32 m a = ucast (m a) OR push_bit 8 (ucast (m (a + 1))) OR push_bit 16 (ucast (m (a + 2)))
     OR push_bit 24 (ucast (m (a + 3)))"

definition store32 :: "bmem \<Rightarrow> nat \<Rightarrow> u32 \<Rightarrow> bmem" where
  "store32 m a v = m(a := ucast v, a + 1 := ucast (drop_bit 8 v), a + 2 := ucast (drop_bit 16 v),
      a + 3 := ucast (drop_bit 24 v))"

definition memset0 :: "bmem \<Rightarrow> nat \<Rightarrow> nat \<Rightarrow> bmem" where
  "memset0 m a n = (\<lambda>x. if a \<le> x \<and> x < a + n then 0 else m x)"

lemma bit_u8_high [simp]: "8 \<le> n \<Longrightarrow> \<not> bit (b :: u8) n"
  using bit_imp_le_length [of b n] by auto

lemma load32_store32 [umdk_mem, simp]: "load32 (store32 m a v) a = v"
proof (rule bit_word_eqI)
  fix n assume "n < LENGTH(32)"
  then consider "n < 8" | "8 \<le> n" "n < 16" | "16 \<le> n" "n < 24" | "24 \<le> n" "n < 32" by force
  then show "bit (load32 (store32 m a v) a) n \<longleftrightarrow> bit v n"
    unfolding load32_def store32_def by cases (auto simp: bit_simps)
qed

lemma store32_load32 [umdk_mem, simp]: "store32 m a (load32 m a) = m"
proof
  fix x
  consider "x = a" | "x = a + 1" | "x = a + 2" | "x = a + 3" | "x \<notin> {a, a + 1, a + 2, a + 3}" by auto
  then show "store32 m a (load32 m a) x = m x"
    by cases (auto simp: load32_def store32_def bit_simps intro!: bit_word_eqI)
qed

lemma load32_other [umdk_mem]:
  "a + 4 \<le> b \<or> b + 4 \<le> a \<Longrightarrow> load32 (store32 m b v) a = load32 m a"
  by (auto simp: load32_def store32_def)

lemma store32_frame: "x < a \<or> a + 4 \<le> x \<Longrightarrow> store32 m a v x = m x"
  by (auto simp: store32_def)

lemma store32_agree:
  "(x < a \<or> a + 4 \<le> x \<Longrightarrow> m x = m' x) \<Longrightarrow> store32 m a v x = store32 m' a v x"
  by (cases "x < a \<or> a + 4 \<le> x") (auto simp: store32_def)

lemma load32_cong: "(\<And>x. a \<le> x \<Longrightarrow> x < a + 4 \<Longrightarrow> m x = m' x) \<Longrightarrow> load32 m a = load32 m' a"
  by (simp add: load32_def)

lemma load32_memset0: "a \<le> b \<Longrightarrow> b + 4 \<le> a + n \<Longrightarrow> load32 (memset0 m a n) b = 0"
  by (simp add: load32_def memset0_def)

definition store_bytes :: "bmem \<Rightarrow> nat \<Rightarrow> u8 list \<Rightarrow> bmem" where
  "store_bytes m a bs = (\<lambda>x. if a \<le> x \<and> x < a + length bs then bs ! (x - a) else m x)"

definition load_bytes :: "bmem \<Rightarrow> nat \<Rightarrow> nat \<Rightarrow> u8 list" where
  "load_bytes m a n = map m [a ..< a + n]"

lemma load_store_bytes [simp]: "load_bytes (store_bytes m a bs) a (length bs) = bs"
  by (rule nth_equalityI) (auto simp: load_bytes_def store_bytes_def)

lemma store_bytes_frame: "x < a \<or> a + length bs \<le> x \<Longrightarrow> store_bytes m a bs x = m x"
  by (auto simp: store_bytes_def)

lemma load_bytes_cong: "(\<And>x. a \<le> x \<Longrightarrow> x < a + n \<Longrightarrow> m x = m' x) \<Longrightarrow> load_bytes m a n = load_bytes m' a n"
  by (simp add: load_bytes_def)

text \<open>A 64-bit value is two 32-bit cells, the low one first.\<close>

definition load64 :: "bmem \<Rightarrow> nat \<Rightarrow> u64" where
  "load64 m a = ucast (load32 m a) OR push_bit 32 (ucast (load32 m (a + 4)))"

definition store64 :: "bmem \<Rightarrow> nat \<Rightarrow> u64 \<Rightarrow> bmem" where
  "store64 m a v = store32 (store32 m a (ucast v)) (a + 4) (ucast (drop_bit 32 v))"

subsection \<open>Unordered maps\<close>

text \<open>
  A \<open>std::unordered_map\<close> (or \<open>std::map\<close>) is a list of pairs in iteration order, which the
  code never relies on: \<open>find\<close> is \<open>map_of\<close>, \<open>m[k] = v\<close> is \<open>um_insert\<close>, \<open>erase\<close> is
  \<open>um_erase\<close>, and \<open>um_update\<close> changes the value stored at a key through its iterator.
\<close>

type_synonym ('k, 'v) umap = "('k \<times> 'v) list"

definition um_erase :: "'k \<Rightarrow> ('k, 'v) umap \<Rightarrow> ('k, 'v) umap" where
  "um_erase k m = filter (\<lambda>e. fst e \<noteq> k) m"

definition um_insert :: "'k \<Rightarrow> 'v \<Rightarrow> ('k, 'v) umap \<Rightarrow> ('k, 'v) umap" where
  "um_insert k v m = (k, v) # um_erase k m"

definition um_update :: "'k \<Rightarrow> ('v \<Rightarrow> 'v) \<Rightarrow> ('k, 'v) umap \<Rightarrow> ('k, 'v) umap" where
  "um_update k f m = map (\<lambda>e. (fst e, if fst e = k then f (snd e) else snd e)) m"

definition um_ok :: "('k, 'v) umap \<Rightarrow> bool" where
  "um_ok m \<longleftrightarrow> distinct (map fst m)"

lemma map_of_um_erase [simp]: "map_of (um_erase k m) = (map_of m)(k := None)"
  by (induction m) (auto simp: um_erase_def)

lemma map_of_um_insert [simp]: "map_of (um_insert k v m) = (map_of m)(k \<mapsto> v)"
  by (simp add: um_insert_def)

lemma map_of_um_update [simp]: "map_of (um_update k f m) = (map_of m)(k := map_option f (map_of m k))"
  by (induction m) (auto simp: um_update_def)

lemma um_ok_Nil [simp]: "um_ok []"
  by (simp add: um_ok_def)

lemma um_ok_erase [simp]: "um_ok m \<Longrightarrow> um_ok (um_erase k m)"
  by (auto simp: um_ok_def um_erase_def intro: distinct_map_filter)

lemma um_ok_insert [simp]: "um_ok m \<Longrightarrow> um_ok (um_insert k v m)"
  using um_ok_erase[of m k] by (auto simp: um_ok_def um_insert_def) (auto simp: um_erase_def)

lemma um_ok_update [simp]: "um_ok (um_update k f m) \<longleftrightarrow> um_ok m"
  by (simp add: um_ok_def um_update_def comp_def)

lemma um_erase_absent [simp]: "map_of m k = None \<Longrightarrow> um_erase k m = m"
  by (auto simp: um_erase_def map_of_eq_None_iff filter_id_conv)

lemma um_split:
  assumes "um_ok m" "map_of m k = Some v"
  obtains xs ys where "m = xs @ (k, v) # ys" "um_erase k m = xs @ ys"
proof -
  from map_of_SomeD[OF assms(2)] obtain xs ys where m: "m = xs @ (k, v) # ys" by (auto simp: in_set_conv_decomp)
  with assms(1) have "\<forall>e \<in> set xs \<union> set ys. fst e \<noteq> k" by (force simp: um_ok_def)
  then have "um_erase k m = xs @ ys" by (simp add: m um_erase_def filter_id_conv)
  with m show thesis by (rule that)
qed

lemma length_um_erase: "um_ok m \<Longrightarrow> map_of m k = Some v \<Longrightarrow> length m = Suc (length (um_erase k m))"
  by (erule um_split) auto

subsection \<open>Step systems\<close>

text \<open>
  The interface every state machine of the development is verified through: an initial
  predicate, a step relation and an invariant that holds initially and is kept by steps.
\<close>

locale step_system =
  fixes init :: "'s \<Rightarrow> bool"
    and step :: "'s \<Rightarrow> 's \<Rightarrow> bool"
    and inv :: "'s \<Rightarrow> bool"
  assumes inv_init: "init s \<Longrightarrow> inv s"
    and inv_step: "inv s \<Longrightarrow> step s t \<Longrightarrow> inv t"
begin

lemma inv_steps: "step\<^sup>*\<^sup>* s t \<Longrightarrow> inv s \<Longrightarrow> inv t"
  by (induction rule: rtranclp_induct) (auto intro: inv_step)

lemma inv_reachable: "init s \<Longrightarrow> step\<^sup>*\<^sup>* s t \<Longrightarrow> inv t"
  using inv_steps inv_init by blast

end

end
