(* ===== verification/DLock_Types.thy ===== *)
theory DLock_Types
  imports Umdk_Prelude
begin

section \<open>Data types of the distributed lock service\<close>

text \<open>
  The enumerations, wire structures and server-side lock structures of ULOCK
  (\<^verbatim>\<open>src/src/ulock/dlock/lib\<close>): \<^verbatim>\<open>include/dlock_types.h\<close>,
  \<^verbatim>\<open>common/dlock_common.h\<close> and \<^verbatim>\<open>server/lock_memory.h\<close>.  The union
  \<open>lock_state\<close> is kept as the four 32-bit cells it occupies, so that the overlap of its
  members (a fair lock's \<open>time_out\<close> is a read-write lock's \<open>rcount\<close>) is a fact and not an
  omission.  Layouts are those of a little-endian ABI that allocates bit-fields from the
  least significant bit.
\<close>

subsection \<open>Enumerations\<close>

datatype dlock_type = DLOCK_ATOMIC | DLOCK_RW | DLOCK_FAIR

datatype lock_ops = LOCK_EXCLUSIVE | LOCK_SHARED | UNLOCK | EXTEND_LOCK_EXCLUSIVE | EXTEND_LOCK_SHARED

datatype dlock_req_code =
    EXCLUSIVE_TRYLOCK | EXCLUSIVE_UNLOCK | EXCLUSIVE_LOCK_EXTEND | EXCLUSIVE_TICKET_TRYLOCK
  | SHARED_TRYLOCK | SHARED_UNLOCK | SHARED_LOCK_EXTEND | SHARED_TICKET_TRYLOCK
  | OP_CODE_MAX | OP_CODE_NULL | OP_REPLICA_CATCH_UP | OP_REPLICA_SYNC | OP_LOCAL_RESET

datatype dlock_state =
    LOCK_INITIALIZED | EXCLUSIVE_LOCKED | SHARED_LOCKED | UNLOCKED
  | EXCLUSIVE_TICKETED | SHARED_TICKETED

text \<open>The status codes.\<close>

datatype (plugins only: size) dlock_status =
    DLOCK_SUCCESS | DLOCK_DONE | DLOCK_EAGAIN | DLOCK_ENOMEM | DLOCK_ETIMEOUT | DLOCK_EINVAL
  | DLOCK_ETICKET | DLOCK_EASYNC | DLOCK_CLIENT_NOT_INIT | DLOCK_LOCK_NOT_GET
  | DLOCK_ALREADY_LOCKED | DLOCK_ALREADY_UNLOCKED | DLOCK_TICKET_TO_UNLOCK
  | DLOCK_BAD_RESPONSE | DLOCK_FAIL | DLOCK_CLIENTMGR_NOT_INIT | DLOCK_NOT_READY
  | DLOCK_NO_ASYNC | DLOCK_ASYNC_AGAIN | DLOCK_REPLICA_INIT_FAIL | DLOCK_SERVER_NOT_INIT
  | DLOCK_CLIENT_REMOVED_BY_SERVER | DLOCK_PROTO_VERSION_NEGOTIATION_FAIL
  | DLOCK_SERVER_NO_RESOURCE | DLOCK_OBJECT_ALREADY_EXISTED | DLOCK_OBJECT_ALREADY_CREATED
  | DLOCK_OBJECT_NOT_CREATE | DLOCK_OBJECT_INVALID_OWNER | DLOCK_OBJECT_NOT_GET
  | DLOCK_OBJECT_ALREADY_DESTROYED | DLOCK_OBJECT_TOO_MANY | DLOCK_OBJECT_CAS_FAILED

text \<open>The statistics counters.\<close>

datatype (plugins only: size) debug_stats_code =
    DEBUG_STATS_EAGAIN | DEBUG_STATS_NO_URMA_BUF | DEBUG_STATS_ENOMEM | DEBUG_STATS_ETIMEOUT
  | DEBUG_STATS_EINVAL_LOCK_OP | DEBUG_STATS_EINVAL_LOCK_TYPE | DEBUG_STATS_EINVAL_LOCK_OFFSET
  | DEBUG_STATS_EINVAL_LOCK_RET | DEBUG_STATS_ETICKET | DEBUG_STATS_EASYNC
  | DEBUG_STATS_CLIENT_NOT_INIT | DEBUG_STATS_LOCK_NOT_GET | DEBUG_STATS_ALREADY_LOCKED
  | DEBUG_STATS_ALREADY_UNLOCKED | DEBUG_STATS_ATOMIC_TRYLOCK_FAIL
  | DEBUG_STATS_ATOMIC_UNLOCK_FAIL | DEBUG_STATS_ATOMIC_EXTEND_FAIL
  | DEBUG_STATS_RW_TRYLOCK_EX_FAIL | DEBUG_STATS_RW_UNLOCK_EX_FAIL
  | DEBUG_STATS_RW_TRYLOCK_SH_FAIL | DEBUG_STATS_RW_UNLOCK_SH_FAIL
  | DEBUG_STATS_FAIR_QUEUE_LIMIT | DEBUG_STATS_FAIR_UNLOCK_EX_FAIL
  | DEBUG_STATS_FAIR_UNLOCK_SH_FAIL | DEBUG_STATS_FAIR_EX_TICKET_PASSED
  | DEBUG_STATS_FAIR_SH_TICKET_PASSED | DEBUG_STATS_INVALID_LOCK_STATE
  | DEBUG_STATS_TICKET_TO_UNLOCK | DEBUG_STATS_NETWORK_FAIL | DEBUG_STATS_SEND_FAIL
  | DEBUG_STATS_BAD_RESPONSE | DEBUG_STATS_CLIENT_DISCONNECT | DEBUG_STATS_FAIL
  | DEBUG_STATS_CLIENTMGR_NOT_INIT | DEBUG_STATS_NOT_READY | DEBUG_STATS_NO_ASYNC
  | DEBUG_STATS_ASYNC_AGAIN | DEBUG_STATS_REPLICA_INIT_FAIL | DEBUG_STATS_SERVER_NOT_INIT
  | DEBUG_STATS_ENCRYPT_FAIL | DEBUG_STATS_DECRYPT_FAIL | DEBUG_STATS_CLIENT_ID_VERIFY_FAIL
  | DEBUG_STATS_BAD_REQUEST | DEBUG_STATS_OBJECT_NOT_GET | DEBUG_STATS_OBJECT_CAS_FAILED
  | DEBUG_STATS_MAX

subsection \<open>Numeric values of the enumerators on the wire\<close>

text \<open>
  \<open>lock_type\<close> and \<open>op_code\<close> travel as \<open>uint8_t\<close>; a received byte need not be the
  value of an enumerator, which is what the server's range checks are for.
\<close>

fun lock_type_val :: "dlock_type \<Rightarrow> u8" where
  "lock_type_val DLOCK_ATOMIC = 0"
| "lock_type_val DLOCK_RW = 1"
| "lock_type_val DLOCK_FAIR = 2"

definition DLOCK_MAX :: u8 where "DLOCK_MAX = 3"

definition lock_type_of :: "u8 \<Rightarrow> dlock_type option" where
  "lock_type_of b = (if b = 0 then Some DLOCK_ATOMIC else if b = 1 then Some DLOCK_RW
     else if b = 2 then Some DLOCK_FAIR else None)"

fun req_val :: "dlock_req_code \<Rightarrow> u8" where
  "req_val EXCLUSIVE_TRYLOCK = 0"
| "req_val EXCLUSIVE_UNLOCK = 1"
| "req_val EXCLUSIVE_LOCK_EXTEND = 2"
| "req_val EXCLUSIVE_TICKET_TRYLOCK = 3"
| "req_val SHARED_TRYLOCK = 4"
| "req_val SHARED_UNLOCK = 5"
| "req_val SHARED_LOCK_EXTEND = 6"
| "req_val SHARED_TICKET_TRYLOCK = 7"
| "req_val OP_CODE_MAX = 8"
| "req_val OP_CODE_NULL = 9"
| "req_val OP_REPLICA_CATCH_UP = 10"
| "req_val OP_REPLICA_SYNC = 11"
| "req_val OP_LOCAL_RESET = 12"

definition req_of :: "u8 \<Rightarrow> dlock_req_code option" where
  "req_of b =
    (if b = 0 then Some EXCLUSIVE_TRYLOCK else if b = 1 then Some EXCLUSIVE_UNLOCK
     else if b = 2 then Some EXCLUSIVE_LOCK_EXTEND else if b = 3 then Some EXCLUSIVE_TICKET_TRYLOCK
     else if b = 4 then Some SHARED_TRYLOCK else if b = 5 then Some SHARED_UNLOCK
     else if b = 6 then Some SHARED_LOCK_EXTEND else if b = 7 then Some SHARED_TICKET_TRYLOCK
     else if b = 8 then Some OP_CODE_MAX else if b = 9 then Some OP_CODE_NULL
     else if b = 10 then Some OP_REPLICA_CATCH_UP else if b = 11 then Some OP_REPLICA_SYNC
     else if b = 12 then Some OP_LOCAL_RESET else None)"

lemma req_of_val [simp]: "req_of (req_val c) = Some c"
  by (cases c) (simp_all add: req_of_def)

lemma req_val_inject [simp]: "req_val a = req_val b \<longleftrightarrow> a = b"
  by (metis option.inject req_of_val)

lemma lock_type_of_val [simp]: "lock_type_of (lock_type_val t) = Some t"
  by (cases t) (simp_all add: lock_type_of_def)

lemma lock_type_val_lt_max [simp]: "lock_type_val t < DLOCK_MAX"
  by (cases t) (simp_all add: DLOCK_MAX_def)

lemma lock_type_of_None: "lock_type_of b = None \<longleftrightarrow> DLOCK_MAX \<le> b"
  by (auto simp: lock_type_of_def DLOCK_MAX_def; unat_arith; auto)

subsection \<open>The union \<open>lock_state\<close>\<close>

record lock_state =
  w0 :: u32
  w1 :: u32
  w2 :: u32
  w3 :: u32

text \<open>Member \<open>atomic\<close>: \<open>client_id\<close>, \<open>time_out\<close>.\<close>

abbreviation ls_atomic_client_id :: "lock_state \<Rightarrow> u32" where "ls_atomic_client_id ls \<equiv> w0 ls"
abbreviation ls_atomic_time_out :: "lock_state \<Rightarrow> u32" where "ls_atomic_time_out ls \<equiv> w1 ls"

text \<open>Member \<open>rw\<close>: \<open>time_out\<close>, \<open>client_id\<close>, \<open>rcount\<close>, \<open>rsvd\<close>.\<close>

abbreviation ls_rw_time_out :: "lock_state \<Rightarrow> u32" where "ls_rw_time_out ls \<equiv> w0 ls"
abbreviation ls_rw_client_id :: "lock_state \<Rightarrow> u32" where "ls_rw_client_id ls \<equiv> w1 ls"
abbreviation ls_rw_rcount :: "lock_state \<Rightarrow> u32" where "ls_rw_rcount ls \<equiv> w2 ls"

text \<open>
  Member \<open>fl\<close>: four 16-bit ticket numbers, \<open>time_out\<close>, and \<open>t_value\<close> overlaid with
  the bit-fields \<open>rms\<close> (16), \<open>rflag\<close> (1), \<open>rsvd\<close> (9) and \<open>rcnt\<close> (6).
\<close>

abbreviation fl_n_exclusive :: "lock_state \<Rightarrow> u16" where "fl_n_exclusive ls \<equiv> lo16 (w0 ls)"
abbreviation fl_n_shared :: "lock_state \<Rightarrow> u16" where "fl_n_shared ls \<equiv> hi16 (w0 ls)"
abbreviation fl_m_exclusive :: "lock_state \<Rightarrow> u16" where "fl_m_exclusive ls \<equiv> lo16 (w1 ls)"
abbreviation fl_m_shared :: "lock_state \<Rightarrow> u16" where "fl_m_shared ls \<equiv> hi16 (w1 ls)"
abbreviation fl_time_out :: "lock_state \<Rightarrow> u32" where "fl_time_out ls \<equiv> w2 ls"
abbreviation fl_t_value :: "lock_state \<Rightarrow> u32" where "fl_t_value ls \<equiv> w3 ls"

definition set_fl_m_exclusive :: "u16 \<Rightarrow> lock_state \<Rightarrow> lock_state" where
  "set_fl_m_exclusive v ls = ls\<lparr>w1 := mk32 v (hi16 (w1 ls))\<rparr>"

definition set_fl_m_shared :: "u16 \<Rightarrow> lock_state \<Rightarrow> lock_state" where
  "set_fl_m_shared v ls = ls\<lparr>w1 := mk32 (lo16 (w1 ls)) v\<rparr>"

definition set_fl_n_exclusive :: "u16 \<Rightarrow> lock_state \<Rightarrow> lock_state" where
  "set_fl_n_exclusive v ls = ls\<lparr>w0 := mk32 v (hi16 (w0 ls))\<rparr>"

definition set_fl_n_shared :: "u16 \<Rightarrow> lock_state \<Rightarrow> lock_state" where
  "set_fl_n_shared v ls = ls\<lparr>w0 := mk32 (lo16 (w0 ls)) v\<rparr>"

lemmas set_fl_defs = set_fl_m_exclusive_def set_fl_m_shared_def set_fl_n_exclusive_def
  set_fl_n_shared_def

text \<open>Member \<open>base\<close>: the 64 bits of the first two cells.\<close>

definition copy_base :: "lock_state \<Rightarrow> lock_state \<Rightarrow> lock_state" where
  "copy_base src dst = dst\<lparr>w0 := w0 src, w1 := w1 src\<rparr>"

definition clear_base :: "lock_state \<Rightarrow> lock_state" where
  "clear_base ls = ls\<lparr>w0 := 0, w1 := 0\<rparr>"

text \<open>The bit-fields of \<open>t_value\<close>.\<close>

definition bs_rms :: "u32 \<Rightarrow> u16" where "bs_rms t = ucast t"
definition bs_rflag :: "u32 \<Rightarrow> 1 word" where "bs_rflag t = ucast (drop_bit 16 t)"
definition bs_rsvd :: "u32 \<Rightarrow> 9 word" where "bs_rsvd t = ucast (drop_bit 17 t)"
definition bs_rcnt :: "u32 \<Rightarrow> 6 word" where "bs_rcnt t = ucast (drop_bit 26 t)"

definition mk_t_value :: "u16 \<Rightarrow> 1 word \<Rightarrow> 9 word \<Rightarrow> 6 word \<Rightarrow> u32" where
  "mk_t_value rms rflag rsvd rcnt =
     ucast rms OR push_bit 16 (ucast rflag) OR push_bit 17 (ucast rsvd) OR push_bit 26 (ucast rcnt)"

lemma bit_high:
  fixes w :: "'a::len word"
  shows "LENGTH('a) \<le> n \<Longrightarrow> \<not> bit w n"
  using bit_imp_le_length [of w n] by auto

lemma bs_rms_mk [simp]: "bs_rms (mk_t_value a b c d) = a"
  unfolding bs_rms_def mk_t_value_def by (rule bit_word_eqI) (auto simp: bit_simps)

lemma bs_rflag_mk [simp]: "bs_rflag (mk_t_value a b c d) = b"
  unfolding bs_rflag_def mk_t_value_def
  by (rule bit_word_eqI) (auto simp: bit_simps bit_high)

lemma bs_rsvd_mk [simp]: "bs_rsvd (mk_t_value a b c d) = c"
  unfolding bs_rsvd_def mk_t_value_def
  by (rule bit_word_eqI) (auto simp: bit_simps bit_high)

lemma bs_rcnt_mk [simp]: "bs_rcnt (mk_t_value a b c d) = d"
  unfolding bs_rcnt_def mk_t_value_def
  by (rule bit_word_eqI) (auto simp: bit_simps bit_high)

lemma mk_t_value_bs [simp]: "mk_t_value (bs_rms t) (bs_rflag t) (bs_rsvd t) (bs_rcnt t) = t"
proof (rule bit_word_eqI)
  fix n assume "n < LENGTH(32)"
  then consider "n < 16" | "n = 16" | "17 \<le> n" "n < 26" | "26 \<le> n" "n < 32" by force
  then show "bit (mk_t_value (bs_rms t) (bs_rflag t) (bs_rsvd t) (bs_rcnt t)) n \<longleftrightarrow> bit t n"
    unfolding bs_rms_def bs_rflag_def bs_rsvd_def bs_rcnt_def mk_t_value_def
    by cases (auto simp: bit_simps)
qed

subsection \<open>Messages and requests\<close>

record lock_cmd_msg =
  magic_no :: u32
  version :: u8
  message_id :: u16
  msg_lock_type :: u8
  op_code :: u8
  op_ret :: dlock_status
  lock_offset :: u32
  ls :: lock_state

record lock_request =
  req_lock_id :: u32
  req_lock_op :: lock_ops
  expire_time :: u32

definition DLOCK_PROTO_VERSION :: u8 where "DLOCK_PROTO_VERSION = 2"
definition DLOCK_DP_MAGIC_NO :: u32 where "DLOCK_DP_MAGIC_NO = 0xedf7c94b"

text \<open>\<open>struct lock_cmd_msg cmd_msg = {0}\<close>.\<close>

definition zero_ls :: lock_state where
  "zero_ls = \<lparr>w0 = 0, w1 = 0, w2 = 0, w3 = 0\<rparr>"

definition zero_msg :: lock_cmd_msg where
  "zero_msg = \<lparr>magic_no = 0, version = 0, message_id = 0, msg_lock_type = 0, op_code = 0,
     op_ret = DLOCK_SUCCESS, lock_offset = 0, ls = zero_ls\<rparr>"

subsection \<open>Server-side lock structures\<close>

record atomic_lock =
  al_client_id :: u32
  al_timeout :: u32

record rw_lock =
  rl_timeout :: u32
  rl_client_id :: u32
  rl_ref_count :: u32
  rl_rsvd :: u32

record fair_lock =
  nx :: u16
  ns :: u16
  mx :: u16
  ms :: u16
  fk_timeout :: u32
  rms :: u16
  rflag :: "1 word"
  fk_rsvd :: "9 word"
  rcnt :: "6 word"
  ext_client_id :: u32
  ext_rsvd :: u32

text \<open>\<open>g_lock_size\<close>: the sizes of the three structures.\<close>

fun g_lock_size :: "dlock_type \<Rightarrow> nat" where
  "g_lock_size DLOCK_ATOMIC = 8"
| "g_lock_size DLOCK_RW = 16"
| "g_lock_size DLOCK_FAIR = 24"

definition MAX_NUM_LOCK :: nat where "MAX_NUM_LOCK = 51200"

definition LOCK_MEMORY_SIZE :: nat where
  "LOCK_MEMORY_SIZE = g_lock_size DLOCK_FAIR * MAX_NUM_LOCK"

lemma LOCK_MEMORY_SIZE_val [simp]: "LOCK_MEMORY_SIZE = 1228800"
  by (simp add: LOCK_MEMORY_SIZE_def MAX_NUM_LOCK_def)

end
