(* ===== verification/DLock_Alloc.thy ===== *)
theory DLock_Alloc
  imports DLock_Types
begin

section \<open>The lock memory allocator\<close>

text \<open>
  The allocator half of class \<open>lock_memory\<close> (\<^verbatim>\<open>server/lock_memory.cpp\<close>): the
  constructor, the two overloads of \<open>get_lock_memory\<close> (first fit on a primary server, at a
  given offset on a replica) and \<open>release_lock_memory\<close>, over the free-block map
  \<open>m_free_memory_map\<close>, and the constructors and destructor of \<open>lock_entry_s\<close> that call
  them.  A \<open>std::map\<close> is a list of pairs in key order.  Offsets are \<open>uint32_t\<close>:
  sums are reduced modulo \<open>2^32\<close> as in the code.  The invariant \<open>fmap_ok\<close> says the free
  blocks are non-empty, inside the memory, and maximal (no two blocks touch); the abstract
  view is the set of free bytes.
\<close>

subsection \<open>std::map\<close>

type_synonym memory_map = "(nat \<times> nat) list"

definition mm_erase :: "nat \<Rightarrow> memory_map \<Rightarrow> memory_map" where
  "mm_erase k m = filter (\<lambda>e. fst e \<noteq> k) m"

fun mm_insert :: "nat \<Rightarrow> nat \<Rightarrow> memory_map \<Rightarrow> memory_map" where
  "mm_insert k v [] = [(k, v)]"
| "mm_insert k v ((o1, l1) # m) =
     (if k < o1 then (k, v) # (o1, l1) # m
      else if k = o1 then (k, v) # m
      else (o1, l1) # mm_insert k v m)"

text \<open>\<open>find(k)\<close>, and \<open>--upper_bound(k)\<close>: the last entry whose key is at most \<open>k\<close>.\<close>

definition mm_find :: "nat \<Rightarrow> memory_map \<Rightarrow> nat option" where
  "mm_find k m = map_of m k"

fun mm_floor :: "nat \<Rightarrow> memory_map \<Rightarrow> (nat \<times> nat) option" where
  "mm_floor k [] = None"
| "mm_floor k ((o1, l1) # m) =
     (if k < o1 then None
      else (case mm_floor k m of None \<Rightarrow> Some (o1, l1) | Some e \<Rightarrow> Some e))"

definition mm_sorted :: "memory_map \<Rightarrow> bool" where
  "mm_sorted m \<longleftrightarrow> sorted_wrt (\<lambda>a b. fst a < fst b) m"

lemma set_mm_erase [simp]: "set (mm_erase k m) = {e \<in> set m. fst e \<noteq> k}"
  by (auto simp: mm_erase_def)

lemma mm_sorted_erase [simp]: "mm_sorted m \<Longrightarrow> mm_sorted (mm_erase k m)"
  by (simp add: mm_sorted_def mm_erase_def sorted_wrt_filter)

lemma set_mm_insert:
  "mm_sorted m \<Longrightarrow> set (mm_insert k v m) = insert (k, v) {e \<in> set m. fst e \<noteq> k}"
  by (induction k v m rule: mm_insert.induct) (auto simp: mm_sorted_def)

lemma mm_sorted_insert: "mm_sorted m \<Longrightarrow> mm_sorted (mm_insert k v m)"
proof (induction k v m rule: mm_insert.induct)
  case (2 k v o1 l1 m)
  then show ?case
    by (auto simp: mm_sorted_def set_mm_insert)
qed (simp add: mm_sorted_def)

lemma mm_sorted_unique: "mm_sorted m \<Longrightarrow> (k, v) \<in> set m \<Longrightarrow> (k, v') \<in> set m \<Longrightarrow> v = v'"
  by (induction m) (auto simp: mm_sorted_def)

lemma mm_find_iff: "mm_sorted m \<Longrightarrow> mm_find k m = Some v \<longleftrightarrow> (k, v) \<in> set m"
  by (induction m) (auto simp: mm_sorted_def mm_find_def)

lemma mm_find_None: "mm_find k m = None \<longleftrightarrow> (\<forall>v. (k, v) \<notin> set m)"
  by (force simp: mm_find_def map_of_eq_None_iff)

lemma mm_floor_Some:
  "mm_sorted m \<Longrightarrow> mm_floor k m = Some (o1, l1) \<Longrightarrow>
    (o1, l1) \<in> set m \<and> o1 \<le> k \<and> (\<forall>e \<in> set m. fst e \<le> k \<longrightarrow> fst e \<le> o1)"
proof (induction k m arbitrary: o1 l1 rule: mm_floor.induct)
  case (2 k o2 l2 m)
  show ?case
  proof (cases "mm_floor k m")
    case None
    then have "\<forall>e \<in> set m. k < fst e"
      using "2.prems"(1) by (cases m) (auto simp: mm_sorted_def split: if_splits option.splits)
    with None "2.prems" show ?thesis by (auto split: if_splits)
  next
    case (Some e)
    with 2 show ?thesis by (force simp: mm_sorted_def split: if_splits)
  qed
qed simp

lemma mm_floor_None: "mm_sorted m \<Longrightarrow> mm_floor k m = None \<longleftrightarrow> (\<forall>e \<in> set m. k < fst e)"
  by (cases m) (auto simp: mm_sorted_def split: option.splits if_splits)

subsection \<open>State and operations\<close>

record lock_memory =
  m_p_lock_memory :: bmem
  m_is_primary :: bool
  m_free_memory_map :: memory_map
  m_stats :: "debug_stats_code \<Rightarrow> nat"

definition UINT_MAX :: nat where "UINT_MAX = 4294967295"

text \<open>The constructor: zeroed memory of the given number of bytes, one free block.\<close>

definition lock_memory_new :: "nat \<Rightarrow> bool \<Rightarrow> lock_memory" where
  "lock_memory_new sz is_primary = \<lparr>m_p_lock_memory = (\<lambda>_. 0), m_is_primary = is_primary,
     m_free_memory_map = mm_insert 0 sz [], m_stats = (\<lambda>_. 0)\<rparr>"

text \<open>The \<open>while\<close> loop of the first overload: skip blocks that are too short.\<close>

fun first_fit :: "nat \<Rightarrow> memory_map \<Rightarrow> (nat \<times> nat) option" where
  "first_fit lock_size [] = None"
| "first_fit lock_size ((o1, l1) # m) =
     (if l1 < lock_size then first_fit lock_size m else Some (o1, l1))"

definition get_lock_memory :: "dlock_type \<Rightarrow> lock_memory \<Rightarrow> lock_memory \<times> nat" where
  "get_lock_memory lock_type s =
    (let lock_size = g_lock_size lock_type in
     if \<not> m_is_primary s then (s, UINT_MAX)
     else case first_fit lock_size (m_free_memory_map s) of
       None \<Rightarrow> (s, UINT_MAX)
     | Some (offset, len) \<Rightarrow>
         (let m1 = mm_erase offset (m_free_memory_map s);
              m2 = (if len > lock_size
                    then mm_insert ((offset + lock_size) mod 2 ^ 32) (len - lock_size) m1
                    else m1)
          in (s\<lparr>m_free_memory_map := m2,
                m_p_lock_memory := memset0 (m_p_lock_memory s) offset lock_size\<rparr>, offset)))"

definition get_lock_memory_at :: "dlock_type \<Rightarrow> nat \<Rightarrow> lock_memory \<Rightarrow> lock_memory \<times> nat" where
  "get_lock_memory_at lock_type offset s =
    (let lock_size = g_lock_size lock_type in
     case mm_floor offset (m_free_memory_map s) of
       None \<Rightarrow> (s, UINT_MAX)
     | Some (mem_offset, mem_length) \<Rightarrow>
         (let mem_end = (mem_offset + mem_length) mod 2 ^ 32;
              lock_end = (offset + lock_size) mod 2 ^ 32 in
          if offset < mem_offset \<or> lock_end > mem_end then (s, UINT_MAX)
          else
            (let m1 = mm_erase mem_offset (m_free_memory_map s);
                 m2 = (if offset > mem_offset then mm_insert mem_offset (offset - mem_offset) m1 else m1);
                 m3 = (if lock_end < mem_end then mm_insert lock_end (mem_end - lock_end) m2 else m2)
             in (s\<lparr>m_free_memory_map := m3,
                   m_p_lock_memory := memset0 (m_p_lock_memory s) offset lock_size\<rparr>, offset))))"

definition release_lock_memory :: "nat \<Rightarrow> dlock_type \<Rightarrow> lock_memory \<Rightarrow> lock_memory" where
  "release_lock_memory offset lock_type s =
    (let len0 = g_lock_size lock_type;
         m0 = m_free_memory_map s;
         (len1, m1) = (case mm_find ((offset + len0) mod 2 ^ 32) m0 of
             None \<Rightarrow> (len0, m0)
           | Some l \<Rightarrow> ((len0 + l) mod 2 ^ 32, mm_erase ((offset + len0) mod 2 ^ 32) m0));
         (off2, len2, m2) = (case mm_floor offset m1 of
             None \<Rightarrow> (offset, len1, m1)
           | Some (o1, l1) \<Rightarrow>
               (if (o1 + l1) mod 2 ^ 32 = offset then (o1, (len1 + l1) mod 2 ^ 32, mm_erase o1 m1)
                else (offset, len1, m1)))
     in s\<lparr>m_free_memory_map := mm_insert off2 len2 m2\<rparr>)"

subsection \<open>lock_entry_s: the owner of a lock's memory\<close>

record lock_entry_s =
  es_lock_id :: u32
  es_lock_type :: dlock_type
  es_lock_offset :: nat

definition lock_entry_s_new :: "u32 \<Rightarrow> dlock_type \<Rightarrow> lock_memory \<Rightarrow> lock_memory \<times> lock_entry_s" where
  "lock_entry_s_new lock_id lock_type s =
    (let (s', off) = get_lock_memory lock_type s
     in (s', \<lparr>es_lock_id = lock_id, es_lock_type = lock_type, es_lock_offset = off\<rparr>))"

definition lock_entry_s_new_at ::
  "u32 \<Rightarrow> dlock_type \<Rightarrow> nat \<Rightarrow> lock_memory \<Rightarrow> lock_memory \<times> lock_entry_s" where
  "lock_entry_s_new_at lock_id lock_type offset s =
    (let (s', off) = get_lock_memory_at lock_type offset s
     in (s', \<lparr>es_lock_id = lock_id, es_lock_type = lock_type, es_lock_offset = off\<rparr>))"

definition lock_entry_s_delete :: "lock_entry_s \<Rightarrow> lock_memory \<Rightarrow> lock_memory" where
  "lock_entry_s_delete e s =
    (if es_lock_offset e \<noteq> UINT_MAX
     then release_lock_memory (es_lock_offset e) (es_lock_type e) s else s)"

subsection \<open>Invariant and abstract view\<close>

definition free_bytes :: "memory_map \<Rightarrow> nat set" where
  "free_bytes m = (\<Union>e \<in> set m. {fst e ..< fst e + snd e})"

definition fmap_ok :: "nat \<Rightarrow> memory_map \<Rightarrow> bool" where
  "fmap_ok sz m \<longleftrightarrow> mm_sorted m \<and> (\<forall>e \<in> set m. 0 < snd e \<and> fst e + snd e \<le> sz) \<and>
     (\<forall>e \<in> set m. \<forall>f \<in> set m. fst e < fst f \<longrightarrow> fst e + snd e < fst f)"

definition range_of :: "nat \<Rightarrow> dlock_type \<Rightarrow> nat set" where
  "range_of off t = {off ..< off + g_lock_size t}"

lemma g_lock_size_pos [simp]: "0 < g_lock_size t"
  by (cases t) simp_all

lemma g_lock_size_neq_0 [simp]: "g_lock_size t \<noteq> 0"
  by (cases t) simp_all

lemma fmap_okI:
  assumes "mm_sorted m" and "\<And>o1 l1. (o1, l1) \<in> set m \<Longrightarrow> 0 < l1 \<and> o1 + l1 \<le> sz"
    and "\<And>o1 l1 o2 l2. (o1, l1) \<in> set m \<Longrightarrow> (o2, l2) \<in> set m \<Longrightarrow> o1 < o2 \<Longrightarrow> o1 + l1 < o2"
  shows "fmap_ok sz m"
  using assms unfolding fmap_ok_def by force

lemma fmap_okD:
  assumes "fmap_ok sz m"
  shows "mm_sorted m" and "(o1, l1) \<in> set m \<Longrightarrow> 0 < l1" and "(o1, l1) \<in> set m \<Longrightarrow> o1 + l1 \<le> sz"
    and "(o1, l1) \<in> set m \<Longrightarrow> (o2, l2) \<in> set m \<Longrightarrow> o1 < o2 \<Longrightarrow> o1 + l1 < o2"
    and "(o1, l1) \<in> set m \<Longrightarrow> (o1, l2) \<in> set m \<Longrightarrow> l1 = l2"
  using assms unfolding fmap_ok_def by (fastforce dest: mm_sorted_unique)+

lemma free_bytes_iff: "x \<in> free_bytes m \<longleftrightarrow> (\<exists>o1 l1. (o1, l1) \<in> set m \<and> o1 \<le> x \<and> x < o1 + l1)"
  by (force simp: free_bytes_def)

lemma block_free: "(k, l) \<in> set m \<Longrightarrow> {k ..< k + l} \<subseteq> free_bytes m"
  by (force simp: free_bytes_def)

lemma first_fit_Some: "first_fit n m = Some (o1, l1) \<Longrightarrow> (o1, l1) \<in> set m \<and> n \<le> l1"
  by (induction n m rule: first_fit.induct) (auto split: if_splits)

lemma first_fit_None: "first_fit n m = None \<longleftrightarrow> (\<forall>e \<in> set m. snd e < n)"
  by (induction n m rule: first_fit.induct) auto

lemma free_bytes_block_unique:
  "fmap_ok sz m \<Longrightarrow> (o1, l1) \<in> set m \<Longrightarrow> (o2, l2) \<in> set m \<Longrightarrow>
    o1 \<le> x \<Longrightarrow> x < o1 + l1 \<Longrightarrow> o2 \<le> x \<Longrightarrow> x < o2 + l2 \<Longrightarrow> o1 = o2 \<and> l1 = l2"
  using fmap_okD(4)[of sz m o1 l1 o2 l2] fmap_okD(4)[of sz m o2 l2 o1 l1] fmap_okD(5)[of sz m o1 l1 l2]
  by (cases o1 o2 rule: linorder_cases) auto

text \<open>Replacing a block by two sub-blocks around an allocated range.\<close>

definition carve :: "nat \<Rightarrow> nat \<Rightarrow> nat \<Rightarrow> nat \<Rightarrow> memory_map \<Rightarrow> memory_map" where
  "carve o1 l1 off n m =
     (let m1 = mm_erase o1 m;
          m2 = (if off > o1 then mm_insert o1 (off - o1) m1 else m1)
      in (if off + n < o1 + l1 then mm_insert (off + n) (o1 + l1 - (off + n)) m2 else m2))"

lemma set_carve:
  assumes "fmap_ok sz m" "(o1, l1) \<in> set m" "o1 \<le> off" "off + n \<le> o1 + l1" "0 < n"
  shows "set (carve o1 l1 off n m) = {e \<in> set m. fst e \<noteq> o1}
    \<union> (if off > o1 then {(o1, off - o1)} else {})
    \<union> (if off + n < o1 + l1 then {(off + n, o1 + l1 - (off + n))} else {})"
proof -
  have "fst e \<noteq> off + n" if "e \<in> set m" "off + n < o1 + l1" for e
    using that assms fmap_okD(4)[OF assms(1,2), of "fst e" "snd e"] by auto
  then show ?thesis
    using assms fmap_okD(1)[OF assms(1)]
    by (auto simp: carve_def Let_def set_mm_insert mm_sorted_insert split: if_splits)
qed

lemma mm_sorted_carve: "mm_sorted m \<Longrightarrow> mm_sorted (carve o1 l1 off n m)"
  by (simp add: carve_def Let_def mm_sorted_insert)

lemma carve_ok:
  assumes "fmap_ok sz m" "(o1, l1) \<in> set m" "o1 \<le> off" "off + n \<le> o1 + l1" "0 < n"
  shows "fmap_ok sz (carve o1 l1 off n m)"
proof (rule fmap_okI)
  note D = fmap_okD[OF assms(1)] and S = set_carve[OF assms]
  show "mm_sorted (carve o1 l1 off n m)" by (simp add: mm_sorted_carve D)
  show "0 < l \<and> k + l \<le> sz" if "(k, l) \<in> set (carve o1 l1 off n m)" for k l
    using that assms D(2,3)[of k l] D(3)[OF assms(2)] by (auto simp: S split: if_splits)
  show "k + l < k'"
    if "(k, l) \<in> set (carve o1 l1 off n m)" "(k', l') \<in> set (carve o1 l1 off n m)" "k < k'"
    for k l k' l' 
    using that assms D(4)[of k l k' l'] D(4)[of k l o1 l1] D(4)[of o1 l1 k' l']
      D(4)[of o1 l1 k l]
    by (cases k o1 rule: linorder_cases) (auto simp: S split: if_splits)
qed

lemma carve_free:
  assumes "fmap_ok sz m" "(o1, l1) \<in> set m" "o1 \<le> off" "off + n \<le> o1 + l1" "0 < n"
  shows "free_bytes (carve o1 l1 off n m) = free_bytes m - {off ..< off + n}"
    and "{off ..< off + n} \<subseteq> free_bytes m"
proof -
  show sub: "{off ..< off + n} \<subseteq> free_bytes m"
    using assms by (fastforce simp: free_bytes_iff)
  show "free_bytes (carve o1 l1 off n m) = free_bytes m - {off ..< off + n}" (is "?L = ?R")
  proof (intro set_eqI iffI)
    fix x assume "x \<in> ?L"
    then obtain k l where kl: "(k, l) \<in> set (carve o1 l1 off n m)" "k \<le> x" "x < k + l"
      by (auto simp: free_bytes_iff)
    have mem: "x \<in> free_bytes m" if "o1 \<le> x" "x < o1 + l1"
      using that assms(2) by (auto simp: free_bytes_iff)
    show "x \<in> ?R"
    proof (cases "(k, l) \<in> set m \<and> k \<noteq> o1")
      case True
      with kl(2,3) have "x \<in> free_bytes m" "\<not> (o1 \<le> x \<and> x < o1 + l1)"
        using free_bytes_block_unique[OF assms(1,2), of k l x] by (auto simp: free_bytes_iff)
      with assms(3,4) show ?thesis by auto
    next
      case False
      with kl(1) have "o1 < off \<and> k = o1 \<and> l = off - o1
          \<or> off + n < o1 + l1 \<and> k = off + n \<and> l = o1 + l1 - (off + n)"
        unfolding set_carve[OF assms] by (auto split: if_splits)
      with kl(2,3) assms(3,4) have "o1 \<le> x \<and> x < o1 + l1 \<and> (x < off \<or> off + n \<le> x)"
        by (elim disjE) simp_all
      with mem show ?thesis by auto
    qed
  next
    fix x assume "x \<in> ?R"
    then obtain k l where kl: "(k, l) \<in> set m" "k \<le> x" "x < k + l" "\<not> (off \<le> x \<and> x < off + n)"
      by (auto simp: free_bytes_iff)
    show "x \<in> ?L"
    proof (cases "k = o1")
      case True
      with kl assms have "l = l1" using fmap_okD(5)[OF assms(1)] by blast
      with True kl assms(3,4) have "o1 < off \<and> x < off \<or> off + n < o1 + l1 \<and> off + n \<le> x"
        by auto
      then show ?thesis
      proof
        assume "o1 < off \<and> x < off"
        with True kl show ?thesis
          by (intro free_bytes_iff[THEN iffD2] exI[of _ o1] exI[of _ "off - o1"])
            (simp add: set_carve[OF assms])
      next
        assume "off + n < o1 + l1 \<and> off + n \<le> x"
        with True \<open>l = l1\<close> kl show ?thesis
          by (intro free_bytes_iff[THEN iffD2] exI[of _ "off + n"] exI[of _ "o1 + l1 - (off + n)"])
            (simp add: set_carve[OF assms])
      qed
    next
      case False
      with kl show ?thesis by (auto simp: free_bytes_iff set_carve[OF assms])
    qed
  qed
qed

text \<open>Inserting a block next to no other one.\<close>

lemma insert_block:
  assumes ok: "fmap_ok sz m" and len: "0 < n" "off + n \<le> sz"
    and apart: "\<And>k l. (k, l) \<in> set m \<Longrightarrow> k + l < off \<or> off + n < k"
  shows "fmap_ok sz (mm_insert off n m)"
    and "free_bytes (mm_insert off n m) = free_bytes m \<union> {off ..< off + n}"
proof -
  note D = fmap_okD[OF ok]
  have S: "set (mm_insert off n m) = insert (off, n) (set m)"
    using apart len by (force simp: set_mm_insert[OF D(1)])
  show "fmap_ok sz (mm_insert off n m)"
  proof (rule fmap_okI)
    show "k + l < k'" if "(k, l) \<in> set (mm_insert off n m)" "(k', l') \<in> set (mm_insert off n m)"
      "k < k'" for k l k' l'
      using that apart[of k l] apart[of k' l'] D(4)[of k l k' l'] len by (auto simp: S)
  qed (use D len in \<open>auto simp: S mm_sorted_insert\<close>)
  show "free_bytes (mm_insert off n m) = free_bytes m \<union> {off ..< off + n}"
    by (auto simp: free_bytes_def S)
qed

lemma erase_block:
  assumes ok: "fmap_ok sz m" and mem: "(k, l) \<in> set m"
  shows "fmap_ok sz (mm_erase k m)"
    and "free_bytes (mm_erase k m) = free_bytes m - {k ..< k + l}"
proof -
  note D = fmap_okD[OF ok]
  show "fmap_ok sz (mm_erase k m)" by (rule fmap_okI) (use D in auto)
  show "free_bytes (mm_erase k m) = free_bytes m - {k ..< k + l}"
  proof (intro set_eqI iffI)
    fix x assume "x \<in> free_bytes (mm_erase k m)"
    then show "x \<in> free_bytes m - {k ..< k + l}"
      using free_bytes_block_unique[OF ok _ mem] by (auto simp: free_bytes_iff)
  next
    fix x assume "x \<in> free_bytes m - {k ..< k + l}"
    then obtain k' l' where "(k', l') \<in> set m" "k' \<le> x" "x < k' + l'" "\<not> (k \<le> x \<and> x < k + l)"
      by (auto simp: free_bytes_iff)
    then show "x \<in> free_bytes (mm_erase k m)"
      using D(5)[OF mem] by (cases "k' = k") (auto simp: free_bytes_iff)
  qed
qed

subsection \<open>Correctness of the operations\<close>

definition lm_ok :: "nat \<Rightarrow> lock_memory \<Rightarrow> bool" where
  "lm_ok sz s \<longleftrightarrow> sz < 2 ^ 30 \<and> fmap_ok sz (m_free_memory_map s)"

definition lm_free :: "lock_memory \<Rightarrow> nat set" where
  "lm_free s = free_bytes (m_free_memory_map s)"

lemma lock_memory_new_ok:
  "0 < sz \<Longrightarrow> sz < 2 ^ 30 \<Longrightarrow> lm_ok sz (lock_memory_new sz p) \<and> lm_free (lock_memory_new sz p) = {0 ..< sz}"
  by (auto simp: lm_ok_def lm_free_def lock_memory_new_def fmap_ok_def mm_sorted_def free_bytes_def)

lemma g_lock_size_le [simp]: "g_lock_size t \<le> 24"
  by (cases t) simp_all

lemma get_lock_memory_carve:
  assumes ok: "lm_ok sz s" and prim: "m_is_primary s"
    and ff: "first_fit (g_lock_size t) (m_free_memory_map s) = Some (o1, l1)"
  shows "get_lock_memory t s =
    (s\<lparr>m_free_memory_map := carve o1 l1 o1 (g_lock_size t) (m_free_memory_map s),
       m_p_lock_memory := memset0 (m_p_lock_memory s) o1 (g_lock_size t)\<rparr>, o1)"
proof -
  have "(o1, l1) \<in> set (m_free_memory_map s)" "g_lock_size t \<le> l1"
    using first_fit_Some[OF ff] by auto
  moreover have "o1 + l1 \<le> sz" "sz < 2 ^ 30"
    using ok calculation fmap_okD(3)[of sz] by (auto simp: lm_ok_def)
  ultimately show ?thesis
    using prim ff by (auto simp: get_lock_memory_def carve_def Let_def diff_diff_eq)
qed

lemma get_lock_memory_at_carve:
  assumes ok: "lm_ok sz s" and off: "off + g_lock_size t < 2 ^ 32"
    and fl: "mm_floor off (m_free_memory_map s) = Some (o1, l1)"
  shows "get_lock_memory_at t off s =
    (if off + g_lock_size t \<le> o1 + l1 then
      (s\<lparr>m_free_memory_map := carve o1 l1 off (g_lock_size t) (m_free_memory_map s),
         m_p_lock_memory := memset0 (m_p_lock_memory s) off (g_lock_size t)\<rparr>, off)
     else (s, UINT_MAX))"
proof -
  have "(o1, l1) \<in> set (m_free_memory_map s)" "o1 \<le> off"
    using mm_floor_Some[OF _ fl] ok fmap_okD(1) by (auto simp: lm_ok_def)
  moreover have "o1 + l1 \<le> sz" "sz < 2 ^ 30"
    using ok calculation fmap_okD(3)[of sz] by (auto simp: lm_ok_def)
  ultimately show ?thesis
    using off fl by (auto simp: get_lock_memory_at_def carve_def Let_def)
qed

text \<open>Coalescing, one side at a time: \<open>pending\<close> is a range that is not free and does not
  touch a free block on its right (\<open>pending_r\<close>), or on either side.\<close>

definition pending_r :: "nat \<Rightarrow> memory_map \<Rightarrow> nat \<Rightarrow> nat \<Rightarrow> bool" where
  "pending_r sz m off n \<longleftrightarrow> fmap_ok sz m \<and> 0 < n \<and> off + n \<le> sz \<and>
     (\<forall>e \<in> set m. fst e + snd e \<le> off \<or> off + n < fst e)"

lemma disjoint_block:
  assumes "fmap_ok sz m" "free_bytes m \<inter> {off ..< off + n} = {}" "0 < n" "(k, l) \<in> set m"
  shows "k + l \<le> off \<or> off + n \<le> k"
proof (rule ccontr)
  assume *: "\<not> ?thesis"
  have "0 < l" using fmap_okD(2)[OF assms(1,4)] .
  with * assms(3,4) have "max k off \<in> free_bytes m \<inter> {off ..< off + n}"
    by (intro IntI free_bytes_iff[THEN iffD2] exI[of _ k] exI[of _ l]) auto
  with assms(2) show False by simp
qed

definition merge_next :: "nat \<Rightarrow> nat \<Rightarrow> memory_map \<Rightarrow> nat \<times> memory_map" where
  "merge_next off n m = (case mm_find (off + n) m of
      None \<Rightarrow> (n, m) | Some l \<Rightarrow> (n + l, mm_erase (off + n) m))"

definition merge_prev :: "nat \<Rightarrow> nat \<Rightarrow> memory_map \<Rightarrow> nat \<times> nat \<times> memory_map" where
  "merge_prev off n m = (case mm_floor off m of
      None \<Rightarrow> (off, n, m)
    | Some (o1, l1) \<Rightarrow> (if o1 + l1 = off then (o1, n + l1, mm_erase o1 m) else (off, n, m)))"

lemma merge_next_ok:
  assumes ok: "fmap_ok sz m" and n: "0 < n" "off + n \<le> sz"
    and dis: "free_bytes m \<inter> {off ..< off + n} = {}" and mn: "merge_next off n m = (n', m')"
  shows "pending_r sz m' off n' \<and> free_bytes m' \<union> {off ..< off + n'} = free_bytes m \<union> {off ..< off + n}"
proof -
  note D = fmap_okD[OF ok] and B = disjoint_block[OF ok dis n(1)]
  show ?thesis
  proof (cases "mm_find (off + n) m")
    case None
    with mn have "n' = n" "m' = m" by (auto simp: merge_next_def)
    moreover have "k + l \<le> off \<or> off + n < k" if "(k, l) \<in> set m" for k l
      using B[OF that] None that by (cases "k = off + n") (auto simp: mm_find_None)
    ultimately show ?thesis using ok n by (auto simp: pending_r_def)
  next
    case (Some l)
    then have mem: "(off + n, l) \<in> set m" by (simp add: mm_find_iff D)
    from Some mn have eq: "n' = n + l" "m' = mm_erase (off + n) m" by (auto simp: merge_next_def)
    have "k + l' \<le> off \<or> off + (n + l) < k" if "(k, l') \<in> set m" "k \<noteq> off + n" for k l'
      using B[OF that(1)] D(4)[OF mem that(1)] that(2) by auto
    moreover have "{off + n ..< off + n + l} \<subseteq> free_bytes m"
      by (rule block_free[OF mem])
    ultimately show ?thesis
      using erase_block[OF ok mem] D(3)[OF mem] n by (auto simp: pending_r_def eq)
  qed
qed

lemma merge_prev_ok:
  assumes p: "pending_r sz m off n" and mp: "merge_prev off n m = (off', n', m')"
  shows "fmap_ok sz (mm_insert off' n' m')"
    and "free_bytes (mm_insert off' n' m') = free_bytes m \<union> {off ..< off + n}"
proof -
  from p have ok: "fmap_ok sz m" and n: "0 < n" "off + n \<le> sz"
    and A: "\<And>k l. (k, l) \<in> set m \<Longrightarrow> k + l \<le> off \<or> off + n < k"
    by (auto simp: pending_r_def)
  note D = fmap_okD[OF ok]
  have "fmap_ok sz (mm_insert off' n' m')
    \<and> free_bytes (mm_insert off' n' m') = free_bytes m \<union> {off ..< off + n}"
  proof (cases "\<exists>o1 l1. mm_floor off m = Some (o1, l1) \<and> o1 + l1 = off")
    case True
    then obtain o1 l1 where fl: "mm_floor off m = Some (o1, l1)" and e: "o1 + l1 = off" by blast
    then have mem: "(o1, l1) \<in> set m" using mm_floor_Some[OF D(1) fl] by simp
    from fl e mp have eq: "off' = o1" "n' = n + l1" "m' = mm_erase o1 m"
      by (auto simp: merge_prev_def)
    have ap: "k + l < o1 \<or> o1 + (n + l1) < k" if "(k, l) \<in> set m'" for k l
      using that A[of k l] D(4)[of k l o1 l1] D(4)[of o1 l1 k l] mem e n(1)
      by (cases k o1 rule: linorder_cases) (auto simp: eq)
    note I = insert_block[OF erase_block(1)[OF ok mem], of "n + l1" o1]
    have "{o1 ..< o1 + l1} \<subseteq> free_bytes m" by (rule block_free[OF mem])
    with I erase_block(2)[OF ok mem] ap n e show ?thesis by (auto simp: eq)
  next
    case False
    then have eq: "off' = off" "n' = n" "m' = m"
      using mp by (auto simp: merge_prev_def split: option.splits if_splits)
    have "k + l < off \<or> off + n < k" if kl: "(k, l) \<in> set m" for k l
    proof (rule ccontr)
      assume *: "\<not> ?thesis"
      with A[OF kl] have e: "k + l = off" by auto
      have "k \<le> off" using e by simp
      with kl obtain o1 l1 where fl: "mm_floor off m = Some (o1, l1)"
        using mm_floor_None[OF D(1), of off] by (cases "mm_floor off m") force+
      note F = mm_floor_Some[OF D(1) fl]
      have "k \<le> o1" using F kl \<open>k \<le> off\<close> by force
      then have "k = o1" using F D(4)[OF kl, of o1 l1] e by (cases "k = o1") auto
      with F D(5)[OF kl] fl e False show False by auto
    qed
    with insert_block[OF ok n] show ?thesis by (auto simp: eq)
  qed
  then show "fmap_ok sz (mm_insert off' n' m')"
    and "free_bytes (mm_insert off' n' m') = free_bytes m \<union> {off ..< off + n}" by simp_all
qed

lemma release_lock_memory_merge:
  assumes ok: "lm_ok sz s" and r: "off + g_lock_size t \<le> sz"
  shows "release_lock_memory off t s =
    (let (len1, m1) = merge_next off (g_lock_size t) (m_free_memory_map s);
         (off2, len2, m2) = merge_prev off len1 m1
     in s\<lparr>m_free_memory_map := mm_insert off2 len2 m2\<rparr>)"
proof -
  let ?m = "m_free_memory_map s"
  have F: "fmap_ok sz ?m" and sz: "sz < 2 ^ 30" using ok by (auto simp: lm_ok_def)
  have B: "k + l < 2 ^ 30" if "(k, l) \<in> set ?m" for k l
    using fmap_okD(3)[OF F that] sz by simp
  have w: "(off + g_lock_size t) mod 2 ^ 32 = off + g_lock_size t"
    using sz r by simp
  have g: "g_lock_size t < 2 ^ 30" by (cases t) simp_all
  have fB: "mm_find k ?m = Some l \<Longrightarrow> k + l < 2 ^ 30" for k l
    using B[of k l] by (simp add: mm_find_iff fmap_okD(1)[OF F])
  obtain n1 m1 where mn: "merge_next off (g_lock_size t) ?m = (n1, m1)" by fastforce
  have n1: "n1 < 2 ^ 31" "set m1 \<subseteq> set ?m" "mm_sorted m1"
    and nx: "(case mm_find (off + g_lock_size t) ?m of None \<Rightarrow> (g_lock_size t, ?m)
       | Some l \<Rightarrow> ((g_lock_size t + l) mod 2 ^ 32, mm_erase (off + g_lock_size t) ?m)) = (n1, m1)"
    using mn fB[of "off + g_lock_size t"] fmap_okD(1)[OF F] g
    by (cases "mm_find (off + g_lock_size t) ?m"; auto simp: merge_next_def)+
  have pv: "(case mm_floor off m1 of None \<Rightarrow> (off, n1, m1)
       | Some (o1, l1) \<Rightarrow> if (o1 + l1) mod 2 ^ 32 = off
           then (o1, (n1 + l1) mod 2 ^ 32, mm_erase o1 m1) else (off, n1, m1)) = merge_prev off n1 m1"
  proof (cases "mm_floor off m1")
    case (Some e)
    obtain o1 l1 where e: "e = (o1, l1)" by fastforce
    from mm_floor_Some[OF n1(3) Some[unfolded e]] n1(2) have "o1 + l1 < 2 ^ 30" by (intro B) auto
    with Some e n1(1) show ?thesis by (auto simp: merge_prev_def)
  qed (simp add: merge_prev_def)
  show ?thesis
    unfolding release_lock_memory_def Let_def w nx mn prod.case pv ..
qed

lemma get_lock_memory_spec:
  assumes ok: "lm_ok sz s" and g: "get_lock_memory t s = (s', off)" and r: "off \<noteq> UINT_MAX"
  shows "lm_ok sz s'" and "range_of off t \<subseteq> lm_free s" and "lm_free s' = lm_free s - range_of off t"
    and "m_p_lock_memory s' = memset0 (m_p_lock_memory s) off (g_lock_size t)"
    and "m_is_primary s' = m_is_primary s"
proof -
  from g r obtain l1 where prim: "m_is_primary s"
    and ff: "first_fit (g_lock_size t) (m_free_memory_map s) = Some (off, l1)"
    by (auto simp: get_lock_memory_def Let_def split: if_splits option.splits)
  have F: "fmap_ok sz (m_free_memory_map s)" using ok by (simp add: lm_ok_def)
  have mem: "(off, l1) \<in> set (m_free_memory_map s)" "g_lock_size t \<le> l1"
    using first_fit_Some[OF ff] by auto
  have C: "off \<le> off" "off + g_lock_size t \<le> off + l1" using mem by auto
  note K = carve_ok[OF F mem(1) C g_lock_size_pos] carve_free[OF F mem(1) C g_lock_size_pos]
  have s': "s' = s\<lparr>m_free_memory_map := carve off l1 off (g_lock_size t) (m_free_memory_map s),
       m_p_lock_memory := memset0 (m_p_lock_memory s) off (g_lock_size t)\<rparr>"
    using get_lock_memory_carve[OF ok prim ff] g by simp
  show "lm_ok sz s'" and "range_of off t \<subseteq> lm_free s" and "lm_free s' = lm_free s - range_of off t"
    and "m_p_lock_memory s' = memset0 (m_p_lock_memory s) off (g_lock_size t)"
    and "m_is_primary s' = m_is_primary s"
    using K ok by (simp_all add: s' lm_ok_def lm_free_def range_of_def)
qed

lemma get_lock_memory_fail:
  "get_lock_memory t s = (s', UINT_MAX) \<Longrightarrow> lm_ok sz s \<Longrightarrow>
    s' = s \<and> (m_is_primary s \<longrightarrow> (\<forall>e \<in> set (m_free_memory_map s). snd e < g_lock_size t))"
  using first_fit_None[of "g_lock_size t" "m_free_memory_map s"]
    first_fit_Some[of "g_lock_size t" "m_free_memory_map s"] fmap_okD(3)[of sz "m_free_memory_map s" UINT_MAX]
  by (auto simp: get_lock_memory_def Let_def lm_ok_def UINT_MAX_def split: if_splits option.splits)

lemma get_lock_memory_at_spec:
  assumes ok: "lm_ok sz s" and w: "off + g_lock_size t < 2 ^ 32"
    and g: "get_lock_memory_at t off s = (s', r)" and r: "r \<noteq> UINT_MAX"
  shows "r = off" and "lm_ok sz s'" and "range_of off t \<subseteq> lm_free s"
    and "lm_free s' = lm_free s - range_of off t"
proof -
  have F: "fmap_ok sz (m_free_memory_map s)" using ok by (simp add: lm_ok_def)
  from g r obtain o1 l1 where fl: "mm_floor off (m_free_memory_map s) = Some (o1, l1)"
    by (cases "mm_floor off (m_free_memory_map s)") (auto simp: get_lock_memory_at_def Let_def)
  have le: "off + g_lock_size t \<le> o1 + l1"
    using get_lock_memory_at_carve[OF ok w fl] g r by (auto split: if_splits)
  have mem: "(o1, l1) \<in> set (m_free_memory_map s)" "o1 \<le> off"
    using mm_floor_Some[OF fmap_okD(1)[OF F] fl] by auto
  note K = carve_ok[OF F mem le g_lock_size_pos] carve_free[OF F mem le g_lock_size_pos]
  have "r = off \<and> s' = s\<lparr>m_free_memory_map := carve o1 l1 off (g_lock_size t) (m_free_memory_map s),
       m_p_lock_memory := memset0 (m_p_lock_memory s) off (g_lock_size t)\<rparr>"
    using get_lock_memory_at_carve[OF ok w fl] g le by simp
  then show "r = off" and "lm_ok sz s'" and "range_of off t \<subseteq> lm_free s"
    and "lm_free s' = lm_free s - range_of off t"
    using K ok by (simp_all add: lm_ok_def lm_free_def range_of_def)
qed

lemma get_lock_memory_at_fail:
  "get_lock_memory_at t off s = (s', UINT_MAX) \<Longrightarrow> off + g_lock_size t < 2 ^ 32 \<Longrightarrow> s' = s"
  using g_lock_size_pos[of t]
  by (auto simp: get_lock_memory_at_def Let_def UINT_MAX_def split: option.splits if_splits)

lemma release_lock_memory_spec:
  assumes ok: "lm_ok sz s" and r: "off + g_lock_size t \<le> sz" and d: "range_of off t \<inter> lm_free s = {}"
  shows "lm_ok sz (release_lock_memory off t s)"
    and "lm_free (release_lock_memory off t s) = lm_free s \<union> range_of off t"
proof -
  have F: "fmap_ok sz (m_free_memory_map s)" using ok by (simp add: lm_ok_def)
  obtain n1 m1 where mn: "merge_next off (g_lock_size t) (m_free_memory_map s) = (n1, m1)" by fastforce
  obtain off2 n2 m2 where mp: "merge_prev off n1 m1 = (off2, n2, m2)" by (metis prod_cases3)
  have N: "pending_r sz m1 off n1"
    "free_bytes m1 \<union> {off ..< off + n1} = free_bytes (m_free_memory_map s) \<union> range_of off t"
    using merge_next_ok[OF F g_lock_size_pos r _ mn] d by (auto simp: lm_free_def range_of_def Int_commute)
  show "lm_ok sz (release_lock_memory off t s)"
    and "lm_free (release_lock_memory off t s) = lm_free s \<union> range_of off t"
    using merge_prev_ok[OF N(1) mp] N(2) ok
    by (simp_all add: release_lock_memory_merge[OF ok r] mn mp lm_ok_def lm_free_def)
qed

subsection \<open>Histories of lock entries\<close>

text \<open>
  The server keeps one \<open>lock_entry_s\<close> per lock; creating one allocates, destroying one
  releases.  A step of the history is a constructor or destructor call.
\<close>

type_synonym lock_heap = "lock_memory \<times> lock_entry_s list"

inductive entry_step :: "lock_heap \<Rightarrow> lock_heap \<Rightarrow> bool" where
  create: "lock_entry_s_new i t s = (s', e) \<Longrightarrow> entry_step (s, es) (s', e # es)"
| create_at: "off + g_lock_size t < 2 ^ 32 \<Longrightarrow> lock_entry_s_new_at i t off s = (s', e) \<Longrightarrow>
    entry_step (s, es) (s', e # es)"
| destroy: "entry_step (s, es1 @ e # es2) (lock_entry_s_delete e s, es1 @ es2)"

definition entry_range :: "lock_entry_s \<Rightarrow> nat set" where
  "entry_range e = (if es_lock_offset e = UINT_MAX then {}
     else range_of (es_lock_offset e) (es_lock_type e))"

text \<open>The entries and the free list partition the memory.\<close>

fun heap_part :: "nat \<Rightarrow> nat set \<Rightarrow> lock_entry_s list \<Rightarrow> bool" where
  "heap_part sz X [] \<longleftrightarrow> X = {0 ..< sz}"
| "heap_part sz X (e # es) \<longleftrightarrow> X \<inter> entry_range e = {} \<and> heap_part sz (X \<union> entry_range e) es"

definition heap_ok :: "nat \<Rightarrow> lock_heap \<Rightarrow> bool" where
  "heap_ok sz h \<longleftrightarrow> lm_ok sz (fst h) \<and> heap_part sz (lm_free (fst h)) (snd h)"

lemma heap_part_sub: "heap_part sz X es \<Longrightarrow> X \<subseteq> {0 ..< sz}"
  by (induction sz X es rule: heap_part.induct) auto

lemma heap_part_remove:
  "heap_part sz X (es1 @ e # es2) \<Longrightarrow> X \<inter> entry_range e = {} \<and> entry_range e \<subseteq> {0 ..< sz} \<and>
    heap_part sz (X \<union> entry_range e) (es1 @ es2)"
proof (induction es1 arbitrary: X)
  case Nil
  then show ?case using heap_part_sub[of sz "X \<union> entry_range e" es2] by auto
next
  case (Cons a es1)
  then show ?case by (auto simp: Un_ac dest!: Cons.IH)
qed

lemma heap_part_iff:
  "heap_part sz X es \<longleftrightarrow>
    X \<union> (\<Union>e \<in> set es. entry_range e) = {0 ..< sz} \<and>
    (\<forall>e \<in> set es. X \<inter> entry_range e = {}) \<and>
    (\<forall>i < length es. \<forall>j < i. entry_range (es ! i) \<inter> entry_range (es ! j) = {})"
proof (induction sz X es rule: heap_part.induct)
  case (2 sz X e es)
  have F: "(\<forall>i < length (e # es). \<forall>j < i. entry_range ((e # es) ! i) \<inter> entry_range ((e # es) ! j) = {})
    \<longleftrightarrow> (\<forall>f \<in> set es. entry_range f \<inter> entry_range e = {}) \<and>
      (\<forall>i < length es. \<forall>j < i. entry_range (es ! i) \<inter> entry_range (es ! j) = {})"
    by (simp add: All_less_Suc2 all_set_conv_all_nth) blast
  have G: "(\<forall>f \<in> set es. (X \<union> entry_range e) \<inter> entry_range f = {}) \<longleftrightarrow>
    (\<forall>f \<in> set es. X \<inter> entry_range f = {}) \<and> (\<forall>f \<in> set es. entry_range f \<inter> entry_range e = {})"
    by blast
  have H: "(X \<union> entry_range e) \<union> (\<Union>f \<in> set es. entry_range f) =
    X \<union> (\<Union>f \<in> set (e # es). entry_range f)"
    by (simp add: Un_assoc)
  show ?case
    unfolding heap_part.simps "2.IH" F G H by (simp add: conj_ac)
qed auto

lemma range_in_entry: "off + g_lock_size t \<le> sz \<longleftrightarrow> range_of off t \<subseteq> {0 ..< sz}"
proof
  assume "range_of off t \<subseteq> {0 ..< sz}"
  moreover have "off + g_lock_size t - 1 \<in> range_of off t"
    by (cases t) (auto simp: range_of_def)
  ultimately show "off + g_lock_size t \<le> sz" by auto
qed (auto simp: range_of_def)

lemma entry_new_part:
  assumes "lm_ok sz s" "heap_part sz (lm_free s) es" "s' = s \<and> off = UINT_MAX \<or>
    off \<noteq> UINT_MAX \<and> lm_ok sz s' \<and> range_of off t \<subseteq> lm_free s \<and> lm_free s' = lm_free s - range_of off t"
  shows "heap_ok sz (s', \<lparr>es_lock_id = i, es_lock_type = t, es_lock_offset = off\<rparr> # es)"
  using assms by (auto simp: heap_ok_def entry_range_def Un_absorb2)

lemma entry_step_ok:
  assumes ok: "heap_ok sz h" and st: "entry_step h h'"
  shows "heap_ok sz h'"
  using st
proof (cases rule: entry_step.cases)
  case (create i t s s' e es)
  then obtain off where g: "get_lock_memory t s = (s', off)"
      and e: "e = \<lparr>es_lock_id = i, es_lock_type = t, es_lock_offset = off\<rparr>"
    by (auto simp: lock_entry_s_new_def split: prod.splits)
  from ok create have O: "lm_ok sz s" "heap_part sz (lm_free s) es" by (auto simp: heap_ok_def)
  show ?thesis unfolding create e
    by (rule entry_new_part[OF O])
      (use g O get_lock_memory_spec[OF O(1) g] get_lock_memory_fail[of t s s' sz] in blast)
next
  case (create_at off t i s s' e es)
  then obtain r where g: "get_lock_memory_at t off s = (s', r)"
      and e: "e = \<lparr>es_lock_id = i, es_lock_type = t, es_lock_offset = r\<rparr>"
    by (auto simp: lock_entry_s_new_at_def split: prod.splits)
  from ok create_at have O: "lm_ok sz s" "heap_part sz (lm_free s) es" by (auto simp: heap_ok_def)
  show ?thesis unfolding create_at e
    by (rule entry_new_part[OF O])
      (use g O create_at get_lock_memory_at_spec[OF O(1) _ g] get_lock_memory_at_fail[of t off s s'] in blast)
next
  case (destroy s es1 e es2)
  from ok destroy have O: "lm_ok sz s" "heap_part sz (lm_free s) (es1 @ e # es2)"
    by (auto simp: heap_ok_def)
  note R = heap_part_remove[OF O(2)]
  show ?thesis
  proof (cases "es_lock_offset e = UINT_MAX")
    case True
    with R O(1) show ?thesis by (simp add: destroy heap_ok_def lock_entry_s_delete_def entry_range_def)
  next
    case False
    with R have "es_lock_offset e + g_lock_size (es_lock_type e) \<le> sz"
      "range_of (es_lock_offset e) (es_lock_type e) \<inter> lm_free s = {}"
      by (auto simp: entry_range_def range_in_entry)
    from release_lock_memory_spec[OF O(1) this] R False show ?thesis
      by (simp add: destroy heap_ok_def lock_entry_s_delete_def entry_range_def)
  qed
qed

definition entry_init :: "nat \<Rightarrow> lock_heap \<Rightarrow> bool" where
  "entry_init sz h \<longleftrightarrow> (\<exists>p. h = (lock_memory_new sz p, []))"

interpretation lock_heap: step_system "entry_init LOCK_MEMORY_SIZE" entry_step "heap_ok LOCK_MEMORY_SIZE"
proof
  show "heap_ok LOCK_MEMORY_SIZE h" if "entry_init LOCK_MEMORY_SIZE h" for h
    using that lock_memory_new_ok[of LOCK_MEMORY_SIZE] by (auto simp: entry_init_def heap_ok_def)
qed (rule entry_step_ok)

subsection \<open>Properties\<close>



lemma fmap_ok_bounds_unique:
  assumes "fmap_ok sz m" "fmap_ok sz m'" "free_bytes m = free_bytes m'" "(k, l) \<in> set m"
  shows "(k, l) \<in> set m'"
proof -
  note D = fmap_okD[OF assms(1)] and D' = fmap_okD[OF assms(2)]
  have l: "0 < l" by (rule D(2)[OF assms(4)])
  then have "k \<in> free_bytes m'" using block_free[OF assms(4)] assms(3) by auto
  then obtain k' l' where m': "(k', l') \<in> set m'" "k' \<le> k" "k < k' + l'"
    by (auto simp: free_bytes_iff)
  have out: "x \<notin> free_bytes m" if "x = k + l \<or> Suc x = k" for x
  proof
    assume "x \<in> free_bytes m"
    then obtain a b where ab: "(a, b) \<in> set m" "a \<le> x" "x < a + b" by (auto simp: free_bytes_iff)
    show False
      using that ab l D(4)[OF ab(1) assms(4)] D(4)[OF assms(4) ab(1)] D(5)[OF assms(4), of b]
      by (cases a k rule: linorder_cases) auto
  qed
  have sub: "{k' ..< k' + l'} \<subseteq> free_bytes m" using block_free[OF m'(1)] assms(3) by simp
  have out': "x \<notin> free_bytes m" if "x = k' + l' \<or> Suc x = k'" for x
  proof
    assume "x \<in> free_bytes m"
    then have "x \<in> free_bytes m'" using assms(3) by simp
    then obtain a b where ab: "(a, b) \<in> set m'" "a \<le> x" "x < a + b" by (auto simp: free_bytes_iff)
    show False
      using that ab m' D'(4)[OF ab(1) m'(1)] D'(4)[OF m'(1) ab(1)] D'(5)[OF m'(1), of b]
      by (cases a k' rule: linorder_cases) auto
  qed
  have "k' = k"
  proof (rule ccontr)
    assume "k' \<noteq> k"
    with m' have "k - 1 \<in> {k' ..< k' + l'}" by auto
    with sub out[of "k - 1"] m' \<open>k' \<noteq> k\<close> show False by auto
  qed
  moreover have "k' + l' = k + l"
  proof (rule ccontr)
    assume "k' + l' \<noteq> k + l"
    then consider "k + l < k' + l'" | "k' + l' < k + l" by linarith
    then show False
    proof cases
      case 1
      with m' l have "k + l \<in> {k' ..< k' + l'}" by auto
      with sub out[of "k + l"] show False by auto
    next
      case 2
      with m' have "k' + l' \<in> {k ..< k + l}" by auto
      with block_free[OF assms(4)] out'[of "k' + l'"] show False by auto
    qed
  qed
  ultimately show ?thesis using m'(1) by simp
qed

lemma mm_sorted_set_eq: "mm_sorted m \<Longrightarrow> mm_sorted m' \<Longrightarrow> set m = set m' \<Longrightarrow> m = m'"
proof (induction m arbitrary: m')
  case (Cons e m)
  then obtain e' m'' where m': "m' = e' # m''" by (cases m') auto
  have "e' \<in> set (e # m)" "e \<in> set (e' # m'')"
    using Cons.prems(3) m' by (metis list.set_intros(1))+
  then have "e' = e \<or> fst e < fst e'" "e = e' \<or> fst e' < fst e"
    using Cons.prems(1,2) by (auto simp: mm_sorted_def m')
  then have ee: "e = e'" by auto
  have "e \<notin> set m" "e \<notin> set m''"
    using Cons.prems by (auto simp: mm_sorted_def m' ee)
  then have "set m = set m''" using Cons.prems(3) by (auto simp: m' ee)
  with Cons show ?case by (auto simp: mm_sorted_def m' ee)
qed simp

lemma fmap_unique:
  "fmap_ok sz m \<Longrightarrow> fmap_ok sz m' \<Longrightarrow> free_bytes m = free_bytes m' \<Longrightarrow> m = m'"
  by (intro mm_sorted_set_eq) (auto dest: fmap_okD(1) fmap_ok_bounds_unique)

lemma get_release_free_map:
  assumes ok: "lm_ok sz s" and g: "get_lock_memory t s = (s', off)" and r: "off \<noteq> UINT_MAX"
  shows "m_free_memory_map (release_lock_memory off t s') = m_free_memory_map s"
proof -
  note S = get_lock_memory_spec[OF ok g r]
  have "lm_free s \<subseteq> {0 ..< sz}"
    using ok by (auto simp: lm_ok_def lm_free_def free_bytes_def fmap_ok_def)
  with S(2) have b: "off + g_lock_size t \<le> sz" by (simp add: range_in_entry)
  have d: "range_of off t \<inter> lm_free s' = {}" using S(3) by auto
  note R = release_lock_memory_spec[OF S(1) b d]
  have "free_bytes (m_free_memory_map (release_lock_memory off t s')) = free_bytes (m_free_memory_map s)"
    using R(2) S(2,3) by (auto simp: lm_free_def)
  then show ?thesis using R(1) ok by (intro fmap_unique) (auto simp: lm_ok_def)
qed

text \<open>
  Property C2.  \<open>release_lock_memory\<close> undoes \<open>get_lock_memory\<close> exactly: after releasing a
  just-allocated lock the free map is the very list it was before, so neighbouring blocks have
  been coalesced again.
\<close>

theorem release_undoes_get:
  assumes "lm_ok sz s" and "get_lock_memory t s = (s', off)" and "off \<noteq> UINT_MAX"
  shows "m_free_memory_map (release_lock_memory off t s') = m_free_memory_map s"
  using assms by (rule get_release_free_map)

theorem release_undoes_get_witness:
  "m_free_memory_map (release_lock_memory 0 DLOCK_FAIR
     (fst (get_lock_memory DLOCK_FAIR (lock_memory_new LOCK_MEMORY_SIZE True)))) = [(0, 1228800)]"
proof -
  have "lm_ok LOCK_MEMORY_SIZE (lock_memory_new LOCK_MEMORY_SIZE True)"
    using lock_memory_new_ok[of LOCK_MEMORY_SIZE True] by simp
  from release_undoes_get[OF this, of DLOCK_FAIR
      "fst (get_lock_memory DLOCK_FAIR (lock_memory_new LOCK_MEMORY_SIZE True))" 0]
  show ?thesis
    by (simp add: get_lock_memory_def lock_memory_new_def UINT_MAX_def)
qed

text \<open>
  The sum \<open>offset + lock_size\<close> of the replica's allocation at an offset
  wraps: an offset four bytes below \<open>2^32\<close> passes both range checks, and the call
  succeeds and hands out a range that is far outside the lock memory.
\<close>

theorem get_lock_memory_at_wraps:
  "snd (get_lock_memory_at DLOCK_ATOMIC 4294967292 (lock_memory_new LOCK_MEMORY_SIZE False)) = 4294967292
   \<and> m_free_memory_map (fst (get_lock_memory_at DLOCK_ATOMIC 4294967292
       (lock_memory_new LOCK_MEMORY_SIZE False))) = [(0, 4294967292), (4, 1228796)]"
  by (simp add: get_lock_memory_at_def lock_memory_new_def UINT_MAX_def mm_erase_def)

end
