(* ===== verification/DLock_Server.thy ===== *)
theory DLock_Server
  imports DLock_Alloc
begin

section \<open>Lock operations of the server\<close>

text \<open>
  The command half of class \<open>lock_memory\<close> (\<^verbatim>\<open>server/lock_memory.cpp\<close>): the
  operations on the three lock structures, their dispatch in \<open>do_lock_cmd\<close>,
  \<open>update_lock_state\<close>, the \<open>sync_state\<close> functions used for recovery, and the batch handler
  \<open>do_lock\<close> of \<^verbatim>\<open>server/dlock_server.cpp\<close>.

  An operation is a function on the lock structure and the command message; it returns both,
  the status the C++ function returns and the statistics counters it increments.  The
  \<open>lock_state\<close> reference the code passes always is the message's own \<open>ls\<close> (its only caller
  is \<open>do_lock\<close>), so assignments to it are updates of the message, in the order of the code.
  \<open>tv\<close> is the value of \<open>tv_sec\<close> the operation reads with \<open>gettimeofday\<close>; comparisons with
  a 32-bit timeout are made on integers because \<open>time_t\<close> is 64 bits wide.
\<close>

subsection \<open>Constants and helpers\<close>

definition MAX_FAIR_QUESIZE :: u32 where "MAX_FAIR_QUESIZE = 0x7FFF"
definition FAIR_QUE_SIZE_MASK :: u32 where "FAIR_QUE_SIZE_MASK = 0xFFFF"
definition FAIR_QUE_SIZE_FULL :: u32 where "FAIR_QUE_SIZE_FULL = 0x10000"
definition FAIR_WAIT_TIME :: u32 where "FAIR_WAIT_TIME = 2"
definition FAIR_RST_TH :: u32 where "FAIR_RST_TH = 50"
definition MAX_FAIR_LOCK_RCNT :: "6 word" where "MAX_FAIR_LOCK_RCNT = 63"

text \<open>\<open>FAIR_QUE_SIZE_MASK & ((FAIR_QUE_SIZE_FULL + a) - b)\<close>.\<close>

definition que_dist :: "u16 \<Rightarrow> u16 \<Rightarrow> u32" where
  "que_dist a b = FAIR_QUE_SIZE_MASK AND ((FAIR_QUE_SIZE_FULL + ucast a) - ucast b)"

type_synonym 'l lock_res = "'l \<times> lock_cmd_msg \<times> dlock_status \<times> debug_stats_code list"
type_synonym 'l lock_op = "int \<Rightarrow> u32 \<Rightarrow> 'l \<Rightarrow> lock_cmd_msg \<Rightarrow> 'l lock_res"

definition verify_client_id :: "u32 \<Rightarrow> u32 \<Rightarrow> bool" where
  "verify_client_id expected_client_id actual_client_id \<longleftrightarrow> actual_client_id = expected_client_id"

definition verify_fail :: "'l \<Rightarrow> lock_cmd_msg \<Rightarrow> 'l lock_res" where
  "verify_fail l m = (l, m\<lparr>op_ret := DLOCK_FAIL\<rparr>, DLOCK_DONE, [DEBUG_STATS_CLIENT_ID_VERIFY_FAIL])"

definition set_ls_atomic :: "atomic_lock \<Rightarrow> lock_cmd_msg \<Rightarrow> lock_cmd_msg" where
  "set_ls_atomic l m = m\<lparr>ls := (ls m)\<lparr>w0 := al_client_id l, w1 := al_timeout l\<rparr>\<rparr>"

definition set_ls_rw :: "rw_lock \<Rightarrow> lock_cmd_msg \<Rightarrow> lock_cmd_msg" where
  "set_ls_rw l m = m\<lparr>ls := (ls m)\<lparr>w1 := rl_client_id l, w0 := rl_timeout l, w2 := rl_ref_count l\<rparr>\<rparr>"

definition fk_t_value :: "fair_lock \<Rightarrow> u32" where
  "fk_t_value l = mk_t_value (rms l) (rflag l) (fk_rsvd l) (rcnt l)"

definition fairlock_set_fl_state :: "fair_lock \<Rightarrow> lock_cmd_msg \<Rightarrow> lock_cmd_msg" where
  "fairlock_set_fl_state l m = m\<lparr>ls := \<lparr>w0 = mk32 (nx l) (ns l), w1 = mk32 (mx l) (ms l),
     w2 = fk_timeout l, w3 = fk_t_value l\<rparr>\<rparr>"

definition set_ret :: "dlock_status \<Rightarrow> lock_cmd_msg \<Rightarrow> lock_cmd_msg" where
  "set_ret r m = m\<lparr>op_ret := r\<rparr>"

subsection \<open>Atomic lock\<close>

definition atomic_trylock_do :: "atomic_lock lock_op" where
  "atomic_trylock_do tv client_id l m =
    (if \<not> verify_client_id client_id (ls_atomic_client_id (ls m)) then verify_fail l m
     else if al_client_id l \<noteq> 0 \<and> tv \<le> uint (al_timeout l) then
       (l, set_ls_atomic l (set_ret DLOCK_FAIL m), DLOCK_DONE, [DEBUG_STATS_ATOMIC_TRYLOCK_FAIL])
     else
       (let l' = l\<lparr>al_client_id := ls_atomic_client_id (ls m),
                   al_timeout := ls_atomic_time_out (ls m) + word_of_int tv\<rparr>
        in (l', set_ls_atomic l' (set_ret DLOCK_SUCCESS m), DLOCK_SUCCESS, [])))"

definition atomic_unlock_do :: "atomic_lock lock_op" where
  "atomic_unlock_do tv client_id l m =
    (if \<not> verify_client_id client_id (ls_atomic_client_id (ls m)) then verify_fail l m
     else if al_client_id l \<noteq> ls_atomic_client_id (ls m) then
       (l, set_ls_atomic l (set_ret DLOCK_FAIL m), DLOCK_DONE, [DEBUG_STATS_ATOMIC_UNLOCK_FAIL])
     else
       (l\<lparr>al_client_id := 0, al_timeout := 0\<rparr>,
        (set_ret DLOCK_SUCCESS m)\<lparr>ls := clear_base (ls m)\<rparr>, DLOCK_SUCCESS, []))"

definition atomic_extend_lock_do :: "atomic_lock lock_op" where
  "atomic_extend_lock_do tv client_id l m =
    (if \<not> verify_client_id client_id (ls_atomic_client_id (ls m)) then verify_fail l m
     else if al_client_id l \<noteq> ls_atomic_client_id (ls m) then
       (l, set_ls_atomic l (set_ret DLOCK_FAIL m), DLOCK_DONE, [DEBUG_STATS_ATOMIC_EXTEND_FAIL])
     else
       (let b_updated = al_timeout l < ls_atomic_time_out (ls m);
            l' = l\<lparr>al_timeout := if b_updated then ls_atomic_time_out (ls m) else al_timeout l\<rparr>
        in (l', set_ls_atomic l' (set_ret DLOCK_SUCCESS m),
            if b_updated then DLOCK_SUCCESS else DLOCK_DONE, [])))"

subsection \<open>Read-write lock\<close>

definition rwlock_trylock_ex_do :: "rw_lock lock_op" where
  "rwlock_trylock_ex_do tv client_id l m =
    (if \<not> verify_client_id client_id (ls_rw_client_id (ls m)) then verify_fail l m
     else if rl_client_id l \<noteq> 0 \<or> rl_ref_count l \<noteq> 0 then
       (l, set_ls_rw l (set_ret DLOCK_FAIL m), DLOCK_DONE, [DEBUG_STATS_RW_TRYLOCK_EX_FAIL])
     else
       (let l' = l\<lparr>rl_client_id := ls_rw_client_id (ls m), rl_timeout := word_of_int tv,
                   rl_ref_count := 0\<rparr>
        in (l', set_ls_rw l' (set_ret DLOCK_SUCCESS m), DLOCK_SUCCESS, [])))"

definition rwlock_unlock_ex_do :: "rw_lock lock_op" where
  "rwlock_unlock_ex_do tv client_id l m =
    (if \<not> verify_client_id client_id (ls_rw_client_id (ls m)) then verify_fail l m
     else if rl_client_id l \<noteq> ls_rw_client_id (ls m) then
       (l, set_ls_rw l (set_ret DLOCK_FAIL m), DLOCK_DONE, [DEBUG_STATS_RW_UNLOCK_EX_FAIL])
     else
       (l\<lparr>rl_client_id := 0, rl_timeout := 0, rl_ref_count := 0\<rparr>,
        (set_ret DLOCK_SUCCESS m)\<lparr>ls := clear_base (ls m)\<rparr>, DLOCK_SUCCESS, []))"

definition rwlock_trylock_sh_do :: "rw_lock lock_op" where
  "rwlock_trylock_sh_do tv client_id l m =
    (if \<not> verify_client_id 0 (ls_rw_client_id (ls m)) then verify_fail l m
     else if rl_client_id l \<noteq> 0 then
       (l, set_ls_rw l (set_ret DLOCK_FAIL m), DLOCK_DONE, [DEBUG_STATS_RW_TRYLOCK_SH_FAIL])
     else
       (let l' = l\<lparr>rl_client_id := ls_rw_client_id (ls m),
                   rl_timeout := if rl_timeout l = 0 then word_of_int tv else rl_timeout l,
                   rl_ref_count := rl_ref_count l + 1\<rparr>
        in (l', set_ls_rw l' (set_ret DLOCK_SUCCESS m), DLOCK_SUCCESS, [])))"

definition rwlock_unlock_sh_do :: "rw_lock lock_op" where
  "rwlock_unlock_sh_do tv client_id l m =
    (if \<not> verify_client_id 0 (ls_rw_client_id (ls m)) then verify_fail l m
     else if rl_client_id l \<noteq> 0 \<or> rl_client_id l = 0 \<and> rl_ref_count l = 0 then
       (l, set_ls_rw l (set_ret DLOCK_FAIL m), DLOCK_DONE, [DEBUG_STATS_RW_UNLOCK_SH_FAIL])
     else
       (let n = rl_ref_count l - 1;
            l' = l\<lparr>rl_ref_count := n, rl_timeout := if n = 0 then 0 else rl_timeout l\<rparr>
        in (l', set_ls_rw l' (set_ret DLOCK_SUCCESS m), DLOCK_SUCCESS, [])))"

subsection \<open>Fair lock\<close>

definition fair_overflow :: "fair_lock \<Rightarrow> bool" where
  "fair_overflow l \<longleftrightarrow> que_dist (mx l) (nx l) \<ge> MAX_FAIR_QUESIZE \<or> que_dist (ms l) (ns l) \<ge> MAX_FAIR_QUESIZE"

definition fairlock_trylock_ex_do :: "fair_lock lock_op" where
  "fairlock_trylock_ex_do tv client_id l m =
    (if fair_overflow l then (l, set_ret DLOCK_FAIL m, DLOCK_DONE, [DEBUG_STATS_FAIR_QUEUE_LIMIT])
     else
       (let free = (ext_client_id l = 0 \<and> nx l = mx l \<and> ns l = ms l);
            r = (if free then DLOCK_SUCCESS else DLOCK_EAGAIN);
            l1 = (if free then l\<lparr>fk_timeout := fl_time_out (ls m) + word_of_int tv,
                                 ext_client_id := client_id\<rparr> else l);
            l2 = l1\<lparr>mx := mx l1 + 1\<rparr>
        in (l2, fairlock_set_fl_state l2 (set_ret r m), r,
            if free then [] else [DEBUG_STATS_EAGAIN])))"

definition fairlock_unlock_ex_do :: "fair_lock lock_op" where
  "fairlock_unlock_ex_do tv client_id l m =
    (if (ext_client_id l = client_id \<or> ext_client_id l = 0) \<and>
        nx l = fl_n_exclusive (ls m) \<and> ns l = fl_n_shared (ls m) then
       (let l' = l\<lparr>nx := nx l + 1, fk_timeout := FAIR_WAIT_TIME + word_of_int tv, rflag := 0,
                   ext_client_id := 0\<rparr>
        in (l', fairlock_set_fl_state l' (set_ret DLOCK_SUCCESS m), DLOCK_SUCCESS, []))
     else (l, fairlock_set_fl_state l (set_ret DLOCK_FAIL m), DLOCK_DONE,
           [DEBUG_STATS_FAIR_UNLOCK_EX_FAIL]))"

definition fair_sh_passed :: "fair_lock \<Rightarrow> u16 \<Rightarrow> bool" where
  "fair_sh_passed l ticket \<longleftrightarrow> rflag l = 1 \<and> que_dist ticket (rms l) > MAX_FAIR_QUESIZE"

definition fairlock_extend_lock_do :: "fair_lock lock_op" where
  "fairlock_extend_lock_do tv client_id l m =
    (if ext_client_id l \<noteq> client_id \<and> ext_client_id l \<noteq> 0 then
       (l, set_ret DLOCK_FAIL (fairlock_set_fl_state l m), DLOCK_DONE, [])
     else
       (let b_extend = (fl_n_exclusive (ls m) = nx l);
            b_passed = fair_sh_passed l (fl_n_shared (ls m));
            b_extend = (b_extend \<and> \<not> b_passed \<and>
              (if op_code m = req_val EXCLUSIVE_LOCK_EXTEND then fl_n_shared (ls m) = ns l else True));
            m1 = set_ret (if b_extend then DLOCK_SUCCESS else DLOCK_FAIL) m;
            b_extend = (b_extend \<and> fl_time_out (ls m) \<noteq> 0 \<and> fl_time_out (ls m) > fk_timeout l);
            l' = (if b_extend then l\<lparr>fk_timeout := fl_time_out (ls m)\<rparr> else l)
        in (l', fairlock_set_fl_state l' m1, if b_extend then DLOCK_SUCCESS else DLOCK_DONE, [])))"

definition fairlock_trylock_sh_do :: "fair_lock lock_op" where
  "fairlock_trylock_sh_do tv client_id l m =
    (if fair_overflow l then (l, set_ret DLOCK_FAIL m, DLOCK_DONE, [DEBUG_STATS_FAIR_QUEUE_LIMIT])
     else
       (let free = (ext_client_id l = 0 \<and> nx l = mx l \<and> rcnt l < MAX_FAIR_LOCK_RCNT);
            r = (if free then DLOCK_SUCCESS else DLOCK_EAGAIN);
            t = fl_time_out (ls m) + word_of_int tv;
            l1 = (if free then l\<lparr>fk_timeout := if t > fk_timeout l then t else fk_timeout l,
                                 rcnt := rcnt l + 1\<rparr> else l);
            l2 = l1\<lparr>ms := ms l1 + 1\<rparr>
        in (l2, fairlock_set_fl_state l2 (set_ret r m), r,
            if free then [] else [DEBUG_STATS_EAGAIN])))"

definition fairlock_unlock_sh_do :: "fair_lock lock_op" where
  "fairlock_unlock_sh_do tv client_id l m =
    (let b_passed = fair_sh_passed l (fl_n_shared (ls m)) in
     if ext_client_id l = 0 \<and> \<not> b_passed \<and> nx l = fl_n_exclusive (ls m) then
       (let l1 = l\<lparr>ns := ns l + 1, rcnt := rcnt l - 1\<rparr>;
            l2 = l1\<lparr>fk_timeout := if rcnt l1 = 0 then word_of_int (uint FAIR_WAIT_TIME + tv)
                                  else fk_timeout l1\<rparr>;
            l3 = l2\<lparr>rflag := if rflag l2 = 0 \<or> que_dist (ns l2) (rms l2) \<ge> FAIR_RST_TH then 0 else 1\<rparr>
        in (l3, fairlock_set_fl_state l3 (set_ret DLOCK_SUCCESS m), DLOCK_SUCCESS, []))
     else (l, fairlock_set_fl_state l (set_ret DLOCK_FAIL m), DLOCK_DONE,
           [DEBUG_STATS_FAIR_UNLOCK_SH_FAIL]))"

definition fairlock_trylock_ex_ticket_do :: "fair_lock lock_op" where
  "fairlock_trylock_ex_ticket_do tv client_id l m =
    (let b_passed = (que_dist (fl_m_exclusive (ls m)) (nx l) > MAX_FAIR_QUESIZE \<or>
                     que_dist (fl_m_shared (ls m)) (ns l) > MAX_FAIR_QUESIZE) in
     if b_passed then (l, set_ret DLOCK_FAIL m, DLOCK_DONE, [DEBUG_STATS_FAIR_EX_TICKET_PASSED])
     else if ext_client_id l = 0 \<and> fl_m_exclusive (ls m) = nx l \<and> fl_m_shared (ls m) = ns l then
       (let l' = l\<lparr>fk_timeout := fl_time_out (ls m) + word_of_int tv, ext_client_id := client_id\<rparr>
        in (l', fairlock_set_fl_state l' (set_ret DLOCK_SUCCESS m), DLOCK_SUCCESS, []))
     else if tv > uint (fk_timeout l) then
       (let l' = l\<lparr>nx := fl_m_exclusive (ls m), ns := fl_m_shared (ls m), rflag := 1, rcnt := 0,
                   rms := fl_m_shared (ls m), fk_timeout := fl_time_out (ls m) + word_of_int tv,
                   ext_client_id := client_id\<rparr>
        in (l', fairlock_set_fl_state l' (set_ret DLOCK_SUCCESS m), DLOCK_SUCCESS, []))
     else (l, fairlock_set_fl_state l (set_ret DLOCK_EAGAIN m), DLOCK_DONE, [DEBUG_STATS_EAGAIN]))"

definition fairlock_trylock_sh_ticket_do :: "fair_lock lock_op" where
  "fairlock_trylock_sh_ticket_do tv client_id l m =
    (let b_passed = (que_dist (fl_m_exclusive (ls m)) (nx l) > MAX_FAIR_QUESIZE);
         b_passed = (if b_passed \<or> rflag l = 0 then b_passed
                     else que_dist (fl_m_shared (ls m)) (rms l) > MAX_FAIR_QUESIZE);
         t = fl_time_out (ls m) + word_of_int tv in
     if b_passed then (l, set_ret DLOCK_FAIL m, DLOCK_DONE, [DEBUG_STATS_FAIR_SH_TICKET_PASSED])
     else if ext_client_id l = 0 \<and> fl_m_exclusive (ls m) = nx l \<and> rcnt l < MAX_FAIR_LOCK_RCNT then
       (let l' = l\<lparr>fk_timeout := if t > fk_timeout l then t else fk_timeout l, rcnt := rcnt l + 1\<rparr>
        in (l', fairlock_set_fl_state l' (set_ret DLOCK_SUCCESS m), DLOCK_SUCCESS, []))
     else if tv > uint (fk_timeout l) then
       (let l' = l\<lparr>nx := fl_m_exclusive (ls m), ns := fl_m_shared (ls m), rflag := 1, rcnt := 1,
                   rms := fl_m_shared (ls m), fk_timeout := t, ext_client_id := 0\<rparr>
        in (l', fairlock_set_fl_state l' (set_ret DLOCK_SUCCESS m), DLOCK_SUCCESS, []))
     else (l, fairlock_set_fl_state l (set_ret DLOCK_EAGAIN m), DLOCK_DONE, [DEBUG_STATS_EAGAIN]))"

subsection \<open>The structures in lock memory\<close>

definition load_atomic :: "bmem \<Rightarrow> nat \<Rightarrow> atomic_lock" where
  "load_atomic m a = \<lparr>al_client_id = load32 m a, al_timeout = load32 m (a + 4)\<rparr>"

definition store_atomic :: "bmem \<Rightarrow> nat \<Rightarrow> atomic_lock \<Rightarrow> bmem" where
  "store_atomic m a l = store32 (store32 m a (al_client_id l)) (a + 4) (al_timeout l)"

definition load_rw :: "bmem \<Rightarrow> nat \<Rightarrow> rw_lock" where
  "load_rw m a = \<lparr>rl_timeout = load32 m a, rl_client_id = load32 m (a + 4),
     rl_ref_count = load32 m (a + 8), rl_rsvd = load32 m (a + 12)\<rparr>"

definition store_rw :: "bmem \<Rightarrow> nat \<Rightarrow> rw_lock \<Rightarrow> bmem" where
  "store_rw m a l = store32 (store32 (store32 (store32 m a (rl_timeout l)) (a + 4) (rl_client_id l))
     (a + 8) (rl_ref_count l)) (a + 12) (rl_rsvd l)"

definition load_fair :: "bmem \<Rightarrow> nat \<Rightarrow> fair_lock" where
  "load_fair m a = (let n = load32 m a; q = load32 m (a + 4); t = load32 m (a + 12) in
     \<lparr>nx = lo16 n, ns = hi16 n, mx = lo16 q, ms = hi16 q, fk_timeout = load32 m (a + 8),
      rms = bs_rms t, rflag = bs_rflag t, fk_rsvd = bs_rsvd t, rcnt = bs_rcnt t,
      ext_client_id = load32 m (a + 16), ext_rsvd = load32 m (a + 20)\<rparr>)"

definition store_fair :: "bmem \<Rightarrow> nat \<Rightarrow> fair_lock \<Rightarrow> bmem" where
  "store_fair m a l = store32 (store32 (store32 (store32 (store32 (store32 m
     a (mk32 (nx l) (ns l))) (a + 4) (mk32 (mx l) (ms l))) (a + 8) (fk_timeout l))
     (a + 12) (fk_t_value l)) (a + 16) (ext_client_id l)) (a + 20) (ext_rsvd l)"

text \<open>Read the structure at an address, apply a function to it and write it back.\<close>

definition with_lock :: "(bmem \<Rightarrow> nat \<Rightarrow> 'l) \<Rightarrow> (bmem \<Rightarrow> nat \<Rightarrow> 'l \<Rightarrow> bmem) \<Rightarrow> nat \<Rightarrow>
    ('l \<Rightarrow> 'l \<times> 'r) \<Rightarrow> bmem \<Rightarrow> bmem \<times> 'r" where
  "with_lock ld st a f m = (let (l', r) = f (ld m a) in (st m a l', r))"

text \<open>What the lock operations need of a structure's layout.\<close>

locale lock_layout =
  fixes ld :: "bmem \<Rightarrow> nat \<Rightarrow> 'l" and st :: "bmem \<Rightarrow> nat \<Rightarrow> 'l \<Rightarrow> bmem" and sz :: nat
  assumes ld_st: "ld (st m a l) a = l"
    and st_ld: "st m a (ld m a) = m"
    and st_frame: "x < a \<or> a + sz \<le> x \<Longrightarrow> st m a l x = m x"
    and st_inside: "a \<le> x \<Longrightarrow> x < a + sz \<Longrightarrow> st m a l x = st m' a l x"
    and ld_cong: "(\<And>x. a \<le> x \<Longrightarrow> x < a + sz \<Longrightarrow> m x = m' x) \<Longrightarrow> ld m a = ld m' a"
begin

lemma with_lock_frame:
  "x < a \<or> a + sz \<le> x \<Longrightarrow> fst (with_lock ld st a f m) x = m x"
  by (simp add: with_lock_def st_frame split: prod.splits)

lemma with_lock_ld: "ld (fst (with_lock ld st a f m)) a = fst (f (ld m a))"
  by (simp add: with_lock_def ld_st split: prod.splits)

lemma with_lock_res: "snd (with_lock ld st a f m) = snd (f (ld m a))"
  by (simp add: with_lock_def split: prod.splits)

lemma with_lock_unchanged: "fst (f (ld m a)) = ld m a \<Longrightarrow> fst (with_lock ld st a f m) = m"
  by (auto simp: with_lock_def st_ld split: prod.splits)

lemma with_lock_local:
  assumes "\<And>x. a \<le> x \<Longrightarrow> x < a + sz \<Longrightarrow> m x = m' x"
  shows "snd (with_lock ld st a f m) = snd (with_lock ld st a f m')"
    and "a \<le> x \<Longrightarrow> x < a + sz \<Longrightarrow> fst (with_lock ld st a f m) x = fst (with_lock ld st a f m') x"
  using ld_cong[OF assms, of a] st_inside[of a x m _ m']
  by (simp_all add: with_lock_def split: prod.splits)

lemma ld_other:
  "a + sz \<le> b \<or> b + n \<le> a \<Longrightarrow> (\<And>x. x < b \<or> b + n \<le> x \<Longrightarrow> m' x = m x) \<Longrightarrow> ld m' a = ld m a"
  by (rule ld_cong) auto

end

lemmas ld_st_simps = load_atomic_def store_atomic_def load_rw_def store_rw_def load_fair_def
  store_fair_def load32_other fk_t_value_def Let_def

interpretation atomic_layout: lock_layout load_atomic store_atomic "g_lock_size DLOCK_ATOMIC"
proof
  show "store_atomic m a l x = store_atomic m' a l x" if "a \<le> x" "x < a + g_lock_size DLOCK_ATOMIC" for a x m m' l
    using that unfolding store_atomic_def by (intro store32_agree) auto
  show "store_atomic m a (load_atomic m a) = m" for m a by (simp add: ld_st_simps)
  show "load_atomic m a = load_atomic m' a"
    if "\<And>x. a \<le> x \<Longrightarrow> x < a + g_lock_size DLOCK_ATOMIC \<Longrightarrow> m x = m' x" for m m' a
    using that by (simp add: load_atomic_def cong: load32_cong)
qed (auto simp: ld_st_simps store32_frame)

interpretation rw_layout: lock_layout load_rw store_rw "g_lock_size DLOCK_RW"
proof
  show "store_rw m a l x = store_rw m' a l x" if "a \<le> x" "x < a + g_lock_size DLOCK_RW" for a x m m' l
    using that unfolding store_rw_def by (intro store32_agree) auto
  show "store_rw m a (load_rw m a) = m" for m a by (simp add: ld_st_simps)
  show "load_rw m a = load_rw m' a"
    if "\<And>x. a \<le> x \<Longrightarrow> x < a + g_lock_size DLOCK_RW \<Longrightarrow> m x = m' x" for m m' a
    using that by (simp add: load_rw_def cong: load32_cong)
qed (auto simp: ld_st_simps store32_frame)

interpretation fair_layout: lock_layout load_fair store_fair "g_lock_size DLOCK_FAIR"
proof
  show "store_fair m a l x = store_fair m' a l x" if "a \<le> x" "x < a + g_lock_size DLOCK_FAIR" for a x m m' l
    using that unfolding store_fair_def by (intro store32_agree) auto
  show "store_fair m a (load_fair m a) = m" for m a by (simp add: ld_st_simps)
  show "load_fair m a = load_fair m' a"
    if "\<And>x. a \<le> x \<Longrightarrow> x < a + g_lock_size DLOCK_FAIR \<Longrightarrow> m x = m' x" for m m' a
    using that by (simp add: load_fair_def cong: load32_cong)
qed (auto simp: ld_st_simps store32_frame)

subsection \<open>Dispatch\<close>

fun g_atomic_do :: "dlock_req_code \<Rightarrow> atomic_lock lock_op option" where
  "g_atomic_do EXCLUSIVE_TRYLOCK = Some atomic_trylock_do"
| "g_atomic_do EXCLUSIVE_UNLOCK = Some atomic_unlock_do"
| "g_atomic_do EXCLUSIVE_LOCK_EXTEND = Some atomic_extend_lock_do"
| "g_atomic_do _ = None"

fun g_rwlock_do :: "dlock_req_code \<Rightarrow> rw_lock lock_op option" where
  "g_rwlock_do EXCLUSIVE_TRYLOCK = Some rwlock_trylock_ex_do"
| "g_rwlock_do EXCLUSIVE_UNLOCK = Some rwlock_unlock_ex_do"
| "g_rwlock_do SHARED_TRYLOCK = Some rwlock_trylock_sh_do"
| "g_rwlock_do SHARED_UNLOCK = Some rwlock_unlock_sh_do"
| "g_rwlock_do _ = None"

fun g_fairlock_do :: "dlock_req_code \<Rightarrow> fair_lock lock_op option" where
  "g_fairlock_do EXCLUSIVE_TRYLOCK = Some fairlock_trylock_ex_do"
| "g_fairlock_do EXCLUSIVE_UNLOCK = Some fairlock_unlock_ex_do"
| "g_fairlock_do EXCLUSIVE_LOCK_EXTEND = Some fairlock_extend_lock_do"
| "g_fairlock_do EXCLUSIVE_TICKET_TRYLOCK = Some fairlock_trylock_ex_ticket_do"
| "g_fairlock_do SHARED_TRYLOCK = Some fairlock_trylock_sh_do"
| "g_fairlock_do SHARED_UNLOCK = Some fairlock_unlock_sh_do"
| "g_fairlock_do SHARED_LOCK_EXTEND = Some fairlock_extend_lock_do"
| "g_fairlock_do SHARED_TICKET_TRYLOCK = Some fairlock_trylock_sh_ticket_do"
| "g_fairlock_do _ = None"

definition bump :: "debug_stats_code list \<Rightarrow> lock_memory \<Rightarrow> lock_memory" where
  "bump cs s = s\<lparr>m_stats := fold (\<lambda>c f. f(c := f c + 1)) cs (m_stats s)\<rparr>"

definition cmd_einval ::
  "debug_stats_code \<Rightarrow> lock_memory \<Rightarrow> lock_cmd_msg \<Rightarrow> lock_memory \<times> lock_cmd_msg \<times> dlock_status" where
  "cmd_einval c s m = (bump [c] s, set_ret DLOCK_EINVAL m, DLOCK_DONE)"

definition run_op :: "(bmem \<Rightarrow> nat \<Rightarrow> 'l) \<Rightarrow> (bmem \<Rightarrow> nat \<Rightarrow> 'l \<Rightarrow> bmem) \<Rightarrow> 'l lock_op \<Rightarrow> int \<Rightarrow> u32 \<Rightarrow>
    lock_cmd_msg \<Rightarrow> lock_memory \<Rightarrow> lock_memory \<times> lock_cmd_msg \<times> dlock_status" where
  "run_op ld st f tv client_id m s =
    (let (mem, m', r, cs) = with_lock ld st (unat (lock_offset m)) (\<lambda>l. f tv client_id l m) (m_p_lock_memory s)
     in (bump cs (s\<lparr>m_p_lock_memory := mem\<rparr>), m', r))"

text \<open>Look the operation up in the table of its lock type and call it.\<close>

definition dispatch :: "(dlock_req_code \<Rightarrow> 'l lock_op option) \<Rightarrow> (bmem \<Rightarrow> nat \<Rightarrow> 'l) \<Rightarrow>
    (bmem \<Rightarrow> nat \<Rightarrow> 'l \<Rightarrow> bmem) \<Rightarrow> int \<Rightarrow> u32 \<Rightarrow> lock_cmd_msg \<Rightarrow> lock_memory \<Rightarrow>
    lock_memory \<times> lock_cmd_msg \<times> dlock_status" where
  "dispatch g ld st tv client_id m s =
    (case g (the (req_of (op_code m))) of
       None \<Rightarrow> cmd_einval DEBUG_STATS_EINVAL_LOCK_OP s m
     | Some f \<Rightarrow> run_op ld st f tv client_id m s)"

definition do_lock_cmd ::
  "int \<Rightarrow> u32 \<Rightarrow> lock_cmd_msg \<Rightarrow> lock_memory \<Rightarrow> lock_memory \<times> lock_cmd_msg \<times> dlock_status" where
  "do_lock_cmd tv client_id m s =
    (case lock_type_of (msg_lock_type m) of
       None \<Rightarrow> cmd_einval DEBUG_STATS_EINVAL_LOCK_TYPE s m
     | Some t \<Rightarrow>
         if op_code m \<ge> req_val OP_CODE_MAX then cmd_einval DEBUG_STATS_EINVAL_LOCK_OP s m
         else if unat (lock_offset m) > LOCK_MEMORY_SIZE - g_lock_size t
         then cmd_einval DEBUG_STATS_EINVAL_LOCK_OFFSET s m
         else (case t of
              DLOCK_ATOMIC \<Rightarrow> dispatch g_atomic_do load_atomic store_atomic tv client_id m s
            | DLOCK_RW \<Rightarrow> dispatch g_rwlock_do load_rw store_rw tv client_id m s
            | DLOCK_FAIR \<Rightarrow> dispatch g_fairlock_do load_fair store_fair tv client_id m s))"

definition update_lock_state :: "lock_cmd_msg \<Rightarrow> lock_memory \<Rightarrow> lock_memory" where
  "update_lock_state m s =
    (case lock_type_of (msg_lock_type m) of
       None \<Rightarrow> s
     | Some t \<Rightarrow>
         if op_code m \<ge> req_val OP_CODE_MAX then s
         else if unat (lock_offset m) > LOCK_MEMORY_SIZE - g_lock_size t then s
         else if op_ret m = DLOCK_SUCCESS \<or> op_ret m = DLOCK_EAGAIN then
           (let a = unat (lock_offset m);
                mem1 = store32 (store32 (m_p_lock_memory s) a (w0 (ls m))) (a + 4) (w1 (ls m));
                mem2 = (if t = DLOCK_FAIR
                        then store32 (store32 mem1 (a + 8) (fl_time_out (ls m))) (a + 12) (fl_t_value (ls m))
                        else mem1)
            in s\<lparr>m_p_lock_memory := mem2\<rparr>)
         else s)"

subsection \<open>Recovery: merging a client's cached state\<close>

definition atomic_sync_state :: "lock_state \<Rightarrow> atomic_lock \<Rightarrow> atomic_lock" where
  "atomic_sync_state v l =
    (if al_timeout l < ls_atomic_time_out v
     then l\<lparr>al_timeout := ls_atomic_time_out v, al_client_id := ls_atomic_client_id v\<rparr> else l)"

definition rwlock_sync_state :: "lock_state \<Rightarrow> rw_lock \<Rightarrow> rw_lock" where
  "rwlock_sync_state v l =
    (if ls_rw_time_out v = 0 then l
     else if ls_rw_client_id v \<noteq> 0 then
       (if ls_rw_time_out v \<le> rl_timeout l then l
        else l\<lparr>rl_timeout := ls_rw_time_out v, rl_client_id := ls_rw_client_id v,
               rl_ref_count := ls_rw_rcount v\<rparr>)
     else if rl_client_id l \<noteq> 0 then
       (if ls_rw_time_out v \<le> rl_timeout l then l
        else l\<lparr>rl_timeout := ls_rw_time_out v, rl_client_id := ls_rw_client_id v, rl_ref_count := 1\<rparr>)
     else l\<lparr>rl_timeout := if rl_timeout l < ls_rw_time_out v then ls_rw_time_out v else rl_timeout l,
            rl_client_id := 0, rl_ref_count := rl_ref_count l + 1\<rparr>)"

definition newer :: "u16 \<Rightarrow> u16 \<Rightarrow> u16" where
  "newer old new = (if que_dist new old > MAX_FAIR_QUESIZE then old else new)"

definition fairlock_sync_state :: "lock_state \<Rightarrow> fair_lock \<Rightarrow> fair_lock" where
  "fairlock_sync_state v l =
    (let t = fl_t_value v in
     if fl_time_out v = 0 then l
     else if fk_timeout l = 0 then
       l\<lparr>fk_timeout := fl_time_out v, ns := fl_n_shared v, nx := fl_n_exclusive v, ms := fl_m_shared v,
         mx := fl_m_exclusive v, rms := bs_rms t, rflag := bs_rflag t, rcnt := bs_rcnt t\<rparr>
     else
       (let l1 =
          (if fk_timeout l = fl_time_out v then
             l\<lparr>ns := newer (ns l) (fl_n_shared v), nx := newer (nx l) (fl_n_exclusive v),
               rcnt := rcnt l + bs_rcnt t\<rparr>
           else if fk_timeout l < fl_time_out v then
             l\<lparr>rcnt := if bs_rcnt t = 1 \<and> fl_n_exclusive v = nx l then rcnt l + bs_rcnt t else bs_rcnt t,
               ns := fl_n_shared v, nx := fl_n_exclusive v, fk_timeout := fl_time_out v,
               rms := bs_rms t, rflag := bs_rflag t\<rparr>
           else if bs_rcnt t = 1 \<and> fl_n_exclusive v = nx l
           then l\<lparr>rcnt := rcnt l + bs_rcnt t\<rparr> else l)
        in l1\<lparr>ms := newer (ms l1) (fl_m_shared v), mx := newer (mx l1) (fl_m_exclusive v)\<rparr>))"

definition sync_lock_state :: "dlock_type option \<Rightarrow> nat \<Rightarrow> lock_state \<Rightarrow> lock_memory \<Rightarrow> lock_memory" where
  "sync_lock_state lock_type off v s =
    (case lock_type of
       Some DLOCK_ATOMIC \<Rightarrow> s\<lparr>m_p_lock_memory :=
         fst (with_lock load_atomic store_atomic off (\<lambda>l. (atomic_sync_state v l, ())) (m_p_lock_memory s))\<rparr>
     | Some DLOCK_RW \<Rightarrow> s\<lparr>m_p_lock_memory :=
         fst (with_lock load_rw store_rw off (\<lambda>l. (rwlock_sync_state v l, ())) (m_p_lock_memory s))\<rparr>
     | Some DLOCK_FAIR \<Rightarrow> s\<lparr>m_p_lock_memory :=
         fst (with_lock load_fair store_fair off (\<lambda>l. (fairlock_sync_state v l, ())) (m_p_lock_memory s))\<rparr>
     | None \<Rightarrow> s)"

subsection \<open>The batch handler\<close>

fun preprocess_lock_cmd_msg :: "int \<Rightarrow> lock_cmd_msg list \<Rightarrow> lock_memory \<Rightarrow> lock_memory \<times> lock_cmd_msg list" where
  "preprocess_lock_cmd_msg tv [] s = (s, [])"
| "preprocess_lock_cmd_msg tv (m # msgs) s =
    (if op_code m \<noteq> req_val EXCLUSIVE_LOCK_EXTEND \<and> op_code m \<noteq> req_val SHARED_LOCK_EXTEND
     then (let (s', r) = preprocess_lock_cmd_msg tv msgs s in (s', m # r))
     else case lock_type_of (msg_lock_type m) of
       Some DLOCK_ATOMIC \<Rightarrow>
         (let t = ls_atomic_time_out (ls m);
              m' = m\<lparr>ls := (ls m)\<lparr>w1 := t + (if t = 0 then 0 else word_of_int tv)\<rparr>\<rparr>;
              (s', r) = preprocess_lock_cmd_msg tv msgs s in (s', m' # r))
     | Some DLOCK_FAIR \<Rightarrow>
         (let t = fl_time_out (ls m);
              m' = m\<lparr>ls := (ls m)\<lparr>w2 := t + (if t = 0 then 0 else word_of_int tv)\<rparr>\<rparr>;
              (s', r) = preprocess_lock_cmd_msg tv msgs s in (s', m' # r))
     | _ \<Rightarrow> (bump [DEBUG_STATS_EINVAL_LOCK_TYPE] s, m # msgs))"

definition fairlock_ticket_response :: "u32 \<Rightarrow> lock_cmd_msg \<Rightarrow> lock_cmd_msg" where
  "fairlock_ticket_response ticket_obtain_time m =
    (if op_ret m = DLOCK_EAGAIN then
       (if op_code m = req_val SHARED_TRYLOCK then
          m\<lparr>ls := (set_fl_m_shared (fl_m_shared (ls m) - 1) (ls m))\<lparr>w2 := ticket_obtain_time\<rparr>\<rparr>
        else if op_code m = req_val EXCLUSIVE_TRYLOCK then
          m\<lparr>ls := (set_fl_m_exclusive (fl_m_exclusive (ls m) - 1) (ls m))\<lparr>w2 := ticket_obtain_time\<rparr>\<rparr>
        else m)
     else m)"

definition modify_response_with_fairlock_ticket :: "int \<Rightarrow> lock_cmd_msg list \<Rightarrow> lock_cmd_msg list" where
  "modify_response_with_fairlock_ticket tv msgs = map (fairlock_ticket_response (word_of_int tv)) msgs"

definition check_cmd_msg_common_field :: "lock_cmd_msg \<Rightarrow> bool" where
  "check_cmd_msg_common_field m \<longleftrightarrow> magic_no m = DLOCK_DP_MAGIC_NO \<and> version m = DLOCK_PROTO_VERSION"

fun do_lock_cmds :: "int list \<Rightarrow> u32 \<Rightarrow> lock_cmd_msg list \<Rightarrow> lock_memory \<Rightarrow> lock_memory \<times> lock_cmd_msg list" where
  "do_lock_cmds tvs client_id [] s = (s, [])"
| "do_lock_cmds tvs client_id (m # msgs) s =
    (let (s', m', _) = do_lock_cmd (hd tvs) client_id m s;
         (s'', msgs') = do_lock_cmds (tl tvs) client_id msgs s'
     in (s'', m' # msgs'))"

text \<open>
  \<open>do_lock\<close>: the cipher and the transport are parameters.  \<open>tv0\<close>, \<open>tvs\<close> and \<open>tv1\<close> are the
  clock readings of the pre-processing, of each command and of the post-processing; the
  result is the memory, the connection's next message id, the buffer sent (if any) and
  whether the call succeeded.  The completion handler only accepts buffers that hold a whole
  number of messages, so a decrypted buffer is a first message and the rest.
\<close>

definition do_lock ::
  "('b \<Rightarrow> (lock_cmd_msg \<times> lock_cmd_msg list) option) \<Rightarrow> (lock_cmd_msg list \<Rightarrow> 'b option) \<Rightarrow> ('b \<Rightarrow> bool) \<Rightarrow>
   int \<Rightarrow> int list \<Rightarrow> int \<Rightarrow> u32 \<Rightarrow> 'b \<Rightarrow> u16 \<Rightarrow> lock_memory \<Rightarrow> lock_memory \<times> u16 \<times> 'b option \<times> bool" where
  "do_lock decrypt encrypt post_send tv0 tvs tv1 client_id buf next_id s =
    (case decrypt buf of
       None \<Rightarrow> (bump [DEBUG_STATS_DECRYPT_FAIL] s, next_id, None, False)
     | Some (m0, rest) \<Rightarrow>
         if \<not> check_cmd_msg_common_field m0
         then (bump [DEBUG_STATS_BAD_REQUEST] s, next_id, None, False)
         else
           (let (s1, msgs1) = preprocess_lock_cmd_msg tv0 (m0 # rest) s;
                (s2, msgs2) = do_lock_cmds tvs client_id msgs1 s1;
                msgs3 = modify_response_with_fairlock_ticket tv1 msgs2
            in case encrypt msgs3 of
                 None \<Rightarrow> (bump [DEBUG_STATS_ENCRYPT_FAIL] s2, message_id m0, None, False)
               | Some out \<Rightarrow>
                   if post_send out then (s2, message_id m0, Some out, True)
                   else (bump [DEBUG_STATS_SEND_FAIL] s2, message_id m0, None, False)))"

subsection \<open>Locality of a command\<close>

text \<open>The byte range a command addresses; \<open>None\<close> when the command is rejected up front.\<close>

definition cmd_range :: "lock_cmd_msg \<Rightarrow> (nat \<times> nat) option" where
  "cmd_range m = (case lock_type_of (msg_lock_type m) of
       None \<Rightarrow> None
     | Some t \<Rightarrow> if op_code m \<ge> req_val OP_CODE_MAX \<or> unat (lock_offset m) > LOCK_MEMORY_SIZE - g_lock_size t
                 then None else Some (unat (lock_offset m), g_lock_size t))"

lemma m_stats_only [simp]:
  "m_p_lock_memory (bump cs s) = m_p_lock_memory s"
  "m_free_memory_map (bump cs s) = m_free_memory_map s"
  "m_is_primary (bump cs s) = m_is_primary s"
  by (simp_all add: bump_def)

lemma run_op_with_lock:
  "m_p_lock_memory (fst (run_op ld st f tv c m s)) =
     fst (with_lock ld st (unat (lock_offset m)) (\<lambda>l. f tv c l m) (m_p_lock_memory s))"
  "m_free_memory_map (fst (run_op ld st f tv c m s)) = m_free_memory_map s"
  "m_is_primary (fst (run_op ld st f tv c m s)) = m_is_primary s"
  "snd (run_op ld st f tv c m s) =
     (let r = snd (with_lock ld st (unat (lock_offset m)) (\<lambda>l. f tv c l m) (m_p_lock_memory s))
      in (fst r, fst (snd r)))"
  by (auto simp: run_op_def Let_def split: prod.splits)

text \<open>
  A memory transformer is local to a range when it changes no byte outside it, and what it
  returns and writes depends only on the bytes inside.
\<close>

definition local_to :: "(lock_memory \<Rightarrow> lock_memory \<times> 'r) \<Rightarrow> nat \<Rightarrow> nat \<Rightarrow> bool" where
  "local_to F a n \<longleftrightarrow>
     (\<forall>s x. x < a \<or> a + n \<le> x \<longrightarrow> m_p_lock_memory (fst (F s)) x = m_p_lock_memory s x) \<and>
     (\<forall>s s'. (\<forall>x. a \<le> x \<and> x < a + n \<longrightarrow> m_p_lock_memory s x = m_p_lock_memory s' x) \<longrightarrow>
        snd (F s) = snd (F s') \<and>
        (\<forall>x. a \<le> x \<and> x < a + n \<longrightarrow> m_p_lock_memory (fst (F s)) x = m_p_lock_memory (fst (F s')) x))"

lemma local_toD:
  assumes "local_to F a n"
  shows "x < a \<or> a + n \<le> x \<Longrightarrow> m_p_lock_memory (fst (F s)) x = m_p_lock_memory s x"
    and "(\<And>x. a \<le> x \<Longrightarrow> x < a + n \<Longrightarrow> m_p_lock_memory s x = m_p_lock_memory s' x) \<Longrightarrow> snd (F s) = snd (F s')"
    and "(\<And>x. a \<le> x \<Longrightarrow> x < a + n \<Longrightarrow> m_p_lock_memory s x = m_p_lock_memory s' x) \<Longrightarrow>
      a \<le> x \<Longrightarrow> x < a + n \<Longrightarrow> m_p_lock_memory (fst (F s)) x = m_p_lock_memory (fst (F s')) x"
  using assms unfolding local_to_def by blast+

lemma cmd_einval_simps [simp]:
  "m_p_lock_memory (fst (cmd_einval c s m)) = m_p_lock_memory s"
  "m_free_memory_map (fst (cmd_einval c s m)) = m_free_memory_map s"
  "m_is_primary (fst (cmd_einval c s m)) = m_is_primary s"
  "snd (cmd_einval c s m) = (set_ret DLOCK_EINVAL m, DLOCK_DONE)"
  by (simp_all add: cmd_einval_def)

lemma cmd_einval_local: "local_to (\<lambda>s. cmd_einval c s m) a n"
  by (simp add: local_to_def)

text \<open>What a command does to the lock structure it addresses, without the memory around it.\<close>

definition op_view :: "(dlock_req_code \<Rightarrow> 'l lock_op option) \<Rightarrow> int \<Rightarrow> u32 \<Rightarrow> 'l \<Rightarrow> lock_cmd_msg \<Rightarrow>
    'l \<times> lock_cmd_msg \<times> dlock_status" where
  "op_view g tv c l m =
    (case g (the (req_of (op_code m))) of
       None \<Rightarrow> (l, set_ret DLOCK_EINVAL m, DLOCK_DONE)
     | Some f \<Rightarrow> (let (l', m', st, cs) = f tv c l m in (l', m', st)))"

definition cmd_view :: "(dlock_req_code \<Rightarrow> 'l lock_op option) \<Rightarrow> nat \<Rightarrow> int \<Rightarrow> u32 \<Rightarrow> 'l \<Rightarrow>
    lock_cmd_msg \<Rightarrow> 'l \<times> lock_cmd_msg \<times> dlock_status" where
  "cmd_view g n tv c l m =
    (if op_code m \<ge> req_val OP_CODE_MAX \<or> unat (lock_offset m) > LOCK_MEMORY_SIZE - n
     then (l, set_ret DLOCK_EINVAL m, DLOCK_DONE) else op_view g tv c l m)"

definition addressed :: "dlock_type \<Rightarrow> nat \<Rightarrow> lock_cmd_msg \<Rightarrow> bool" where
  "addressed t a m \<longleftrightarrow> msg_lock_type m = lock_type_val t \<and> unat (lock_offset m) = a"

context lock_layout
begin

lemma run_op_local: "local_to (\<lambda>s. run_op ld st f tv c m s) (unat (lock_offset m)) sz"
  unfolding local_to_def
proof (intro conjI allI impI)
  fix s :: lock_memory and x assume "x < unat (lock_offset m) \<or> unat (lock_offset m) + sz \<le> x"
  then show "m_p_lock_memory (fst (run_op ld st f tv c m s)) x = m_p_lock_memory s x"
    by (simp add: run_op_with_lock with_lock_frame)
next
  fix s s' :: lock_memory
  assume "\<forall>x. unat (lock_offset m) \<le> x \<and> x < unat (lock_offset m) + sz \<longrightarrow>
    m_p_lock_memory s x = m_p_lock_memory s' x"
  then have *: "unat (lock_offset m) \<le> x \<Longrightarrow> x < unat (lock_offset m) + sz \<Longrightarrow>
    m_p_lock_memory s x = m_p_lock_memory s' x" for x by blast
  note L = with_lock_local[where f = "\<lambda>l. f tv c l m", OF *]
  show "snd (run_op ld st f tv c m s) = snd (run_op ld st f tv c m s')"
    using L(1) by (simp add: run_op_with_lock)
  show "m_p_lock_memory (fst (run_op ld st f tv c m s)) x = m_p_lock_memory (fst (run_op ld st f tv c m s')) x"
    if "unat (lock_offset m) \<le> x \<and> x < unat (lock_offset m) + sz" for x
    using L(2) that by (simp add: run_op_with_lock)
qed

lemma dispatch_local: "local_to (dispatch g ld st tv c m) (unat (lock_offset m)) sz"
  by (cases "g (the (req_of (op_code m)))")
    (simp_all add: dispatch_def[abs_def] run_op_local cmd_einval_local)

lemma dispatch_view:
  "ld (m_p_lock_memory (fst (dispatch g ld st tv c m s))) (unat (lock_offset m)) =
     fst (op_view g tv c (ld (m_p_lock_memory s) (unat (lock_offset m))) m)"
  "snd (dispatch g ld st tv c m s) =
     snd (op_view g tv c (ld (m_p_lock_memory s) (unat (lock_offset m))) m)"
  by (auto simp: dispatch_def op_view_def run_op_with_lock with_lock_ld with_lock_res Let_def
      split: option.splits prod.splits)

end

lemma do_lock_cmd_local:
  assumes "cmd_range m = Some (a, n)"
  shows "local_to (do_lock_cmd tv c m) a n"
proof -
  obtain t where t: "lock_type_of (msg_lock_type m) = Some t"
    using assms by (cases "lock_type_of (msg_lock_type m)") (simp_all add: cmd_range_def)
  have r: "\<not> op_code m \<ge> req_val OP_CODE_MAX" "\<not> unat (lock_offset m) > LOCK_MEMORY_SIZE - g_lock_size t"
    and an: "a = unat (lock_offset m)" "n = g_lock_size t"
    using assms unfolding cmd_range_def t option.case by (metis option.distinct(1) option.inject prod.inject)+
  show ?thesis
    unfolding an do_lock_cmd_def[abs_def] t option.case using r
    by (cases t) (simp_all del: g_lock_size.simps LOCK_MEMORY_SIZE_val
        add: atomic_layout.dispatch_local rw_layout.dispatch_local fair_layout.dispatch_local)
qed

lemma do_lock_cmd_rejected:
  "cmd_range m = None \<Longrightarrow> m_p_lock_memory (fst (do_lock_cmd tv c m s)) = m_p_lock_memory s
    \<and> snd (do_lock_cmd tv c m s) = (set_ret DLOCK_EINVAL m, DLOCK_DONE)"
  by (auto simp: cmd_range_def do_lock_cmd_def split: option.splits if_splits)

lemma do_lock_cmd_alloc:
  "m_free_memory_map (fst (do_lock_cmd tv c m s)) = m_free_memory_map s"
  "m_is_primary (fst (do_lock_cmd tv c m s)) = m_is_primary s"
  by (auto simp: do_lock_cmd_def dispatch_def run_op_with_lock split: option.splits dlock_type.splits)

lemma do_lock_cmd_atomic_view:
  assumes "addressed DLOCK_ATOMIC a m"
  shows "load_atomic (m_p_lock_memory (fst (do_lock_cmd tv c m s))) a =
      fst (cmd_view g_atomic_do 8 tv c (load_atomic (m_p_lock_memory s) a) m)"
    and "snd (do_lock_cmd tv c m s) = snd (cmd_view g_atomic_do 8 tv c (load_atomic (m_p_lock_memory s) a) m)"
  using assms atomic_layout.dispatch_view[where m = m and g = g_atomic_do]
  by (auto simp: do_lock_cmd_def cmd_view_def addressed_def simp del: LOCK_MEMORY_SIZE_val req_val.simps lock_type_val.simps)

lemma do_lock_cmd_rw_view:
  assumes "addressed DLOCK_RW a m"
  shows "load_rw (m_p_lock_memory (fst (do_lock_cmd tv c m s))) a =
      fst (cmd_view g_rwlock_do 16 tv c (load_rw (m_p_lock_memory s) a) m)"
    and "snd (do_lock_cmd tv c m s) = snd (cmd_view g_rwlock_do 16 tv c (load_rw (m_p_lock_memory s) a) m)"
  using assms rw_layout.dispatch_view[where m = m and g = g_rwlock_do]
  by (auto simp: do_lock_cmd_def cmd_view_def addressed_def simp del: LOCK_MEMORY_SIZE_val req_val.simps lock_type_val.simps)

lemma do_lock_cmd_fair_view:
  assumes "addressed DLOCK_FAIR a m"
  shows "load_fair (m_p_lock_memory (fst (do_lock_cmd tv c m s))) a =
      fst (cmd_view g_fairlock_do 24 tv c (load_fair (m_p_lock_memory s) a) m)"
    and "snd (do_lock_cmd tv c m s) = snd (cmd_view g_fairlock_do 24 tv c (load_fair (m_p_lock_memory s) a) m)"
  using assms fair_layout.dispatch_view[where m = m and g = g_fairlock_do]
  by (auto simp: do_lock_cmd_def cmd_view_def addressed_def simp del: LOCK_MEMORY_SIZE_val req_val.simps lock_type_val.simps)

lemma cmd_range_bound: "cmd_range m = Some (a, n) \<Longrightarrow> a + n \<le> LOCK_MEMORY_SIZE"
  by (cases "the (lock_type_of (msg_lock_type m))")
    (auto simp: cmd_range_def split: option.splits if_splits)

subsection \<open>Abstract read-write lock\<close>

text \<open>What a read-write lock promises: free, held by one writer, or shared by readers.\<close>

datatype rw_spec = RW_Free | RW_Excl u32 | RW_Shared nat

definition rw_inv :: "rw_lock \<Rightarrow> bool" where
  "rw_inv l \<longleftrightarrow> (rl_client_id l = 0 \<or> rl_ref_count l = 0)"

definition rw_abs :: "rw_lock \<Rightarrow> rw_spec" where
  "rw_abs l = (if rl_client_id l \<noteq> 0 then RW_Excl (rl_client_id l)
     else if rl_ref_count l = 0 then RW_Free else RW_Shared (unat (rl_ref_count l)))"

text \<open>
  The abstract operations: the client is the authenticated sender \<open>c\<close>, \<open>claimed\<close> is the
  identity in the message; the result is the new state and whether it succeeded.
\<close>

fun rw_spec_step :: "dlock_req_code \<Rightarrow> u32 \<Rightarrow> u32 \<Rightarrow> rw_spec \<Rightarrow> rw_spec \<times> bool" where
  "rw_spec_step EXCLUSIVE_TRYLOCK c claimed s =
     (if claimed = c \<and> s = RW_Free then (RW_Excl c, True) else (s, False))"
| "rw_spec_step EXCLUSIVE_UNLOCK c claimed s =
     (if claimed = c \<and> s = RW_Excl c then (RW_Free, True) else (s, False))"
| "rw_spec_step SHARED_TRYLOCK c claimed s =
     (if claimed = 0 then
        (case s of RW_Free \<Rightarrow> (RW_Shared 1, True) | RW_Shared n \<Rightarrow> (RW_Shared (n + 1), True)
         | RW_Excl _ \<Rightarrow> (s, False))
      else (s, False))"
| "rw_spec_step SHARED_UNLOCK c claimed s =
     (if claimed = 0 then
        (case s of RW_Shared n \<Rightarrow> (if n = 1 then RW_Free else RW_Shared (n - 1), True) | _ \<Rightarrow> (s, False))
      else (s, False))"
| "rw_spec_step _ c claimed s = (s, False)"

lemmas rw_op_defs = rwlock_trylock_ex_do_def rwlock_unlock_ex_do_def rwlock_trylock_sh_do_def
  rwlock_unlock_sh_do_def verify_client_id_def verify_fail_def set_ret_def set_ls_rw_def
  clear_base_def Let_def

lemma rw_refines:
  assumes f: "g_rwlock_do op = Some f" and i: "rw_inv l" and c: "c \<noteq> 0"
    and ov: "op = SHARED_TRYLOCK \<Longrightarrow> rl_ref_count l \<noteq> - 1"
    and r: "f tv c l m = (l', m', st, cs)"
  shows "rw_inv l' \<and> rw_spec_step op c (ls_rw_client_id (ls m)) (rw_abs l) =
    (rw_abs l', op_ret m' = DLOCK_SUCCESS)"
proof -
  have inc: "unat (n + 1) = unat n + 1" if "n \<noteq> - 1" for n :: u32
    using that unatSuc[of n] by (simp add: add.commute[of n] add_eq_0_iff)
  have dec: "unat (n - 1) = unat n - 1" "unat n = Suc 0 \<longleftrightarrow> n = 1" if "n \<noteq> 0" for n :: u32
    using that by (auto simp: unat_minus_one word_unat_eq_iff)
  show ?thesis
    using assms
    by (cases op) (auto simp: rw_op_defs rw_inv_def rw_abs_def inc dec add_eq_0_iff2 split: if_splits)
qed

lemma load_new:
  "load_atomic (m_p_lock_memory (lock_memory_new n p)) a = \<lparr>al_client_id = 0, al_timeout = 0\<rparr>"
  "load_rw (m_p_lock_memory (lock_memory_new n p)) a =
     \<lparr>rl_timeout = 0, rl_client_id = 0, rl_ref_count = 0, rl_rsvd = 0\<rparr>"
  "load_fair (m_p_lock_memory (lock_memory_new n p)) a =
     \<lparr>nx = 0, ns = 0, mx = 0, ms = 0, fk_timeout = 0, rms = 0, rflag = 0, fk_rsvd = 0, rcnt = 0,
      ext_client_id = 0, ext_rsvd = 0\<rparr>"
  by (simp_all add: load_atomic_def load_rw_def load_fair_def lock_memory_new_def load32_def
      bs_rms_def bs_rflag_def bs_rsvd_def bs_rcnt_def)

subsection \<open>Properties of the lock operations\<close>

lemma local_commute:
  assumes F: "local_to F a n" and G: "local_to G b k" and d: "a + n \<le> b \<or> b + k \<le> a"
  shows "m_p_lock_memory (fst (G (fst (F s)))) = m_p_lock_memory (fst (F (fst (G s))))"
    and "snd (G (fst (F s))) = snd (G s)"
proof -
  note LF = local_toD[OF F] and LG = local_toD[OF G]
  have F_on_b: "m_p_lock_memory (fst (F s)) x = m_p_lock_memory s x" if "b \<le> x" "x < b + k" for x
    by (rule LF(1)) (use that d in auto)
  have G_on_a: "m_p_lock_memory (fst (G s)) x = m_p_lock_memory s x" if "a \<le> x" "x < a + n" for x
    by (rule LG(1)) (use that d in auto)
  show "snd (G (fst (F s))) = snd (G s)" by (rule LG(2)) (rule F_on_b)
  show "m_p_lock_memory (fst (G (fst (F s)))) = m_p_lock_memory (fst (F (fst (G s))))"
  proof
    fix x
    consider "a \<le> x" "x < a + n" | "b \<le> x" "x < b + k" | "(x < a \<or> a + n \<le> x)" "(x < b \<or> b + k \<le> x)"
      by linarith
    then show "m_p_lock_memory (fst (G (fst (F s)))) x = m_p_lock_memory (fst (F (fst (G s)))) x"
    proof cases
      case 1
      with d have "x < b \<or> b + k \<le> x" by auto
      with 1 LF(3)[of "fst (G s)" s x] G_on_a LG(1)[of x "fst (F s)"] show ?thesis by simp
    next
      case 2
      with d have "x < a \<or> a + n \<le> x" by auto
      with 2 LG(3)[of "fst (F s)" s x] F_on_b LF(1)[of x "fst (G s)"] show ?thesis by simp
    next
      case 3
      then show ?thesis using LF(1)[of x] LG(1)[of x] by simp
    qed
  qed
qed



text \<open>
  Property C8.  Isolation of live locks: in every reachable heap of lock entries, a
  command of any client that addresses one entry (by its type and offset) leaves every byte of
  every other live entry, and all free memory, untouched.
\<close>

theorem do_lock_cmd_isolates_entries:
  assumes "entry_step\<^sup>*\<^sup>* (lock_memory_new LOCK_MEMORY_SIZE p, []) (s, es)"
    and "i < length es" "j < length es" "i \<noteq> j"
    and "addressed (es_lock_type (es ! i)) (es_lock_offset (es ! i)) m"
    and "x \<in> entry_range (es ! j) \<or> x \<in> lm_free s"
  shows "m_p_lock_memory (fst (do_lock_cmd tv c m s)) x = m_p_lock_memory s x"
proof (cases "cmd_range m")
  case None
  then show ?thesis using do_lock_cmd_rejected by simp
next
  case (Some r)
  then obtain a n where an: "cmd_range m = Some (a, n)" by (cases r) auto
  then have an': "a = es_lock_offset (es ! i)" "n = g_lock_size (es_lock_type (es ! i))"
    using assms(5) by (auto simp: cmd_range_def addressed_def split: option.splits if_splits)
  have ne: "es_lock_offset (es ! i) \<noteq> UINT_MAX"
    using cmd_range_bound[OF an] by (simp add: an' UINT_MAX_def)
  have init: "entry_init LOCK_MEMORY_SIZE (lock_memory_new LOCK_MEMORY_SIZE p, [])"
    by (auto simp: entry_init_def)
  have H: "heap_part LOCK_MEMORY_SIZE (lm_free s) es"
    using lock_heap.inv_reachable[OF init assms(1)] by (simp add: heap_ok_def)
  have "entry_range (es ! i) \<inter> entry_range (es ! j) = {}" "lm_free s \<inter> entry_range (es ! i) = {}"
    using H assms(2-4) unfolding heap_part_iff by (metis Int_commute linorder_neqE_nat nth_mem)+
  then have "x \<notin> entry_range (es ! i)" using assms(6) by blast
  then have "x < a \<or> a + n \<le> x" using ne by (auto simp: entry_range_def range_of_def an')
  then show ?thesis by (rule local_toD(1)[OF do_lock_cmd_local[OF an]])
qed

theorem do_lock_cmd_isolates_entries_witness:
  "\<exists>s es. entry_step\<^sup>*\<^sup>* (lock_memory_new LOCK_MEMORY_SIZE True, []) (s, es) \<and>
     map es_lock_offset es = [24, 0] \<and>
     m_p_lock_memory (fst (do_lock_cmd 5 7 (zero_msg\<lparr>msg_lock_type := 1, lock_offset := 24,
       ls := zero_ls\<lparr>w1 := 7\<rparr>\<rparr>) s)) 3 = m_p_lock_memory s 3"
proof -
  define s0 where "s0 = lock_memory_new LOCK_MEMORY_SIZE True"
  define s1 where "s1 = fst (lock_entry_s_new 7 DLOCK_FAIR s0)"
  define e1 where "e1 = snd (lock_entry_s_new 7 DLOCK_FAIR s0)"
  define s2 where "s2 = fst (lock_entry_s_new 8 DLOCK_RW s1)"
  define e2 where "e2 = snd (lock_entry_s_new 8 DLOCK_RW s1)"
  have "entry_step (s0, []) (s1, [e1])" "entry_step (s1, [e1]) (s2, [e2, e1])"
    by (auto intro!: entry_step.create simp: s1_def e1_def s2_def e2_def)
  then have R: "entry_step\<^sup>*\<^sup>* (lock_memory_new LOCK_MEMORY_SIZE True, []) (s2, [e2, e1])"
    unfolding s0_def by (meson r_into_rtranclp rtranclp_trans)
  have e: "es_lock_offset e1 = 0" "es_lock_offset e2 = 24" "es_lock_type e1 = DLOCK_FAIR" "es_lock_type e2 = DLOCK_RW"
    by (simp_all add: e1_def e2_def s1_def s0_def lock_entry_s_new_def get_lock_memory_def
        lock_memory_new_def mm_erase_def)
  have "m_p_lock_memory (fst (do_lock_cmd 5 7 (zero_msg\<lparr>msg_lock_type := 1, lock_offset := 24,
       ls := zero_ls\<lparr>w1 := 7\<rparr>\<rparr>) s2)) 3 = m_p_lock_memory s2 3"
    by (rule do_lock_cmd_isolates_entries[OF R, of 0 1])
      (simp_all add: e addressed_def zero_msg_def entry_range_def range_of_def UINT_MAX_def)
  with e R show ?thesis by (intro exI[of _ s2] exI[of _ "[e2, e1]"]) simp
qed

text \<open>
  Property C3.  A read-write lock in memory implements the abstract free / exclusive / shared
  lock: for every command addressed to it that the dispatcher accepts, from an authenticated
  client with a non-zero id and with a reader count that is not saturated, the abstraction of
  the new structure and the success of the reply are those of the abstract operation, and the
  structural invariant (never a writer and readers at once) is kept.
\<close>

theorem do_lock_cmd_rw_refines:
  assumes "addressed DLOCK_RW a m" "op_code m < req_val OP_CODE_MAX" "a \<le> LOCK_MEMORY_SIZE - 16"
    and "c \<noteq> 0" "rw_inv (load_rw (m_p_lock_memory s) a)" "rl_ref_count (load_rw (m_p_lock_memory s) a) \<noteq> - 1"
  shows "rw_inv (load_rw (m_p_lock_memory (fst (do_lock_cmd tv c m s))) a) \<and>
    rw_spec_step (the (req_of (op_code m))) c (ls_rw_client_id (ls m)) (rw_abs (load_rw (m_p_lock_memory s) a)) =
      (rw_abs (load_rw (m_p_lock_memory (fst (do_lock_cmd tv c m s))) a),
       op_ret (fst (snd (do_lock_cmd tv c m s))) = DLOCK_SUCCESS)"
proof -
  let ?op = "the (req_of (op_code m))" and ?l = "load_rw (m_p_lock_memory s) a"
  have V: "cmd_view g_rwlock_do 16 tv c ?l m = op_view g_rwlock_do tv c ?l m"
    using assms(1-3) by (auto simp: cmd_view_def addressed_def)
  show ?thesis
  proof (cases "g_rwlock_do ?op")
    case None
    then have "rw_spec_step ?op c (ls_rw_client_id (ls m)) (rw_abs ?l) = (rw_abs ?l, False)"
      by (cases ?op) auto
    with None assms(5) show ?thesis
      by (simp add: do_lock_cmd_rw_view[OF assms(1)] V op_view_def set_ret_def)
  next
    case (Some f)
    obtain l' m' st cs where r: "f tv c ?l m = (l', m', st, cs)" by (metis prod_cases4)
    from rw_refines[OF Some assms(5,4) _ r] assms(6) Some r show ?thesis
      by (simp add: do_lock_cmd_rw_view[OF assms(1)] V op_view_def)
  qed
qed

theorem do_lock_cmd_rw_refines_witness:
  "rw_spec_step EXCLUSIVE_TRYLOCK 7 7 RW_Free =
     (rw_abs (load_rw (m_p_lock_memory (fst (do_lock_cmd 5 7
        (zero_msg\<lparr>msg_lock_type := 1, ls := zero_ls\<lparr>w1 := 7\<rparr>\<rparr>) (lock_memory_new LOCK_MEMORY_SIZE True)))) 0), True)"
proof -
  let ?m = "zero_msg\<lparr>msg_lock_type := 1, ls := zero_ls\<lparr>w1 := 7\<rparr>\<rparr>" and ?s = "lock_memory_new LOCK_MEMORY_SIZE True"
  have o: "op_ret (fst (snd (do_lock_cmd 5 7 ?m ?s))) = DLOCK_SUCCESS"
    by (simp add: do_lock_cmd_rw_view(2)[of 0] addressed_def zero_msg_def cmd_view_def op_view_def
        load_new req_of_def rw_op_defs)
  have "addressed DLOCK_RW 0 ?m" "op_code ?m < req_val OP_CODE_MAX" by (simp_all add: addressed_def zero_msg_def)
  from do_lock_cmd_rw_refines[OF this, of 7 ?s 5] show ?thesis
    by (simp add: load_new o rw_inv_def zero_msg_def req_of_def zero_ls_def) (simp add: rw_abs_def)
qed

lemmas atomic_op_defs = atomic_trylock_do_def atomic_unlock_do_def atomic_extend_lock_do_def
  verify_client_id_def verify_fail_def set_ret_def set_ls_atomic_def clear_base_def Let_def

lemmas fair_op_defs = fairlock_trylock_ex_do_def fairlock_unlock_ex_do_def fairlock_extend_lock_do_def
  fairlock_trylock_sh_do_def fairlock_unlock_sh_do_def fairlock_trylock_ex_ticket_do_def
  fairlock_trylock_sh_ticket_do_def set_ret_def fairlock_set_fl_state_def Let_def

lemma cmd_view_cases:
  assumes "cmd_view g n tv c l m = (l', m', st)"
  obtains "l' = l" "m' = set_ret DLOCK_EINVAL m"
  | op f cs where "g op = Some f" "op = the (req_of (op_code m))" "f tv c l m = (l', m', st, cs)"
  using assms that by (auto simp: cmd_view_def op_view_def Let_def split: if_splits option.splits prod.splits)

text \<open>
  Property C4.  Lease safety of atomic locks: while the lease of the holder runs (the clock
  has not passed the stored timeout), no command of another client, whatever its operation
  code and whatever identity it claims, changes the lock, and none is answered with success.
\<close>

theorem atomic_lease_safe:
  assumes "addressed DLOCK_ATOMIC a m"
    and "al_client_id (load_atomic (m_p_lock_memory s) a) = h" "h \<noteq> 0" "c \<noteq> h"
    and "tv \<le> uint (al_timeout (load_atomic (m_p_lock_memory s) a))"
  shows "load_atomic (m_p_lock_memory (fst (do_lock_cmd tv c m s))) a = load_atomic (m_p_lock_memory s) a
    \<and> op_ret (fst (snd (do_lock_cmd tv c m s))) \<noteq> DLOCK_SUCCESS"
proof -
  let ?l = "load_atomic (m_p_lock_memory s) a"
  obtain l' m' st where v: "cmd_view g_atomic_do 8 tv c ?l m = (l', m', st)" by (metis prod_cases3)
  then have "l' = ?l \<and> op_ret m' \<noteq> DLOCK_SUCCESS"
  proof (cases rule: cmd_view_cases)
    case 1
    then show ?thesis by (simp add: set_ret_def)
  next
    case (2 op f cs)
    then show ?thesis using assms(2-5)
      by (cases op) (auto simp: atomic_op_defs split: if_splits)
  qed
  then show ?thesis by (simp add: do_lock_cmd_atomic_view[OF assms(1)] v)
qed

theorem atomic_lease_safe_witness:
  "op_ret (fst (snd (do_lock_cmd 20 8 (zero_msg\<lparr>ls := zero_ls\<lparr>w0 := 8, w1 := 30\<rparr>\<rparr>)
     (fst (do_lock_cmd 10 7 (zero_msg\<lparr>ls := zero_ls\<lparr>w0 := 7, w1 := 30\<rparr>\<rparr>)
        (lock_memory_new LOCK_MEMORY_SIZE True)))))) \<noteq> DLOCK_SUCCESS"
proof -
  let ?m = "zero_msg\<lparr>ls := zero_ls\<lparr>w0 := 8, w1 := 30\<rparr>\<rparr>"
  let ?s = "fst (do_lock_cmd 10 7 (zero_msg\<lparr>ls := zero_ls\<lparr>w0 := 7, w1 := 30\<rparr>\<rparr>) (lock_memory_new LOCK_MEMORY_SIZE True))"
  have l: "load_atomic (m_p_lock_memory ?s) 0 = \<lparr>al_client_id = 7, al_timeout = 40\<rparr>"
    by (simp add: do_lock_cmd_atomic_view(1)[of 0] addressed_def zero_msg_def cmd_view_def op_view_def
        load_new req_of_def atomic_op_defs)
  have "addressed DLOCK_ATOMIC 0 ?m" by (simp add: addressed_def zero_msg_def)
  from atomic_lease_safe[OF this, of ?s 7 8 20] show ?thesis by (simp add: l del: LOCK_MEMORY_SIZE_val)
qed

text \<open>
  Property C5.  Lease safety of fair locks held exclusively: while the holder's lease runs,
  a command of another client can at most take a place in the queue (advance \<open>mx\<close> or \<open>ms\<close> by
  one); the serving counters, the holder, the timeout and the reset state stay as they are, and
  no reply is a success.
\<close>

theorem fair_lease_safe:
  assumes "addressed DLOCK_FAIR a m"
    and "ext_client_id (load_fair (m_p_lock_memory s) a) = h" "h \<noteq> 0" "c \<noteq> h"
    and "tv \<le> uint (fk_timeout (load_fair (m_p_lock_memory s) a))"
  shows "load_fair (m_p_lock_memory (fst (do_lock_cmd tv c m s))) a \<in>
      {load_fair (m_p_lock_memory s) a,
       (load_fair (m_p_lock_memory s) a)\<lparr>mx := mx (load_fair (m_p_lock_memory s) a) + 1\<rparr>,
       (load_fair (m_p_lock_memory s) a)\<lparr>ms := ms (load_fair (m_p_lock_memory s) a) + 1\<rparr>}
    \<and> op_ret (fst (snd (do_lock_cmd tv c m s))) \<noteq> DLOCK_SUCCESS"
proof -
  let ?l = "load_fair (m_p_lock_memory s) a"
  obtain l' m' st where v: "cmd_view g_fairlock_do 24 tv c ?l m = (l', m', st)" by (metis prod_cases3)
  then have "l' \<in> {?l, ?l\<lparr>mx := mx ?l + 1\<rparr>, ?l\<lparr>ms := ms ?l + 1\<rparr>} \<and> op_ret m' \<noteq> DLOCK_SUCCESS"
  proof (cases rule: cmd_view_cases)
    case 1
    then show ?thesis by (simp add: set_ret_def)
  next
    case (2 op f cs)
    then show ?thesis using assms(2-5)
      by (cases op) (auto simp: fair_op_defs split: if_splits)
  qed
  then show ?thesis by (simp add: do_lock_cmd_fair_view[OF assms(1)] v)
qed

theorem fair_lease_safe_witness:
  "op_ret (fst (snd (do_lock_cmd 20 8 (zero_msg\<lparr>msg_lock_type := 2, ls := zero_ls\<lparr>w2 := 30\<rparr>\<rparr>)
     (fst (do_lock_cmd 10 7 (zero_msg\<lparr>msg_lock_type := 2, ls := zero_ls\<lparr>w2 := 30\<rparr>\<rparr>)
        (lock_memory_new LOCK_MEMORY_SIZE True)))))) \<noteq> DLOCK_SUCCESS"
proof -
  let ?m = "zero_msg\<lparr>msg_lock_type := 2, ls := zero_ls\<lparr>w2 := 30\<rparr>\<rparr>"
  let ?s = "fst (do_lock_cmd 10 7 ?m (lock_memory_new LOCK_MEMORY_SIZE True))"
  have l: "ext_client_id (load_fair (m_p_lock_memory ?s) 0) = 7" "fk_timeout (load_fair (m_p_lock_memory ?s) 0) = 40"
    by (simp_all add: do_lock_cmd_fair_view(1)[of 0] addressed_def zero_msg_def cmd_view_def op_view_def
        load_new req_of_def fair_op_defs fair_overflow_def que_dist_def FAIR_QUE_SIZE_MASK_def
        FAIR_QUE_SIZE_FULL_def MAX_FAIR_QUESIZE_def)
  have "addressed DLOCK_FAIR 0 ?m" by (simp add: addressed_def zero_msg_def)
  from fair_lease_safe[OF this, of ?s 7 8 20] show ?thesis by (simp add: l del: LOCK_MEMORY_SIZE_val)
qed

end
