(* ===== verification/DLock_Fair.thy ===== *)
theory DLock_Fair
  imports DLock_Server
begin

section \<open>Order of service of fair locks\<close>

text \<open>
  A fair lock (\<open>fair_lock\<close> of \<^verbatim>\<open>server/lock_memory.h\<close>) is a pair of ticket queues with 16-bit
  counters: \<open>nx\<close>/\<open>mx\<close> serve and issue exclusive tickets, \<open>ns\<close>/\<open>ms\<close> shared ones.  Here the
  server's operations on one lock are run against exclusive clients that follow the protocol:
  they try once, keep the ticket of the reply when told to wait, retry with it, and unlock with
  the state of their granting reply.  No lease runs out during the run considered.
\<close>

lemma que_dist_eq: "que_dist a b = ucast (a - b)"
proof -
  let ?w = "FAIR_QUE_SIZE_FULL + ucast a - ucast b :: u32"
  have ab: "0 \<le> uint a" "uint a < 65536" "0 \<le> uint b" "uint b < 65536"
    using uint_lt2p[of a] uint_lt2p[of b] by simp_all
  have w: "uint ?w = 65536 + uint a - uint b"
  proof -
    have "(65536 + uint a - uint b) mod 4294967296 = 65536 + uint a - uint b"
      by (rule mod_pos_pos_trivial) (use ab in linarith)+
    with ab show ?thesis
      by (simp add: FAIR_QUE_SIZE_FULL_def uint_word_ariths unsigned_ucast_eq take_bit_int_eq_self)
  qed
  have "FAIR_QUE_SIZE_MASK AND ?w = take_bit 16 ?w"
    by (simp add: FAIR_QUE_SIZE_MASK_def take_bit_eq_mask mask_eq_exp_minus_1 and.commute)
  then have "uint (que_dist a b) = (65536 + uint a - uint b) mod 65536"
    unfolding que_dist_def by (simp only: unsigned_take_bit_eq w) (simp add: take_bit_eq_mod)
  also have "\<dots> = uint (a - b)"
    by (simp add: uint_word_ariths) (metis add_diff_eq mod_add_self1)
  finally show ?thesis
    using uint_lt2p[of "a - b"] by (simp add: word_uint_eq_iff unsigned_ucast_eq take_bit_int_eq_self)
qed

lemma que_dist_of_nat [simp]: "j < 65536 \<Longrightarrow> que_dist (a + of_nat j) a = of_nat j"
  by (simp add: que_dist_eq word_unat_eq_iff unsigned_ucast_eq take_bit_nat_eq_self unat_of_nat)

lemma que_dist_le_limit [simp]: "j \<le> 0x7FFF \<Longrightarrow> \<not> MAX_FAIR_QUESIZE < of_nat j"
  by (simp add: MAX_FAIR_QUESIZE_def word_less_nat_alt unat_of_nat)

lemma que_dist_lt_limit: "j < 65536 \<Longrightarrow> MAX_FAIR_QUESIZE \<le> of_nat j \<longleftrightarrow> 0x7FFF \<le> j"
  by (simp add: MAX_FAIR_QUESIZE_def word_le_nat_alt unat_of_nat)

lemma add_of_nat_eq_self: "j < 65536 \<Longrightarrow> (a :: u16) + of_nat j = a \<longleftrightarrow> j = 0"
  unfolding add_cancel_left_right by (simp add: word_unat_eq_iff unat_of_nat)

subsection \<open>Exclusive clients on one lock\<close>

text \<open>
  \<open>fs_holder\<close> and \<open>fs_queue\<close> record what the clients remember: the counters of the granting
  reply, and the tickets of the waiting clients in the order they were issued.
\<close>

record fair_sys =
  fs_lock :: fair_lock
  fs_holder :: "(u32 \<times> u16 \<times> u16) option"
  fs_queue :: "(u32 \<times> u16 \<times> u16) list"

text \<open>One request of a client and the reply after the server's post-processing.\<close>

definition fair_request :: "fair_lock lock_op \<Rightarrow> int \<Rightarrow> u32 \<Rightarrow> lock_cmd_msg \<Rightarrow> fair_lock \<Rightarrow> fair_lock \<times> lock_cmd_msg" where
  "fair_request f tv c m l =
    (let (l', m', st, cs) = f tv c l m in (l', fairlock_ticket_response (word_of_int tv) m'))"

definition remove_nth :: "nat \<Rightarrow> 'a list \<Rightarrow> 'a list" where
  "remove_nth i xs = take i xs @ drop (Suc i) xs"

definition granted :: "u32 \<Rightarrow> lock_cmd_msg \<Rightarrow> (u32 \<times> u16 \<times> u16) option" where
  "granted c r = Some (c, fl_n_exclusive (ls r), fl_n_shared (ls r))"

definition fair_try :: "int \<Rightarrow> u32 \<Rightarrow> lock_cmd_msg \<Rightarrow> fair_sys \<Rightarrow> fair_sys" where
  "fair_try tv c m s =
    (let (l', r) = fair_request fairlock_trylock_ex_do tv c m (fs_lock s) in
     if op_ret r = DLOCK_SUCCESS then s\<lparr>fs_lock := l', fs_holder := granted c r\<rparr>
     else if op_ret r = DLOCK_EAGAIN
     then s\<lparr>fs_lock := l', fs_queue := fs_queue s @ [(c, fl_m_exclusive (ls r), fl_m_shared (ls r))]\<rparr>
     else s\<lparr>fs_lock := l'\<rparr>)"

definition fair_retry :: "int \<Rightarrow> nat \<Rightarrow> lock_cmd_msg \<Rightarrow> fair_sys \<Rightarrow> fair_sys \<times> bool" where
  "fair_retry tv i m s =
    (let (c, k, sh) = fs_queue s ! i;
         (l', r) = fair_request fairlock_trylock_ex_ticket_do tv c m (fs_lock s) in
     if op_ret r = DLOCK_SUCCESS
     then (s\<lparr>fs_lock := l', fs_holder := granted c r, fs_queue := remove_nth i (fs_queue s)\<rparr>, True)
     else (s\<lparr>fs_lock := l'\<rparr>, False))"

definition fair_release :: "int \<Rightarrow> lock_cmd_msg \<Rightarrow> fair_sys \<Rightarrow> fair_sys" where
  "fair_release tv m s =
    (case fs_holder s of
       None \<Rightarrow> s
     | Some (c, ne, nsh) \<Rightarrow>
         (let (l', r) = fair_request fairlock_unlock_ex_do tv c m (fs_lock s)
          in s\<lparr>fs_lock := l', fs_holder := if op_ret r = DLOCK_SUCCESS then None else fs_holder s\<rparr>))"

text \<open>A retry presents the ticket, a release the counters of the grant.\<close>

definition presents_ticket :: "u32 \<times> u16 \<times> u16 \<Rightarrow> lock_cmd_msg \<Rightarrow> bool" where
  "presents_ticket e m \<longleftrightarrow> op_code m = req_val EXCLUSIVE_TICKET_TRYLOCK \<and>
     fl_m_exclusive (ls m) = fst (snd e) \<and> fl_m_shared (ls m) = snd (snd e)"

definition presents_grant :: "u32 \<times> u16 \<times> u16 \<Rightarrow> lock_cmd_msg \<Rightarrow> bool" where
  "presents_grant e m \<longleftrightarrow> op_code m = req_val EXCLUSIVE_UNLOCK \<and>
     fl_n_exclusive (ls m) = fst (snd e) \<and> fl_n_shared (ls m) = snd (snd e)"

inductive fair_step :: "fair_sys \<Rightarrow> fair_sys \<Rightarrow> bool" where
  f_try: "c \<noteq> 0 \<Longrightarrow> op_code m = req_val EXCLUSIVE_TRYLOCK \<Longrightarrow> fair_step s (fair_try tv c m s)"
| f_retry: "i < length (fs_queue s) \<Longrightarrow> presents_ticket (fs_queue s ! i) m \<Longrightarrow>
    tv \<le> uint (fk_timeout (fs_lock s)) \<Longrightarrow> fair_step s (fst (fair_retry tv i m s))"
| f_release: "fs_holder s = Some e \<Longrightarrow> presents_grant e m \<Longrightarrow> fair_step s (fair_release tv m s)"

definition fair_init :: "fair_sys \<Rightarrow> bool" where
  "fair_init s \<longleftrightarrow> fs_lock s = \<lparr>nx = 0, ns = 0, mx = 0, ms = 0, fk_timeout = 0, rms = 0, rflag = 0,
     fk_rsvd = 0, rcnt = 0, ext_client_id = 0, ext_rsvd = 0\<rparr> \<and> fs_holder s = None \<and> fs_queue s = []"

text \<open>The number of grants outstanding.\<close>

definition held :: "fair_sys \<Rightarrow> nat" where
  "held s = (if fs_holder s = None then 0 else 1)"

definition fair_inv :: "fair_sys \<Rightarrow> bool" where
  "fair_inv s \<longleftrightarrow>
    (let l = fs_lock s; q = fs_queue s in
     ms l = ns l \<and> mx l = nx l + of_nat (held s + length q) \<and> held s + length q \<le> 0x7FFF \<and>
     (\<forall>i < length q. fst (q ! i) \<noteq> 0 \<and> snd (q ! i) = (nx l + of_nat (held s + i), ns l)) \<and>
     (case fs_holder s of
        None \<Rightarrow> ext_client_id l = 0
      | Some (c, ne, nsh) \<Rightarrow> c \<noteq> 0 \<and> ext_client_id l = c \<and> ne = nx l \<and> nsh = ns l))"

lemma fair_invI:
  assumes "ms (fs_lock s) = ns (fs_lock s)" "mx (fs_lock s) = nx (fs_lock s) + of_nat (held s + length (fs_queue s))"
    and "held s + length (fs_queue s) \<le> 0x7FFF"
    and "\<And>i. i < length (fs_queue s) \<Longrightarrow> fst (fs_queue s ! i) \<noteq> 0 \<and>
      snd (fs_queue s ! i) = (nx (fs_lock s) + of_nat (held s + i), ns (fs_lock s))"
    and "fs_holder s = None \<Longrightarrow> ext_client_id (fs_lock s) = 0"
    and "\<And>c ne nsh. fs_holder s = Some (c, ne, nsh) \<Longrightarrow>
      c \<noteq> 0 \<and> ext_client_id (fs_lock s) = c \<and> ne = nx (fs_lock s) \<and> nsh = ns (fs_lock s)"
  shows "fair_inv s"
  using assms by (auto simp: fair_inv_def Let_def split: option.splits)

lemma fair_invD:
  assumes "fair_inv s"
  shows "ms (fs_lock s) = ns (fs_lock s)" "mx (fs_lock s) = nx (fs_lock s) + of_nat (held s + length (fs_queue s))"
    and "held s + length (fs_queue s) \<le> 0x7FFF"
    and "i < length (fs_queue s) \<Longrightarrow> fst (fs_queue s ! i) \<noteq> 0"
    and "i < length (fs_queue s) \<Longrightarrow>
      snd (fs_queue s ! i) = (nx (fs_lock s) + of_nat (held s + i), ns (fs_lock s))"
    and "fs_holder s = None \<longleftrightarrow> ext_client_id (fs_lock s) = 0"
    and "fs_holder s = Some (c, ne, nsh) \<Longrightarrow>
      ext_client_id (fs_lock s) = c \<and> ne = nx (fs_lock s) \<and> nsh = ns (fs_lock s)"
  using assms by (auto simp: fair_inv_def Let_def split: option.splits)

lemma fair_overflow_inv:
  assumes "fair_inv s"
  shows "fair_overflow (fs_lock s) \<longleftrightarrow> held s + length (fs_queue s) = 0x7FFF"
proof -
  have "que_dist (ms (fs_lock s)) (ns (fs_lock s)) = 0"
    using que_dist_of_nat[of 0 "ns (fs_lock s)"] fair_invD(1)[OF assms] by simp
  then show ?thesis
    using fair_invD(2,3)[OF assms]
    by (auto simp: fair_overflow_def que_dist_lt_limit simp del: of_nat_add) (simp add: MAX_FAIR_QUESIZE_def)
qed

lemma fair_try_inv:
  assumes i: "fair_inv s" and c: "c \<noteq> 0" and op: "op_code m = req_val EXCLUSIVE_TRYLOCK"
  shows "fair_inv (fair_try tv c m s)"
proof -
  note D = fair_invD[OF i] and O = fair_overflow_inv[OF i]
  let ?l = "fs_lock s"
  let ?n = "held s + length (fs_queue s)"
  consider "?n = 0x7FFF" | "?n < 0x7FFF" "ext_client_id ?l = 0" "nx ?l = mx ?l"
    | "?n < 0x7FFF" "\<not> (ext_client_id ?l = 0 \<and> nx ?l = mx ?l)"
    using D(3) by linarith
  then show ?thesis
  proof cases
    case 1
    then have "fair_try tv c m s = s"
      using O by (simp add: fair_try_def fair_request_def fairlock_trylock_ex_do_def set_ret_def
          fairlock_ticket_response_def)
    with i show ?thesis by simp
  next
    case 2
    then have n0: "?n = 0" using D(2) add_of_nat_eq_self[of ?n "nx ?l"] by simp
    have "fair_try tv c m s = s\<lparr>fs_lock := ?l\<lparr>fk_timeout := fl_time_out (ls m) + word_of_int tv,
        ext_client_id := c, mx := mx ?l + 1\<rparr>, fs_holder := Some (c, nx ?l, ns ?l)\<rparr>"
      using 2 O D(1) by (simp add: fair_try_def fair_request_def fairlock_trylock_ex_do_def set_ret_def
          fairlock_ticket_response_def fairlock_set_fl_state_def granted_def Let_def)
    with n0 2 c D(1) show ?thesis
      by (auto simp: fair_inv_def Let_def held_def split: if_splits)
  next
    case 3
    have t: "fair_try tv c m s = s\<lparr>fs_lock := ?l\<lparr>mx := mx ?l + 1\<rparr>,
        fs_queue := fs_queue s @ [(c, mx ?l, ms ?l)]\<rparr>"
      using 3 O D(1) op by (auto simp: fair_try_def fair_request_def fairlock_trylock_ex_do_def set_ret_def
          fairlock_ticket_response_def fairlock_set_fl_state_def set_fl_m_exclusive_def Let_def)
    show ?thesis
      by (rule fair_invI) (use 3 c D in \<open>auto simp: t held_def nth_append less_Suc_eq split: if_splits\<close>)
  qed
qed

lemma fair_retry_eq:
  assumes i: "fair_inv s" and j: "j < length (fs_queue s)" and m: "presents_ticket (fs_queue s ! j) m"
    and tv: "tv \<le> uint (fk_timeout (fs_lock s))"
  shows "fair_retry tv j m s =
    (if fs_holder s = None \<and> j = 0
     then (s\<lparr>fs_lock := (fs_lock s)\<lparr>fk_timeout := fl_time_out (ls m) + word_of_int tv,
             ext_client_id := fst (fs_queue s ! 0)\<rparr>,
           fs_holder := Some (fst (fs_queue s ! 0), nx (fs_lock s), ns (fs_lock s)),
           fs_queue := tl (fs_queue s)\<rparr>, True)
     else (s, False))"
proof -
  note D = fair_invD[OF i]
  have n: "held s + j < 65536" "held s + j \<le> 0x7FFF" using D(3) j by auto
  have m': "op_code m = 3" "lo16 (w1 (ls m)) = nx (fs_lock s) + of_nat (held s + j)" "hi16 (w1 (ls m)) = ns (fs_lock s)"
    using m D(5)[OF j] by (auto simp: presents_ticket_def)
  have q0: "que_dist (ns (fs_lock s)) (ns (fs_lock s)) = 0"
    using que_dist_of_nat[of 0 "ns (fs_lock s)"] by simp
  have e: "nx (fs_lock s) + of_nat (held s + j) = nx (fs_lock s) \<longleftrightarrow> held s = 0 \<and> j = 0"
    using add_of_nat_eq_self[OF n(1)] by simp
  have h: "held s = 0 \<longleftrightarrow> fs_holder s = None" by (simp add: held_def)
  obtain c k sh where q: "fs_queue s ! j = (c, k, sh)" by (metis prod_cases3)
  have tl: "remove_nth 0 (fs_queue s) = tl (fs_queue s)" by (simp add: remove_nth_def drop_Suc)
  show ?thesis
    using D(6) tv h e q tl n
    by (auto simp: fair_retry_def fair_request_def fairlock_trylock_ex_ticket_do_def m' que_dist_of_nat[OF n(1)]
        q0 MAX_FAIR_QUESIZE_def set_ret_def fairlock_ticket_response_def fairlock_set_fl_state_def granted_def
        word_less_nat_alt unat_of_nat Let_def simp del: of_nat_add)
qed

lemma fair_retry_inv:
  assumes i: "fair_inv s" and j: "j < length (fs_queue s)" and m: "presents_ticket (fs_queue s ! j) m"
    and tv: "tv \<le> uint (fk_timeout (fs_lock s))"
  shows "fair_inv (fst (fair_retry tv j m s))"
proof (cases "fs_holder s = None \<and> j = 0")
  case True
  note D = fair_invD[OF i]
  obtain e q where q: "fs_queue s = e # q" using j by (cases "fs_queue s") auto
  have h: "held s = 0" using True by (simp add: held_def)
  show ?thesis
    unfolding fair_retry_eq[OF assms] if_P[OF True] fst_conv
  proof (rule fair_invI, goal_cases)
    case (4 k)
    then show ?case using D(4)[of "Suc k"] D(5)[of "Suc k"] by (simp add: q h) (simp add: held_def)
  qed (use True D(1-3) D(4)[of 0] in \<open>auto simp: q h held_def\<close>)
next
  case False
  then show ?thesis using i by (auto simp: fair_retry_eq[OF assms])
qed

lemma fair_release_inv:
  assumes i: "fair_inv s" and e: "fs_holder s = Some e" and m: "presents_grant e m"
  shows "fair_inv (fair_release tv m s)"
proof -
  note D = fair_invD[OF i]
  obtain c ne nsh where e': "e = (c, ne, nsh)" by (metis prod_cases3)
  have m': "op_code m = 1" "lo16 (w0 (ls m)) = nx (fs_lock s)" "hi16 (w0 (ls m)) = ns (fs_lock s)"
    "ext_client_id (fs_lock s) = c"
    using m D(7)[of c ne nsh] e e' by (auto simp: presents_grant_def)
  have r: "fair_release tv m s = s\<lparr>fs_lock := (fs_lock s)\<lparr>nx := nx (fs_lock s) + 1,
      fk_timeout := FAIR_WAIT_TIME + word_of_int tv, rflag := 0, ext_client_id := 0\<rparr>, fs_holder := None\<rparr>"
    by (simp add: fair_release_def e e' fair_request_def fairlock_unlock_ex_do_def m' set_ret_def
        fairlock_ticket_response_def fairlock_set_fl_state_def Let_def)
  have h: "held s = 1" using e by (simp add: held_def)
  show ?thesis
    unfolding r
  proof (rule fair_invI, goal_cases)
    case (4 k)
    then show ?case using D(4,5)[of k] by (simp add: h) (simp add: held_def add.assoc)
  qed (use D(1-3) h in \<open>auto simp: held_def add.assoc\<close>)
qed

interpretation fair_sys: step_system fair_init fair_step fair_inv
proof
  show "fair_inv s" if "fair_init s" for s
    using that by (simp add: fair_init_def fair_inv_def held_def)
  show "fair_inv t" if "fair_inv s" "fair_step s t" for s t
    using that(2,1)
    by (cases rule: fair_step.cases) (auto intro: fair_try_inv fair_retry_inv fair_release_inv)
qed

lemma fair_try_grants:
  assumes i: "fair_inv s" and op: "op_code m = req_val EXCLUSIVE_TRYLOCK"
  shows "fs_holder (fair_try tv c m s) = (if fs_holder s = None \<and> fs_queue s = [] \<and> \<not> fair_overflow (fs_lock s)
      then Some (c, nx (fs_lock s), ns (fs_lock s)) else fs_holder s)"
proof -
  note D = fair_invD[OF i]
  have "held s + length (fs_queue s) < 65536" using D(3) by simp
  then have "nx (fs_lock s) = mx (fs_lock s) \<longleftrightarrow> held s = 0 \<and> fs_queue s = []"
    using D(2) add_of_nat_eq_self[of "held s + length (fs_queue s)" "nx (fs_lock s)"] by (auto simp del: of_nat_add)
  moreover have "held s = 0 \<longleftrightarrow> ext_client_id (fs_lock s) = 0" using D(6) by (simp add: held_def)
  ultimately show ?thesis
    using D(1,6) op
    by (auto simp: fair_try_def fair_request_def fairlock_trylock_ex_do_def set_ret_def
        fairlock_ticket_response_def fairlock_set_fl_state_def granted_def Let_def)
qed



end
