(* ===== verification/DLock_Client.thy ===== *)
theory DLock_Client
  imports DLock_Types
begin

section \<open>Lock entries of the client\<close>

text \<open>
  Class \<open>lock_entry_c\<close> (\<^verbatim>\<open>client/lock_entry_c.cpp\<close>): the state a client keeps per lock,
  the state maps, the functions that fill a command from a request and that update the entry
  from a reply, for the synchronous and the asynchronous API, and the recovery messages.

  A fill function returns the entry, the command, the status and the counters it increments;
  an update function returns the entry, the caller's result buffer, the status and the
  counters.  A null command pointer is \<open>None\<close>.  The buffer is a \<open>lock_state\<close>, of which
  each lock type writes its own members.
\<close>

record lock_entry_c =
  m_lock_id :: u32
  m_lock_type :: dlock_type
  m_lock_offset :: u32
  m_lease_time :: u32
  m_ref_count :: u32
  m_lock_state :: dlock_state
  m_lock_val :: lock_state
  m_lock_updated :: bool
  m_lock_desc :: "u8 list"

definition lock_entry_c_new :: "u32 \<Rightarrow> dlock_type \<Rightarrow> u32 \<Rightarrow> u32 \<Rightarrow> lock_entry_c" where
  "lock_entry_c_new lock_id lock_type offset lease_time =
    \<lparr>m_lock_id = lock_id, m_lock_type = lock_type, m_lock_offset = offset,
     m_lease_time = lease_time, m_ref_count = 0, m_lock_state = LOCK_INITIALIZED,
     m_lock_val = zero_ls, m_lock_updated = False, m_lock_desc = []\<rparr>"

type_synonym op_ret_req = "dlock_status \<times> dlock_req_code \<times> debug_stats_code"
type_synonym fill_res = "lock_entry_c \<times> lock_cmd_msg \<times> dlock_status \<times> debug_stats_code list"
type_synonym update_res = "lock_entry_c \<times> lock_state \<times> dlock_status \<times> debug_stats_code list"

subsection \<open>State maps\<close>

definition op_einval :: op_ret_req where
  "op_einval = (DLOCK_EINVAL, OP_CODE_NULL, DEBUG_STATS_EINVAL_LOCK_OP)"

definition op_already_unlocked :: op_ret_req where
  "op_already_unlocked = (DLOCK_ALREADY_UNLOCKED, OP_CODE_NULL, DEBUG_STATS_ALREADY_UNLOCKED)"

definition op_send :: "dlock_req_code \<Rightarrow> op_ret_req" where
  "op_send c = (DLOCK_SUCCESS, c, DEBUG_STATS_MAX)"

fun g_atomic_state_map :: "dlock_state \<Rightarrow> lock_ops \<Rightarrow> op_ret_req" where
  "g_atomic_state_map LOCK_INITIALIZED LOCK_EXCLUSIVE = op_send EXCLUSIVE_TRYLOCK"
| "g_atomic_state_map LOCK_INITIALIZED UNLOCK = op_already_unlocked"
| "g_atomic_state_map EXCLUSIVE_LOCKED LOCK_EXCLUSIVE = op_send EXCLUSIVE_LOCK_EXTEND"
| "g_atomic_state_map EXCLUSIVE_LOCKED UNLOCK = op_send EXCLUSIVE_UNLOCK"
| "g_atomic_state_map EXCLUSIVE_LOCKED EXTEND_LOCK_EXCLUSIVE = op_send EXCLUSIVE_LOCK_EXTEND"
| "g_atomic_state_map UNLOCKED LOCK_EXCLUSIVE = op_send EXCLUSIVE_TRYLOCK"
| "g_atomic_state_map UNLOCKED UNLOCK = op_already_unlocked"
| "g_atomic_state_map _ _ = op_einval"

fun g_rwlock_state_map :: "dlock_state \<Rightarrow> lock_ops \<Rightarrow> op_ret_req" where
  "g_rwlock_state_map LOCK_INITIALIZED LOCK_EXCLUSIVE = op_send EXCLUSIVE_TRYLOCK"
| "g_rwlock_state_map LOCK_INITIALIZED LOCK_SHARED = op_send SHARED_TRYLOCK"
| "g_rwlock_state_map LOCK_INITIALIZED UNLOCK = op_already_unlocked"
| "g_rwlock_state_map EXCLUSIVE_LOCKED LOCK_EXCLUSIVE =
     (DLOCK_ALREADY_LOCKED, OP_CODE_NULL, DEBUG_STATS_ALREADY_LOCKED)"
| "g_rwlock_state_map EXCLUSIVE_LOCKED UNLOCK = op_send EXCLUSIVE_UNLOCK"
| "g_rwlock_state_map SHARED_LOCKED LOCK_SHARED =
     (DLOCK_ALREADY_LOCKED, OP_CODE_NULL, DEBUG_STATS_ALREADY_LOCKED)"
| "g_rwlock_state_map SHARED_LOCKED UNLOCK = op_send SHARED_UNLOCK"
| "g_rwlock_state_map UNLOCKED LOCK_EXCLUSIVE = op_send EXCLUSIVE_TRYLOCK"
| "g_rwlock_state_map UNLOCKED LOCK_SHARED = op_send SHARED_TRYLOCK"
| "g_rwlock_state_map UNLOCKED UNLOCK = op_already_unlocked"
| "g_rwlock_state_map _ _ = op_einval"

fun g_fairlock_state_map :: "dlock_state \<Rightarrow> lock_ops \<Rightarrow> op_ret_req" where
  "g_fairlock_state_map LOCK_INITIALIZED LOCK_EXCLUSIVE = op_send EXCLUSIVE_TRYLOCK"
| "g_fairlock_state_map LOCK_INITIALIZED LOCK_SHARED = op_send SHARED_TRYLOCK"
| "g_fairlock_state_map LOCK_INITIALIZED UNLOCK = op_already_unlocked"
| "g_fairlock_state_map EXCLUSIVE_LOCKED LOCK_EXCLUSIVE =
     (DLOCK_ALREADY_LOCKED, EXCLUSIVE_LOCK_EXTEND, DEBUG_STATS_ALREADY_LOCKED)"
| "g_fairlock_state_map EXCLUSIVE_LOCKED UNLOCK = op_send EXCLUSIVE_UNLOCK"
| "g_fairlock_state_map EXCLUSIVE_LOCKED EXTEND_LOCK_EXCLUSIVE = op_send EXCLUSIVE_LOCK_EXTEND"
| "g_fairlock_state_map SHARED_LOCKED LOCK_SHARED =
     (DLOCK_ALREADY_LOCKED, SHARED_LOCK_EXTEND, DEBUG_STATS_ALREADY_LOCKED)"
| "g_fairlock_state_map SHARED_LOCKED UNLOCK = op_send SHARED_UNLOCK"
| "g_fairlock_state_map SHARED_LOCKED EXTEND_LOCK_SHARED = op_send SHARED_LOCK_EXTEND"
| "g_fairlock_state_map UNLOCKED LOCK_EXCLUSIVE = op_send EXCLUSIVE_TRYLOCK"
| "g_fairlock_state_map UNLOCKED LOCK_SHARED = op_send SHARED_TRYLOCK"
| "g_fairlock_state_map UNLOCKED UNLOCK = op_already_unlocked"
| "g_fairlock_state_map EXCLUSIVE_TICKETED LOCK_EXCLUSIVE = op_send EXCLUSIVE_TICKET_TRYLOCK"
| "g_fairlock_state_map EXCLUSIVE_TICKETED LOCK_SHARED = (DLOCK_ETICKET, OP_CODE_NULL, DEBUG_STATS_ETICKET)"
| "g_fairlock_state_map EXCLUSIVE_TICKETED UNLOCK = (DLOCK_DONE, OP_LOCAL_RESET, DEBUG_STATS_MAX)"
| "g_fairlock_state_map SHARED_TICKETED LOCK_EXCLUSIVE = (DLOCK_ETICKET, OP_CODE_NULL, DEBUG_STATS_ETICKET)"
| "g_fairlock_state_map SHARED_TICKETED LOCK_SHARED = op_send SHARED_TICKET_TRYLOCK"
| "g_fairlock_state_map SHARED_TICKETED UNLOCK = (DLOCK_DONE, OP_LOCAL_RESET, DEBUG_STATS_MAX)"
| "g_fairlock_state_map _ _ = op_einval"

definition debug_stats_count_incre :: "debug_stats_code \<Rightarrow> debug_stats_code list" where
  "debug_stats_count_incre c = (if c = DEBUG_STATS_MAX then [] else [c])"

subsection \<open>Filling a command: synchronous API\<close>

definition init_cmd_msg_common_field :: "u16 \<Rightarrow> lock_cmd_msg \<Rightarrow> lock_cmd_msg" where
  "init_cmd_msg_common_field mid m =
    m\<lparr>magic_no := DLOCK_DP_MAGIC_NO, version := DLOCK_PROTO_VERSION, message_id := mid\<rparr>"

definition set_op :: "dlock_req_code \<Rightarrow> lock_cmd_msg \<Rightarrow> lock_cmd_msg" where
  "set_op c m = m\<lparr>op_code := req_val c\<rparr>"

definition set_target :: "lock_entry_c \<Rightarrow> lock_cmd_msg \<Rightarrow> lock_cmd_msg" where
  "set_target e m = m\<lparr>lock_offset := m_lock_offset e, msg_lock_type := lock_type_val (m_lock_type e)\<rparr>"

definition atomic_fill_tail :: "u32 \<Rightarrow> lock_request \<Rightarrow> lock_entry_c \<Rightarrow> lock_cmd_msg \<Rightarrow> fill_res" where
  "atomic_fill_tail client_id req e m =
    (e, (set_target e m)\<lparr>ls := (ls m)\<lparr>w0 := client_id, w1 := expire_time req\<rparr>\<rparr>, DLOCK_SUCCESS, [])"

definition atomic_fill_cmd_msg :: "u32 \<Rightarrow> lock_request \<Rightarrow> lock_entry_c \<Rightarrow> lock_cmd_msg \<Rightarrow> fill_res" where
  "atomic_fill_cmd_msg client_id req e m =
    (case req_lock_op req of
       LOCK_EXCLUSIVE \<Rightarrow>
         if m_lock_state e = EXCLUSIVE_LOCKED
         then atomic_fill_tail client_id req (e\<lparr>m_ref_count := m_ref_count e + 1\<rparr>) (set_op EXCLUSIVE_LOCK_EXTEND m)
         else atomic_fill_tail client_id req e (set_op EXCLUSIVE_TRYLOCK m)
     | UNLOCK \<Rightarrow>
         if m_lock_state e \<noteq> EXCLUSIVE_LOCKED
         then (e, set_op EXCLUSIVE_UNLOCK m, DLOCK_ALREADY_UNLOCKED, [DEBUG_STATS_ALREADY_UNLOCKED])
         else (let e' = e\<lparr>m_ref_count := m_ref_count e - 1\<rparr> in
           if m_ref_count e' > 0
           then (e', set_op EXCLUSIVE_UNLOCK m, DLOCK_ALREADY_LOCKED, [DEBUG_STATS_ALREADY_LOCKED])
           else atomic_fill_tail client_id req e' (set_op EXCLUSIVE_UNLOCK m))
     | EXTEND_LOCK_EXCLUSIVE \<Rightarrow>
         if m_lock_state e \<noteq> EXCLUSIVE_LOCKED
         then (e, set_op EXCLUSIVE_LOCK_EXTEND m, DLOCK_EINVAL, [DEBUG_STATS_EINVAL_LOCK_OP])
         else atomic_fill_tail client_id req e (set_op EXCLUSIVE_LOCK_EXTEND m)
     | _ \<Rightarrow> (e, m, DLOCK_EINVAL, [DEBUG_STATS_EINVAL_LOCK_OP]))"

definition set_rw_client :: "u32 \<Rightarrow> lock_cmd_msg \<Rightarrow> lock_cmd_msg" where
  "set_rw_client c m = m\<lparr>ls := (ls m)\<lparr>w1 := c\<rparr>\<rparr>"

definition rw_fill_tail :: "lock_request \<Rightarrow> lock_entry_c \<Rightarrow> lock_cmd_msg \<Rightarrow> fill_res" where
  "rw_fill_tail req e m =
    (e, (set_target e m)\<lparr>ls := (ls m)\<lparr>w0 := expire_time req\<rparr>\<rparr>, DLOCK_SUCCESS, [])"

definition rw_fill_cmd_msg :: "u32 \<Rightarrow> lock_request \<Rightarrow> lock_entry_c \<Rightarrow> lock_cmd_msg \<Rightarrow> fill_res" where
  "rw_fill_cmd_msg client_id req e m =
    (case req_lock_op req of
       LOCK_EXCLUSIVE \<Rightarrow>
         (let m' = set_rw_client client_id (set_op EXCLUSIVE_TRYLOCK m) in
          if m_lock_state e = EXCLUSIVE_LOCKED
          then (e\<lparr>m_ref_count := m_ref_count e + 1\<rparr>, m', DLOCK_ALREADY_LOCKED, [DEBUG_STATS_ALREADY_LOCKED])
          else if m_lock_state e = SHARED_LOCKED
          then (e, m', DLOCK_EINVAL, [DEBUG_STATS_EINVAL_LOCK_OP])
          else rw_fill_tail req e m')
     | LOCK_SHARED \<Rightarrow>
         (let m' = set_rw_client 0 (set_op SHARED_TRYLOCK m) in
          if m_lock_state e = EXCLUSIVE_LOCKED
          then (e, m', DLOCK_EINVAL, [DEBUG_STATS_EINVAL_LOCK_OP])
          else if m_lock_state e = SHARED_LOCKED
          then (e\<lparr>m_ref_count := m_ref_count e + 1\<rparr>, m', DLOCK_ALREADY_LOCKED, [DEBUG_STATS_ALREADY_LOCKED])
          else rw_fill_tail req e m')
     | UNLOCK \<Rightarrow>
         if m_lock_state e \<noteq> SHARED_LOCKED \<and> m_lock_state e \<noteq> EXCLUSIVE_LOCKED
         then (e, m, DLOCK_ALREADY_UNLOCKED, [DEBUG_STATS_ALREADY_UNLOCKED])
         else
           (let ex = (m_lock_state e = EXCLUSIVE_LOCKED);
                m' = set_rw_client (if ex then client_id else 0)
                       (set_op (if ex then EXCLUSIVE_UNLOCK else SHARED_UNLOCK) m);
                e' = e\<lparr>m_ref_count := m_ref_count e - 1\<rparr> in
            if m_ref_count e' > 0
            then (e', m', DLOCK_ALREADY_LOCKED, [DEBUG_STATS_ALREADY_LOCKED])
            else rw_fill_tail req e' m')
     | _ \<Rightarrow> (e, m, DLOCK_EINVAL, [DEBUG_STATS_EINVAL_LOCK_OP]))"

definition fair_fill_cmd_msg :: "lock_request \<Rightarrow> lock_entry_c \<Rightarrow> lock_cmd_msg \<Rightarrow> fill_res" where
  "fair_fill_cmd_msg req e m =
    (let (r, c, sc) = g_fairlock_state_map (m_lock_state e) (req_lock_op req);
         cs = debug_stats_count_incre sc;
         ret = (if r = DLOCK_ALREADY_LOCKED then DLOCK_SUCCESS else r);
         m1 = set_op c m;
         e1 = e\<lparr>m_ref_count := if r = DLOCK_ALREADY_LOCKED then m_ref_count e + 1 else m_ref_count e,
                m_lock_state := if c = OP_LOCAL_RESET then LOCK_INITIALIZED else m_lock_state e\<rparr> in
     if ret \<noteq> DLOCK_SUCCESS then (e1, m1, ret, cs)
     else
       (let e2 = (if req_lock_op req = UNLOCK then e1\<lparr>m_ref_count := m_ref_count e1 - 1\<rparr> else e1) in
        if req_lock_op req = UNLOCK \<and> m_ref_count e2 > 0
        then (e2, m1, DLOCK_ALREADY_LOCKED, cs @ [DEBUG_STATS_ALREADY_LOCKED])
        else (e2, (set_target e2 m1)\<lparr>ls := (copy_base (m_lock_val e2) (ls m1))\<lparr>w2 := expire_time req\<rparr>\<rparr>,
              ret, cs)))"

definition fill_cmd_msg :: "u32 \<Rightarrow> u16 \<Rightarrow> lock_request \<Rightarrow> lock_entry_c \<Rightarrow> lock_cmd_msg \<Rightarrow> fill_res" where
  "fill_cmd_msg client_id mid req e m =
    (let m1 = init_cmd_msg_common_field mid m in
     case m_lock_type e of
       DLOCK_ATOMIC \<Rightarrow> atomic_fill_cmd_msg client_id req e m1
     | DLOCK_RW \<Rightarrow> rw_fill_cmd_msg client_id req e m1
     | DLOCK_FAIR \<Rightarrow> fair_fill_cmd_msg req e m1)"

subsection \<open>Filling a command: asynchronous API\<close>

definition atomic_async_fill_cmd_msg :: "u32 \<Rightarrow> lock_request \<Rightarrow> lock_entry_c \<Rightarrow> lock_cmd_msg \<Rightarrow> fill_res" where
  "atomic_async_fill_cmd_msg client_id req e m =
    (let (r, c, sc) = g_atomic_state_map (m_lock_state e) (req_lock_op req);
         cs = debug_stats_count_incre sc; m1 = set_op c m in
     if r \<noteq> DLOCK_SUCCESS then (e, m1, r, cs)
     else if req_lock_op req = UNLOCK \<and> m_ref_count e > 1
     then (e\<lparr>m_ref_count := m_ref_count e - 1\<rparr>, m1, DLOCK_ALREADY_LOCKED, cs)
     else (e, (set_target e m1)\<lparr>ls := (ls m1)\<lparr>w0 := client_id, w1 := expire_time req\<rparr>\<rparr>, r, cs))"

definition rw_async_fill_cmd_msg :: "u32 \<Rightarrow> lock_request \<Rightarrow> lock_entry_c \<Rightarrow> lock_cmd_msg \<Rightarrow> fill_res" where
  "rw_async_fill_cmd_msg client_id req e m =
    (let (r, c, sc) = g_rwlock_state_map (m_lock_state e) (req_lock_op req);
         cs = debug_stats_count_incre sc; m1 = set_op c m;
         e1 = e\<lparr>m_ref_count := if r = DLOCK_ALREADY_LOCKED then m_ref_count e + 1 else m_ref_count e\<rparr> in
     if r \<noteq> DLOCK_SUCCESS then (e1, m1, r, cs)
     else if req_lock_op req = UNLOCK \<and> m_ref_count e1 > 1
     then (e1\<lparr>m_ref_count := m_ref_count e1 - 1\<rparr>, m1, DLOCK_ALREADY_LOCKED, cs @ [DEBUG_STATS_ALREADY_LOCKED])
     else
       (let ex = (op_code m1 = req_val EXCLUSIVE_TRYLOCK \<or> op_code m1 = req_val EXCLUSIVE_UNLOCK);
            m2 = set_rw_client (if ex then client_id else 0) m1
        in (e1, (set_target e1 m2)\<lparr>ls := (ls m2)\<lparr>w0 := expire_time req\<rparr>\<rparr>, r, cs)))"

definition fair_async_fill_cmd_msg :: "lock_request \<Rightarrow> lock_entry_c \<Rightarrow> lock_cmd_msg \<Rightarrow> fill_res" where
  "fair_async_fill_cmd_msg req e m =
    (let (r, c, sc) = g_fairlock_state_map (m_lock_state e) (req_lock_op req);
         cs = debug_stats_count_incre sc;
         ret = (if r = DLOCK_ALREADY_LOCKED then DLOCK_SUCCESS else r);
         m1 = set_op c m;
         e1 = e\<lparr>m_lock_state := if c = OP_LOCAL_RESET then LOCK_INITIALIZED else m_lock_state e\<rparr> in
     if ret \<noteq> DLOCK_SUCCESS then (e1, m1, ret, cs)
     else if req_lock_op req = UNLOCK \<and> m_ref_count e1 > 1
     then (e1\<lparr>m_ref_count := m_ref_count e1 - 1\<rparr>, m1, DLOCK_ALREADY_LOCKED, cs)
     else (e1, (set_target e1 m1)\<lparr>ls := (copy_base (m_lock_val e1) (ls m1))\<lparr>w2 := expire_time req\<rparr>\<rparr>, ret, cs))"

definition async_fill_cmd_msg :: "u32 \<Rightarrow> u16 \<Rightarrow> lock_request \<Rightarrow> lock_entry_c \<Rightarrow> lock_cmd_msg \<Rightarrow> fill_res" where
  "async_fill_cmd_msg client_id mid req e m =
    (let m1 = init_cmd_msg_common_field mid m in
     case m_lock_type e of
       DLOCK_ATOMIC \<Rightarrow> atomic_async_fill_cmd_msg client_id req e m1
     | DLOCK_RW \<Rightarrow> rw_async_fill_cmd_msg client_id req e m1
     | DLOCK_FAIR \<Rightarrow> fair_async_fill_cmd_msg req e m1)"

subsection \<open>Updating the entry from a reply: synchronous API\<close>

definition atomic_update_state_with_cmd_msg ::
  "lock_cmd_msg option \<Rightarrow> lock_state \<Rightarrow> lock_entry_c \<Rightarrow> update_res" where
  "atomic_update_state_with_cmd_msg p res e =
    (case p of
       None \<Rightarrow> (e, res\<lparr>w0 := w0 (m_lock_val e), w1 := w1 (m_lock_val e)\<rparr>, DLOCK_SUCCESS, [])
     | Some m \<Rightarrow>
         (let res' = res\<lparr>w0 := w0 (ls m), w1 := w1 (ls m)\<rparr>;
              val = copy_base (ls m) (m_lock_val e) in
          case req_of (op_code m) of
            Some EXCLUSIVE_TRYLOCK \<Rightarrow>
              (e\<lparr>m_lock_state := EXCLUSIVE_LOCKED, m_ref_count := m_ref_count e + 1, m_lock_val := val\<rparr>,
               res', DLOCK_SUCCESS, [])
          | Some EXCLUSIVE_UNLOCK \<Rightarrow>
              (e\<lparr>m_lock_state := UNLOCKED, m_ref_count := 0, m_lock_val := val\<rparr>, res', DLOCK_SUCCESS, [])
          | Some EXCLUSIVE_LOCK_EXTEND \<Rightarrow> (e\<lparr>m_lock_val := val\<rparr>, res', DLOCK_SUCCESS, [])
          | _ \<Rightarrow> (e, res', DLOCK_EINVAL, [DEBUG_STATS_EINVAL_LOCK_OP])))"

definition rw_update_state_with_cmd_msg ::
  "lock_cmd_msg option \<Rightarrow> lock_state \<Rightarrow> lock_entry_c \<Rightarrow> update_res" where
  "rw_update_state_with_cmd_msg p res e =
    (case p of
       None \<Rightarrow> (e, res\<lparr>w0 := w0 (m_lock_val e), w1 := w1 (m_lock_val e), w2 := w2 (m_lock_val e)\<rparr>,
                DLOCK_SUCCESS, [])
     | Some m \<Rightarrow>
         (let res' = res\<lparr>w1 := w1 (ls m), w0 := w0 (ls m), w2 := w2 (ls m)\<rparr>;
              val = (copy_base (ls m) (m_lock_val e))\<lparr>w2 := w2 (ls m)\<rparr> in
          case req_of (op_code m) of
            Some EXCLUSIVE_TRYLOCK \<Rightarrow>
              (e\<lparr>m_lock_state := EXCLUSIVE_LOCKED, m_ref_count := m_ref_count e + 1, m_lock_val := val\<rparr>,
               res', DLOCK_SUCCESS, [])
          | Some SHARED_TRYLOCK \<Rightarrow>
              (e\<lparr>m_lock_state := SHARED_LOCKED, m_ref_count := m_ref_count e + 1, m_lock_val := val\<rparr>,
               res', DLOCK_SUCCESS, [])
          | Some EXCLUSIVE_UNLOCK \<Rightarrow>
              (e\<lparr>m_lock_state := UNLOCKED, m_ref_count := 0, m_lock_val := val\<rparr>, res', DLOCK_SUCCESS, [])
          | Some SHARED_UNLOCK \<Rightarrow>
              (e\<lparr>m_lock_state := UNLOCKED, m_ref_count := 0, m_lock_val := val\<rparr>, res', DLOCK_SUCCESS, [])
          | Some EXCLUSIVE_LOCK_EXTEND \<Rightarrow> (e\<lparr>m_lock_val := val\<rparr>, res', DLOCK_SUCCESS, [])
          | Some SHARED_LOCK_EXTEND \<Rightarrow> (e\<lparr>m_lock_val := val\<rparr>, res', DLOCK_SUCCESS, [])
          | _ \<Rightarrow> (e, res', DLOCK_EINVAL, [DEBUG_STATS_EINVAL_LOCK_OP])))"

definition copy_fl :: "lock_state \<Rightarrow> lock_state \<Rightarrow> lock_state" where
  "copy_fl src dst = (copy_base src dst)\<lparr>w2 := w2 src, w3 := w3 src\<rparr>"

definition is_op :: "lock_cmd_msg \<Rightarrow> dlock_req_code list \<Rightarrow> bool" where
  "is_op m cs \<longleftrightarrow> (\<exists>c \<in> set cs. op_code m = req_val c)"

definition fair_update_state_with_cmd_msg ::
  "lock_cmd_msg option \<Rightarrow> lock_state \<Rightarrow> lock_entry_c \<Rightarrow> update_res" where
  "fair_update_state_with_cmd_msg p res e =
    (case p of
       None \<Rightarrow> (e, copy_base (m_lock_val e) (res\<lparr>w2 := w2 (m_lock_val e)\<rparr>), DLOCK_SUCCESS, [])
     | Some m \<Rightarrow>
         if op_ret m = DLOCK_SUCCESS then
           (let st = (if is_op m [SHARED_TRYLOCK, SHARED_TICKET_TRYLOCK] then SHARED_LOCKED
                      else if is_op m [EXCLUSIVE_TRYLOCK, EXCLUSIVE_TICKET_TRYLOCK] then EXCLUSIVE_LOCKED
                      else if is_op m [EXCLUSIVE_UNLOCK, SHARED_UNLOCK] then UNLOCKED
                      else m_lock_state e);
                n = (if is_op m [SHARED_TRYLOCK, SHARED_TICKET_TRYLOCK, EXCLUSIVE_TRYLOCK, EXCLUSIVE_TICKET_TRYLOCK]
                     then m_ref_count e + 1 else m_ref_count e)
            in (e\<lparr>m_lock_val := copy_fl (ls m) (m_lock_val e), m_lock_state := st, m_ref_count := n\<rparr>,
                copy_fl (ls m) res, op_ret m, []))
         else if op_ret m = DLOCK_EAGAIN then
           (let st = (if op_code m < req_val SHARED_TRYLOCK then EXCLUSIVE_TICKETED else SHARED_TICKETED);
                res1 = copy_fl (ls m) res;
                e1 = e\<lparr>m_lock_state := st\<rparr> in
            if is_op m [SHARED_TRYLOCK, EXCLUSIVE_TRYLOCK]
            then (e1\<lparr>m_lock_val := copy_fl (ls m) (m_lock_val e)\<rparr>, res1, op_ret m, [])
            else (e1, res1\<lparr>w1 := mk32 (fl_m_exclusive (m_lock_val e)) (fl_m_shared (m_lock_val e)),
                           w2 := fl_time_out (m_lock_val e)\<rparr>, op_ret m, []))
         else if op_ret m = DLOCK_FAIL then
           (e\<lparr>m_lock_state := LOCK_INITIALIZED, m_ref_count := 0\<rparr>, res, op_ret m, [])
         else (e, res, op_ret m, [DEBUG_STATS_EINVAL_LOCK_RET]))"

definition update_state_with_cmd_msg ::
  "lock_cmd_msg option \<Rightarrow> lock_state \<Rightarrow> lock_entry_c \<Rightarrow> update_res" where
  "update_state_with_cmd_msg p res e =
    (case m_lock_type e of
       DLOCK_ATOMIC \<Rightarrow> atomic_update_state_with_cmd_msg p res e
     | DLOCK_RW \<Rightarrow> rw_update_state_with_cmd_msg p res e
     | DLOCK_FAIR \<Rightarrow> fair_update_state_with_cmd_msg p res e)"

subsection \<open>Updating the entry from a reply: asynchronous API\<close>

definition atomic_async_update_state_with_cmd_msg ::
  "lock_cmd_msg option \<Rightarrow> lock_state \<Rightarrow> lock_entry_c \<Rightarrow> update_res" where
  "atomic_async_update_state_with_cmd_msg p res e =
    (case p of
       None \<Rightarrow> (e, res\<lparr>w0 := w0 (m_lock_val e), w1 := w1 (m_lock_val e)\<rparr>, DLOCK_SUCCESS, [])
     | Some m \<Rightarrow>
         if op_ret m = DLOCK_SUCCESS then
           (let e1 = e\<lparr>m_lock_val := copy_base (ls m) (m_lock_val e)\<rparr>;
                e2 = (if op_code m = req_val EXCLUSIVE_TRYLOCK
                      then e1\<lparr>m_lock_state := EXCLUSIVE_LOCKED, m_ref_count := m_ref_count e1 + 1\<rparr>
                      else if op_code m = req_val EXCLUSIVE_UNLOCK
                      then e1\<lparr>m_lock_state := UNLOCKED, m_ref_count := 0\<rparr> else e1)
            in (e2, res\<lparr>w0 := w0 (ls m), w1 := w1 (ls m)\<rparr>, op_ret m, []))
         else if op_ret m = DLOCK_FAIL then
           (e\<lparr>m_lock_state := LOCK_INITIALIZED, m_ref_count := 0\<rparr>, res, op_ret m, [])
         else (e, res, op_ret m, []))"

definition rw_async_update_state_with_cmd_msg ::
  "lock_cmd_msg option \<Rightarrow> lock_state \<Rightarrow> lock_entry_c \<Rightarrow> update_res" where
  "rw_async_update_state_with_cmd_msg p res e =
    (case p of
       None \<Rightarrow> (e, res\<lparr>w0 := w0 (m_lock_val e), w1 := w1 (m_lock_val e), w2 := w2 (m_lock_val e)\<rparr>,
                DLOCK_SUCCESS, [])
     | Some m \<Rightarrow>
         if op_ret m = DLOCK_SUCCESS then
           (let e1 = e\<lparr>m_lock_val := (copy_base (ls m) (m_lock_val e))\<lparr>w2 := w2 (ls m)\<rparr>\<rparr>;
                e2 = (if op_code m = req_val EXCLUSIVE_TRYLOCK
                      then e1\<lparr>m_lock_state := EXCLUSIVE_LOCKED, m_ref_count := m_ref_count e1 + 1\<rparr>
                      else if op_code m = req_val SHARED_TRYLOCK
                      then e1\<lparr>m_lock_state := SHARED_LOCKED, m_ref_count := m_ref_count e1 + 1\<rparr>
                      else if is_op m [EXCLUSIVE_UNLOCK, SHARED_UNLOCK]
                      then e1\<lparr>m_lock_state := UNLOCKED, m_ref_count := 0\<rparr> else e1)
            in (e2, res\<lparr>w1 := w1 (ls m), w0 := w0 (ls m), w2 := w2 (ls m)\<rparr>, op_ret m, []))
         else if op_ret m = DLOCK_FAIL then
           (e\<lparr>m_lock_state := LOCK_INITIALIZED, m_ref_count := 0\<rparr>, res, op_ret m, [])
         else (e, res, op_ret m, []))"

definition fair_async_update_state_with_cmd_msg ::
  "lock_cmd_msg option \<Rightarrow> lock_state \<Rightarrow> lock_entry_c \<Rightarrow> update_res" where
  "fair_async_update_state_with_cmd_msg p res e =
    (case p of
       None \<Rightarrow> (e, copy_fl (m_lock_val e) res, DLOCK_SUCCESS, [])
     | Some m \<Rightarrow>
         if op_ret m = DLOCK_SUCCESS then
           (let e1 = e\<lparr>m_lock_val := copy_fl (ls m) (m_lock_val e)\<rparr>;
                e2 = (if is_op m [EXCLUSIVE_UNLOCK, SHARED_UNLOCK]
                      then e1\<lparr>m_lock_state := UNLOCKED, m_ref_count := 0\<rparr>
                      else if is_op m [EXCLUSIVE_TRYLOCK, EXCLUSIVE_TICKET_TRYLOCK]
                      then e1\<lparr>m_lock_state := EXCLUSIVE_LOCKED, m_ref_count := m_ref_count e1 + 1\<rparr>
                      else if is_op m [SHARED_TRYLOCK, SHARED_TICKET_TRYLOCK]
                      then e1\<lparr>m_lock_state := SHARED_LOCKED, m_ref_count := m_ref_count e1 + 1\<rparr> else e1)
            in (e2, copy_fl (ls m) res, op_ret m, []))
         else if op_ret m = DLOCK_EAGAIN then
           (let res1 = copy_fl (ls m) res in
            if is_op m [SHARED_TRYLOCK, EXCLUSIVE_TRYLOCK]
            then (e\<lparr>m_lock_val := copy_fl (ls m) (m_lock_val e),
                    m_lock_state := if op_code m < req_val SHARED_TRYLOCK then EXCLUSIVE_TICKETED
                                    else SHARED_TICKETED\<rparr>, res1, op_ret m, [])
            else (e, res1\<lparr>w1 := mk32 (fl_m_exclusive (m_lock_val e)) (fl_m_shared (m_lock_val e))\<rparr>, op_ret m, []))
         else if op_ret m = DLOCK_FAIL then
           (e\<lparr>m_lock_state := LOCK_INITIALIZED, m_ref_count := 0\<rparr>, res, op_ret m, [])
         else (e, res, op_ret m, []))"

definition async_update_state_with_cmd_msg ::
  "lock_cmd_msg option \<Rightarrow> lock_state \<Rightarrow> lock_entry_c \<Rightarrow> update_res" where
  "async_update_state_with_cmd_msg p res e =
    (case m_lock_type e of
       DLOCK_ATOMIC \<Rightarrow> atomic_async_update_state_with_cmd_msg p res e
     | DLOCK_RW \<Rightarrow> rw_async_update_state_with_cmd_msg p res e
     | DLOCK_FAIR \<Rightarrow> fair_async_update_state_with_cmd_msg p res e)"

subsection \<open>Recovery messages\<close>

record update_lock_body =
  ul_lock_id :: u32
  ul_lock_type :: u32
  ul_lease_time :: u32
  ul_offset :: u32
  ul_desc_len :: nat
  ul_ls :: lock_state
  ul_desc :: "u8 list"

definition not_held :: "lock_entry_c \<Rightarrow> bool" where
  "not_held e \<longleftrightarrow> m_lock_state e = UNLOCKED \<or> m_lock_state e = LOCK_INITIALIZED"

definition set_rcnt :: "6 word \<Rightarrow> u32 \<Rightarrow> u32" where
  "set_rcnt n t = mk_t_value (bs_rms t) (bs_rflag t) (bs_rsvd t) n"

definition fill_update_msg :: "lock_entry_c \<Rightarrow> update_lock_body \<Rightarrow> update_lock_body" where
  "fill_update_msg e b =
    (let v0 = (if not_held e then clear_base (ul_ls b) else copy_base (m_lock_val e) (ul_ls b));
         v1 = v0\<lparr>w2 := if not_held e then 0 else fl_time_out (m_lock_val e)\<rparr>;
         v2 = v1\<lparr>w3 := fl_t_value (m_lock_val e)\<rparr>;
         v3 = (if m_lock_type e = DLOCK_FAIR then
                 (let a = (if m_lock_state e \<noteq> SHARED_TICKETED then v2
                           else set_fl_m_shared (fl_m_shared v2 + 1) v2);
                      c = (if m_lock_state e \<noteq> EXCLUSIVE_TICKETED then a
                           else set_fl_m_exclusive (fl_m_exclusive a + 1) a)
                  in c\<lparr>w3 := set_rcnt (if m_lock_state e = SHARED_LOCKED then 1 else 0) (fl_t_value c)\<rparr>)
               else v2)
     in b\<lparr>ul_lock_id := m_lock_id e, ul_lock_type := ucast (lock_type_val (m_lock_type e)),
          ul_offset := m_lock_offset e, ul_lease_time := m_lease_time e,
          ul_desc_len := length (m_lock_desc e), ul_desc := m_lock_desc e, ul_ls := v3\<rparr>)"

definition lock_update :: "update_lock_body \<Rightarrow> lock_entry_c \<Rightarrow> lock_entry_c" where
  "lock_update b e = e\<lparr>m_lock_id := ul_lock_id b, m_lock_offset := ul_offset b, m_lock_updated := True\<rparr>"

definition clear_lock_val :: "lock_entry_c \<Rightarrow> lock_entry_c" where
  "clear_lock_val e = e\<lparr>m_lock_val := (clear_base (m_lock_val e))\<lparr>w2 := 0, w3 := 0\<rparr>\<rparr>"

end
