(* ===== verification/DLock_Api.thy ===== *)
theory DLock_Api
  imports DLock_Client
begin

section \<open>The client's data-path API\<close>

text \<open>
  Class \<open>dlock_client\<close>, data path (\<^verbatim>\<open>client/dlock_client_dp.cpp\<close>): \<open>trylock\<close>, \<open>unlock\<close>,
  \<open>lock_extend\<close>, their batch forms and the asynchronous requests, over the map of clients
  and their lock entries.  The transport is a parameter: \<open>send\<close> takes the commands of one
  message and the state of the world, and returns the new world with either the commands of
  the reply or the failure (status and counter) that encryption, sending, receiving or
  decryption ended in.  The shared-mutex sections only protect map look-ups and are not
  represented.
\<close>

datatype net_reply = Net_Fail dlock_status debug_stats_code | Net_Reply "lock_cmd_msg list"

type_synonym 'w transport = "lock_cmd_msg list \<Rightarrow> 'w \<Rightarrow> 'w \<times> net_reply"

record client_entry_c =
  m_client_id :: u32
  m_lock_map :: "u32 \<Rightarrow> lock_entry_c option"
  m_async_flag :: bool
  m_async_id :: u32
  m_async_op :: lock_ops
  m_async_start :: int
  c_stats :: "debug_stats_code \<Rightarrow> nat"
  m_next_message_id :: u16
  m_object_map :: "u32 \<Rightarrow> u32 option"

record dlock_client =
  m_is_inited :: bool
  m_client_map :: "u32 \<Rightarrow> client_entry_c option"

definition c_bump :: "debug_stats_code list \<Rightarrow> client_entry_c \<Rightarrow> client_entry_c" where
  "c_bump cs c = c\<lparr>c_stats := fold (\<lambda>k f. f(k := f k + 1)) cs (c_stats c)\<rparr>"

definition generate_message_id :: "client_entry_c \<Rightarrow> client_entry_c \<times> u16" where
  "generate_message_id c = (c\<lparr>m_next_message_id := m_next_message_id c + 1\<rparr>, m_next_message_id c)"

definition put_entry :: "u32 \<Rightarrow> lock_entry_c \<Rightarrow> client_entry_c \<Rightarrow> client_entry_c" where
  "put_entry lock_id e c = c\<lparr>m_lock_map := (m_lock_map c)(lock_id := Some e)\<rparr>"

subsection \<open>Exchanging commands\<close>

text \<open>The first ten bytes of the command: magic number, version, message id, type, code.\<close>

definition check_resp_lock_cmd_msg :: "lock_cmd_msg \<Rightarrow> lock_cmd_msg \<Rightarrow> bool" where
  "check_resp_lock_cmd_msg req resp \<longleftrightarrow>
     magic_no req = magic_no resp \<and> version req = version resp \<and> message_id req = message_id resp \<and>
     msg_lock_type req = msg_lock_type resp \<and> op_code req = op_code resp \<and>
     lock_offset resp = lock_offset req"

definition check_batch_resp_lock_cmd_msg :: "lock_cmd_msg list \<Rightarrow> lock_cmd_msg list \<Rightarrow> bool" where
  "check_batch_resp_lock_cmd_msg reqs resps \<longleftrightarrow> list_all2 check_resp_lock_cmd_msg reqs resps"

definition xchg_batch_lock_cmd_msg :: "'w transport \<Rightarrow> lock_cmd_msg list \<Rightarrow> client_entry_c \<Rightarrow> 'w \<Rightarrow>
    client_entry_c \<times> 'w \<times> dlock_status \<times> lock_cmd_msg list" where
  "xchg_batch_lock_cmd_msg send reqs c w =
    (case send reqs w of
       (w', Net_Fail st k) \<Rightarrow> (c_bump [k] c, w', st, [])
     | (w', Net_Reply resps) \<Rightarrow>
         if length resps \<noteq> length reqs then (c_bump [DEBUG_STATS_BAD_RESPONSE] c, w', DLOCK_BAD_RESPONSE, [])
         else if \<not> check_batch_resp_lock_cmd_msg reqs resps
         then (c_bump [DEBUG_STATS_BAD_RESPONSE] c, w', DLOCK_BAD_RESPONSE, [])
         else (c, w', DLOCK_SUCCESS, resps))"

definition xchg_cmd_msg :: "'w transport \<Rightarrow> lock_cmd_msg \<Rightarrow> client_entry_c \<Rightarrow> 'w \<Rightarrow>
    client_entry_c \<times> 'w \<times> dlock_status \<times> lock_cmd_msg option" where
  "xchg_cmd_msg send req c w =
    (case send [req] w of
       (w', Net_Fail st k) \<Rightarrow> (c_bump [k] c, w', st, None)
     | (w', Net_Reply [resp]) \<Rightarrow>
         if check_resp_lock_cmd_msg req resp then (c, w', DLOCK_SUCCESS, Some resp)
         else (c_bump [DEBUG_STATS_BAD_RESPONSE] c, w', DLOCK_BAD_RESPONSE, None)
     | (w', Net_Reply _) \<Rightarrow> (c_bump [DEBUG_STATS_BAD_RESPONSE] c, w', DLOCK_BAD_RESPONSE, None))"

subsection \<open>trylock\<close>

definition is_extend :: "lock_cmd_msg \<Rightarrow> bool" where
  "is_extend m \<longleftrightarrow> op_code m = req_val EXCLUSIVE_LOCK_EXTEND \<or> op_code m = req_val SHARED_LOCK_EXTEND"

definition reset_on_fail :: "lock_cmd_msg \<Rightarrow> lock_entry_c \<Rightarrow> lock_entry_c" where
  "reset_on_fail r e = e\<lparr>m_lock_state := if op_ret r = DLOCK_FAIL then LOCK_INITIALIZED else m_lock_state e,
     m_ref_count := if op_ret r = DLOCK_FAIL then 0 else m_ref_count e\<rparr>"

definition trans_trylock_op_to_extend ::
  "u32 \<Rightarrow> lock_entry_c \<Rightarrow> lock_cmd_msg \<Rightarrow> lock_state \<Rightarrow> client_entry_c \<Rightarrow>
   client_entry_c \<times> lock_state \<times> dlock_status" where
  "trans_trylock_op_to_extend lock_id e r res c =
    (let e1 = reset_on_fail r e;
         e2 = (if op_ret r = DLOCK_NOT_READY then e1\<lparr>m_ref_count := m_ref_count e1 - 1\<rparr> else e1) in
     if m_lock_type e2 \<noteq> DLOCK_FAIR \<and> op_ret r \<noteq> DLOCK_SUCCESS
     then (c_bump [DEBUG_STATS_EINVAL_LOCK_RET] (put_entry lock_id e2 c), res, op_ret r)
     else
       (let (e3, res', ret, cs) = update_state_with_cmd_msg (Some r) res e2
        in (c_bump cs (put_entry lock_id e3 c), res',
            if ret = DLOCK_SUCCESS then DLOCK_ALREADY_LOCKED else ret)))"

definition trylock_client :: "'w transport \<Rightarrow> u32 \<Rightarrow> lock_request \<Rightarrow> lock_state \<Rightarrow> client_entry_c \<Rightarrow> 'w \<Rightarrow>
    client_entry_c \<times> 'w \<times> lock_state \<times> dlock_status" where
  "trylock_client send client_id req res c w =
    (if m_async_flag c then (c_bump [DEBUG_STATS_EASYNC] c, w, res, DLOCK_EASYNC)
     else case m_lock_map c (req_lock_id req) of
       None \<Rightarrow> (c_bump [DEBUG_STATS_LOCK_NOT_GET] c, w, res, DLOCK_LOCK_NOT_GET)
     | Some e \<Rightarrow>
         if m_lock_type e = DLOCK_ATOMIC \<and> req_lock_op req \<noteq> LOCK_EXCLUSIVE
         then (c_bump [DEBUG_STATS_EINVAL_LOCK_OP] c, w, res, DLOCK_EINVAL)
         else if expire_time req = 0 then
           (let (e', res', ret, cs) = update_state_with_cmd_msg None res e
            in (c_bump cs (put_entry (req_lock_id req) e' c), w, res', ret))
         else
           (let (c1, mid) = generate_message_id c;
                (e1, m, ret, cs) = fill_cmd_msg client_id mid req e zero_msg;
                c2 = c_bump cs (put_entry (req_lock_id req) e1 c1) in
            if ret \<noteq> DLOCK_SUCCESS then
              (if ret = DLOCK_ALREADY_LOCKED then
                 (let (e2, res', _, cs') = update_state_with_cmd_msg None res e1
                  in (c_bump cs' (put_entry (req_lock_id req) e2 c2), w, res', ret))
               else (c2, w, res, if ret = DLOCK_DONE then DLOCK_SUCCESS else ret))
            else
              (let (c3, w', ret2, r) = xchg_cmd_msg send m c2 w in
               case r of
                 None \<Rightarrow>
                   (put_entry (req_lock_id req)
                      (e1\<lparr>m_ref_count := m_ref_count e1 - (if is_extend m then 1 else 0)\<rparr>) c3, w', res, ret2)
               | Some r' \<Rightarrow>
                   if is_extend m then
                     (let (c4, res', ret3) = trans_trylock_op_to_extend (req_lock_id req) e1 r' res c3
                      in (c4, w', res', ret3))
                   else if m_lock_type e1 \<noteq> DLOCK_FAIR \<and> op_ret r' \<noteq> DLOCK_SUCCESS then
                     (c_bump [DEBUG_STATS_EINVAL_LOCK_RET] c3, w', res, op_ret r')
                   else
                     (let (e2, res', ret3, cs') = update_state_with_cmd_msg (Some r') res e1
                      in (c_bump cs' (put_entry (req_lock_id req) e2 c3), w', res', ret3)))))"

subsection \<open>unlock\<close>

definition unlock_req :: "u32 \<Rightarrow> lock_request" where
  "unlock_req lock_id = \<lparr>req_lock_id = lock_id, req_lock_op = UNLOCK, expire_time = 0\<rparr>"

definition unlock_client :: "'w transport \<Rightarrow> u32 \<Rightarrow> u32 \<Rightarrow> lock_state \<Rightarrow> client_entry_c \<Rightarrow> 'w \<Rightarrow>
    client_entry_c \<times> 'w \<times> lock_state \<times> dlock_status" where
  "unlock_client send client_id lock_id res c w =
    (if m_async_flag c then (c_bump [DEBUG_STATS_EASYNC] c, w, res, DLOCK_EASYNC)
     else case m_lock_map c lock_id of
       None \<Rightarrow> (c_bump [DEBUG_STATS_LOCK_NOT_GET] c, w, res, DLOCK_LOCK_NOT_GET)
     | Some e \<Rightarrow>
         if m_ref_count e = 0 \<and> m_lock_type e \<noteq> DLOCK_FAIR
         then (c_bump [DEBUG_STATS_ALREADY_UNLOCKED] c, w, res, DLOCK_ALREADY_UNLOCKED)
         else if m_ref_count e > 1
         then (c_bump [DEBUG_STATS_ALREADY_LOCKED] (put_entry lock_id (e\<lparr>m_ref_count := m_ref_count e - 1\<rparr>) c),
               w, res, DLOCK_ALREADY_LOCKED)
         else
           (let (c1, mid) = generate_message_id c;
                (e1, m, ret, cs) = fill_cmd_msg client_id mid (unlock_req lock_id) e zero_msg;
                c2 = c_bump cs (put_entry lock_id e1 c1) in
            if ret \<noteq> DLOCK_SUCCESS then (c2, w, res, if ret = DLOCK_DONE then DLOCK_SUCCESS else ret)
            else
              (let e2 = clear_lock_val e1;
                   (c3, w', ret2, r) = xchg_cmd_msg send m (put_entry lock_id e2 c2) w in
               case r of
                 None \<Rightarrow> (put_entry lock_id (e2\<lparr>m_ref_count := m_ref_count e2 + 1\<rparr>) c3, w', res, ret2)
               | Some r' \<Rightarrow>
                   if op_ret r' = DLOCK_NOT_READY
                   then (c_bump [DEBUG_STATS_NOT_READY]
                           (put_entry lock_id (e2\<lparr>m_ref_count := m_ref_count e2 + 1\<rparr>) c3), w', res, op_ret r')
                   else if m_lock_type e2 \<noteq> DLOCK_FAIR \<and> op_ret r' \<noteq> DLOCK_SUCCESS
                   then (c_bump [DEBUG_STATS_EINVAL_LOCK_RET]
                           (put_entry lock_id (e2\<lparr>m_lock_state := LOCK_INITIALIZED, m_ref_count := 0\<rparr>) c3),
                         w', res, DLOCK_FAIL)
                   else
                     (let (e3, res', ret3, cs') = update_state_with_cmd_msg (Some r') res e2
                      in (c_bump cs' (put_entry lock_id e3 c3), w', res', ret3)))))"

subsection \<open>lock_extend\<close>

definition lock_extend_client :: "'w transport \<Rightarrow> u32 \<Rightarrow> lock_request \<Rightarrow> lock_state \<Rightarrow> client_entry_c \<Rightarrow> 'w \<Rightarrow>
    client_entry_c \<times> 'w \<times> lock_state \<times> dlock_status" where
  "lock_extend_client send client_id req res c w =
    (if m_async_flag c then (c_bump [DEBUG_STATS_EASYNC] c, w, res, DLOCK_EASYNC)
     else case m_lock_map c (req_lock_id req) of
       None \<Rightarrow> (c_bump [DEBUG_STATS_LOCK_NOT_GET] c, w, res, DLOCK_LOCK_NOT_GET)
     | Some e \<Rightarrow>
         if m_ref_count e = 0 then (c_bump [DEBUG_STATS_EINVAL_LOCK_OP] c, w, res, DLOCK_EINVAL)
         else
           (let (c1, mid) = generate_message_id c;
                (e1, m, ret, cs) = fill_cmd_msg client_id mid req e zero_msg;
                c2 = c_bump cs (put_entry (req_lock_id req) e1 c1) in
            if ret \<noteq> DLOCK_SUCCESS then (c2, w, res, ret)
            else
              (let (c3, w', ret2, r) = xchg_cmd_msg send m c2 w in
               case r of
                 None \<Rightarrow> (c3, w', res, ret2)
               | Some r' \<Rightarrow>
                   if op_ret r' = DLOCK_NOT_READY
                   then (c_bump [DEBUG_STATS_NOT_READY] c3, w', res, op_ret r')
                   else if m_lock_type e1 \<noteq> DLOCK_FAIR \<and> op_ret r' \<noteq> DLOCK_SUCCESS
                   then (put_entry (req_lock_id req) (e1\<lparr>m_lock_state := LOCK_INITIALIZED, m_ref_count := 0\<rparr>) c3,
                         w', res, op_ret r')
                   else
                     (let (e2, res', ret3, cs') = update_state_with_cmd_msg (Some r') res e1
                      in (c_bump cs' (put_entry (req_lock_id req) e2 c3), w', res', ret3)))))"

subsection \<open>The entry points\<close>

text \<open>Every entry point first checks that the manager is initialised and looks the client up.\<close>

definition with_client :: "u32 \<Rightarrow> (client_entry_c \<Rightarrow> 'w \<Rightarrow> client_entry_c \<times> 'w \<times> 'r \<times> dlock_status) \<Rightarrow>
    'r \<Rightarrow> dlock_client \<Rightarrow> 'w \<Rightarrow> dlock_client \<times> 'w \<times> 'r \<times> dlock_status" where
  "with_client client_id f res d w =
    (if \<not> m_is_inited d then (d, w, res, DLOCK_CLIENTMGR_NOT_INIT)
     else case m_client_map d client_id of
       None \<Rightarrow> (d, w, res, DLOCK_CLIENT_NOT_INIT)
     | Some c \<Rightarrow>
         (let (c', w', res', ret) = f c w
          in (d\<lparr>m_client_map := (m_client_map d)(client_id := Some c')\<rparr>, w', res', ret)))"

definition trylock :: "'w transport \<Rightarrow> u32 \<Rightarrow> lock_request \<Rightarrow> lock_state \<Rightarrow> dlock_client \<Rightarrow> 'w \<Rightarrow>
    dlock_client \<times> 'w \<times> lock_state \<times> dlock_status" where
  "trylock send client_id req res = with_client client_id (trylock_client send client_id req res) res"

definition unlock :: "'w transport \<Rightarrow> u32 \<Rightarrow> u32 \<Rightarrow> lock_state \<Rightarrow> dlock_client \<Rightarrow> 'w \<Rightarrow>
    dlock_client \<times> 'w \<times> lock_state \<times> dlock_status" where
  "unlock send client_id lock_id res = with_client client_id (unlock_client send client_id lock_id res) res"

definition lock_extend :: "'w transport \<Rightarrow> u32 \<Rightarrow> lock_request \<Rightarrow> lock_state \<Rightarrow> dlock_client \<Rightarrow> 'w \<Rightarrow>
    dlock_client \<times> 'w \<times> lock_state \<times> dlock_status" where
  "lock_extend send client_id req res = with_client client_id (lock_extend_client send client_id req res) res"

subsection \<open>Batch operations\<close>

text \<open>
  A batch builds one message out of the requests that need the server.  \<open>op_res\<close> is the array
  of results, \<open>m_batch_bitmap\<close> the positions of the requests sent, \<open>buf\<close> the transmit buffer
  (not cleared by the code) as an array of commands.  \<open>batch_construct\<close> is the loop the three
  construct functions share; their bodies differ in the step for one request, which either
  finishes it locally or returns the command to send.  A command that was filled in part stays
  in the buffer, where the next request overwrites it.
\<close>

type_synonym lock_op_res = "lock_state \<times> dlock_status"

datatype batch_step = Local lock_op_res lock_cmd_msg | Send lock_cmd_msg

fun batch_construct :: "('r \<Rightarrow> lock_op_res \<Rightarrow> lock_cmd_msg \<Rightarrow> client_entry_c \<Rightarrow> client_entry_c \<times> batch_step) \<Rightarrow>
    (nat \<Rightarrow> lock_cmd_msg) \<Rightarrow> nat \<Rightarrow> 'r list \<Rightarrow> lock_op_res list \<Rightarrow> client_entry_c \<Rightarrow>
    client_entry_c \<times> lock_op_res list \<times> bool list \<times> lock_cmd_msg list" where
  "batch_construct f buf n (r # rs) (o1 # os) c =
    (case f r o1 (buf n) c of
       (c', Local o' m) \<Rightarrow>
         (let (c'', os', bm, cmds) = batch_construct f (buf(n := m)) n rs os c' in (c'', o' # os', False # bm, cmds))
     | (c', Send m) \<Rightarrow>
         (let (c'', os', bm, cmds) = batch_construct f buf (Suc n) rs os c' in (c'', o1 # os', True # bm, m # cmds)))"
| "batch_construct f buf n _ os c = (c, os, [], [])"

text \<open>The \<open>for_each_set_bit\<close> loops: visit the positions sent, consuming the replies in order.\<close>

fun batch_update :: "('r \<Rightarrow> lock_cmd_msg \<Rightarrow> lock_op_res \<Rightarrow> client_entry_c \<Rightarrow> client_entry_c \<times> lock_op_res) \<Rightarrow>
    'r list \<Rightarrow> bool list \<Rightarrow> lock_op_res list \<Rightarrow> lock_cmd_msg list \<Rightarrow> client_entry_c \<Rightarrow>
    client_entry_c \<times> lock_op_res list" where
  "batch_update f (r # rs) (True # bm) (o1 # os) (m # cmds) c =
    (let (c', o') = f r m o1 c; (c'', os') = batch_update f rs bm os cmds c' in (c'', o' # os'))"
| "batch_update f (r # rs) (False # bm) (o1 # os) cmds c =
    (let (c'', os') = batch_update f rs bm os cmds c in (c'', o1 # os'))"
| "batch_update f _ _ os _ c = (c, os)"

definition batch_set_op_ret :: "dlock_status \<Rightarrow> bool list \<Rightarrow> lock_op_res list \<Rightarrow> lock_op_res list" where
  "batch_set_op_ret st bm os = map2 (\<lambda>b o1. if b then (fst o1, st) else o1) bm os"

definition batch_trylock_step :: "u16 \<Rightarrow> lock_request \<Rightarrow> lock_op_res \<Rightarrow> lock_cmd_msg \<Rightarrow> client_entry_c \<Rightarrow>
    client_entry_c \<times> batch_step" where
  "batch_trylock_step mid req o1 m0 c =
    (case m_lock_map c (req_lock_id req) of
       None \<Rightarrow> (c_bump [DEBUG_STATS_LOCK_NOT_GET] c, Local (fst o1, DLOCK_LOCK_NOT_GET) m0)
     | Some e \<Rightarrow>
         if m_lock_type e = DLOCK_ATOMIC \<and> req_lock_op req \<noteq> LOCK_EXCLUSIVE
         then (c_bump [DEBUG_STATS_EINVAL_LOCK_OP] c, Local (fst o1, DLOCK_EINVAL) m0)
         else if expire_time req = 0 then
           (let (e', res', ret, cs) = update_state_with_cmd_msg None (fst o1) e
            in (c_bump cs (put_entry (req_lock_id req) e' c), Local (res', ret) m0))
         else
           (let (e1, m, ret, cs) = fill_cmd_msg (m_client_id c) mid req e m0;
                c1 = c_bump cs (put_entry (req_lock_id req) e1 c) in
            if ret = DLOCK_SUCCESS then (c1, Send m)
            else if ret = DLOCK_ALREADY_LOCKED then
              (let (e2, res', _, cs') = update_state_with_cmd_msg None (fst o1) e1
               in (c_bump cs' (put_entry (req_lock_id req) e2 c1), Local (res', ret) m))
            else (c1, Local (fst o1, if ret = DLOCK_DONE then DLOCK_SUCCESS else ret) m)))"

definition batch_trylock_update_state :: "lock_request \<Rightarrow> lock_cmd_msg \<Rightarrow> lock_op_res \<Rightarrow> client_entry_c \<Rightarrow>
    client_entry_c \<times> lock_op_res" where
  "batch_trylock_update_state req r o1 c =
    (case m_lock_map c (req_lock_id req) of
       None \<Rightarrow> (c_bump [DEBUG_STATS_LOCK_NOT_GET] c, (fst o1, DLOCK_LOCK_NOT_GET))
     | Some e \<Rightarrow>
         (let e1 = (if is_extend r then reset_on_fail r e else e) in
          if m_lock_type e1 \<noteq> DLOCK_FAIR \<and> op_ret r \<noteq> DLOCK_SUCCESS
          then (put_entry (req_lock_id req) e1 c, (fst o1, op_ret r))
          else
            (let (e2, res', ret, cs) = update_state_with_cmd_msg (Some r) (fst o1) e1
             in (c_bump cs (put_entry (req_lock_id req) e2 c),
                 (res', if is_extend r \<and> ret = DLOCK_SUCCESS then DLOCK_ALREADY_LOCKED else ret)))))"

text \<open>
  On a failed exchange the reference counts are put back.  The code's pointer into the transmit
  buffer moves only past requests whose lock has vanished, so the loop looks at the head of
  the list again and again.
\<close>

fun batch_trylock_update_ref_count_on_bad_resp ::
  "lock_request list \<Rightarrow> bool list \<Rightarrow> lock_cmd_msg list \<Rightarrow> client_entry_c \<Rightarrow> client_entry_c" where
  "batch_trylock_update_ref_count_on_bad_resp (req # rs) (True # bm) (m # cmds) c =
    (case m_lock_map c (req_lock_id req) of
       None \<Rightarrow> batch_trylock_update_ref_count_on_bad_resp rs bm cmds (c_bump [DEBUG_STATS_LOCK_NOT_GET] c)
     | Some e \<Rightarrow>
         batch_trylock_update_ref_count_on_bad_resp rs bm (m # cmds)
           (if is_extend m then put_entry (req_lock_id req) (e\<lparr>m_ref_count := m_ref_count e - 1\<rparr>) c else c))"
| "batch_trylock_update_ref_count_on_bad_resp (req # rs) (False # bm) cmds c =
    batch_trylock_update_ref_count_on_bad_resp rs bm cmds c"
| "batch_trylock_update_ref_count_on_bad_resp _ _ _ c = c"

text \<open>
  The part of the three batch calls that is the same: construct, exchange, update.
  \<open>urma_buf\<close> is the transmit buffer with its old contents, or \<open>None\<close> if there is none free.
\<close>

definition batch_call ::
  "(u16 \<Rightarrow> 'r \<Rightarrow> lock_op_res \<Rightarrow> lock_cmd_msg \<Rightarrow> client_entry_c \<Rightarrow> client_entry_c \<times> batch_step) \<Rightarrow>
   ('r \<Rightarrow> lock_cmd_msg \<Rightarrow> lock_op_res \<Rightarrow> client_entry_c \<Rightarrow> client_entry_c \<times> lock_op_res) \<Rightarrow>
   ('r list \<Rightarrow> bool list \<Rightarrow> lock_cmd_msg list \<Rightarrow> client_entry_c \<Rightarrow> client_entry_c) \<Rightarrow>
   'w transport \<Rightarrow> (nat \<Rightarrow> lock_cmd_msg) option \<Rightarrow> 'r list \<Rightarrow> lock_op_res list \<Rightarrow> client_entry_c \<Rightarrow> 'w \<Rightarrow>
   client_entry_c \<times> 'w \<times> lock_op_res list \<times> dlock_status" where
  "batch_call step upd bad send urma_buf reqs os c w =
    (if m_async_flag c then (c_bump [DEBUG_STATS_EASYNC] c, w, os, DLOCK_EASYNC)
     else case urma_buf of
       None \<Rightarrow> (c_bump [DEBUG_STATS_NO_URMA_BUF] c, w, os, DLOCK_ENOMEM)
     | Some buf \<Rightarrow>
         (let (c0, mid) = generate_message_id c;
              (c1, os1, bm, cmds) = batch_construct (step mid) buf 0 reqs os c0 in
          if cmds = [] then (c1, w, os1, DLOCK_SUCCESS)
          else
            (let (c2, w', ret, resps) = xchg_batch_lock_cmd_msg send cmds c1 w in
             if ret \<noteq> DLOCK_SUCCESS
             then (bad reqs bm cmds c2, w', batch_set_op_ret ret bm os1, DLOCK_SUCCESS)
             else (let (c3, os2) = batch_update upd reqs bm os1 resps c2 in (c3, w', os2, DLOCK_SUCCESS)))))"

definition batch_trylock where
  "batch_trylock send client_id urma_buf reqs os =
    with_client client_id (batch_call batch_trylock_step batch_trylock_update_state
      batch_trylock_update_ref_count_on_bad_resp send urma_buf reqs os) os"

definition batch_unlock_step :: "u16 \<Rightarrow> u32 \<Rightarrow> lock_op_res \<Rightarrow> lock_cmd_msg \<Rightarrow> client_entry_c \<Rightarrow>
    client_entry_c \<times> batch_step" where
  "batch_unlock_step mid lock_id o1 m0 c =
    (case m_lock_map c lock_id of
       None \<Rightarrow> (c_bump [DEBUG_STATS_LOCK_NOT_GET] c, Local (fst o1, DLOCK_LOCK_NOT_GET) m0)
     | Some e \<Rightarrow>
         if m_ref_count e = 0 \<and> m_lock_type e \<noteq> DLOCK_FAIR
         then (c_bump [DEBUG_STATS_ALREADY_UNLOCKED] c, Local (fst o1, DLOCK_ALREADY_UNLOCKED) m0)
         else if m_ref_count e > 1
         then (c_bump [DEBUG_STATS_ALREADY_LOCKED] (put_entry lock_id (e\<lparr>m_ref_count := m_ref_count e - 1\<rparr>) c),
               Local (fst o1, DLOCK_ALREADY_LOCKED) m0)
         else
           (let (e1, m, ret, cs) = fill_cmd_msg (m_client_id c) mid (unlock_req lock_id) e m0 in
            if ret \<noteq> DLOCK_SUCCESS
            then (c_bump cs (put_entry lock_id e1 c),
                  Local (fst o1, if ret = DLOCK_DONE then DLOCK_SUCCESS else ret) m)
            else (c_bump cs (put_entry lock_id (clear_lock_val e1) c), Send m)))"

definition batch_unlock_update_state :: "u32 \<Rightarrow> lock_cmd_msg \<Rightarrow> lock_op_res \<Rightarrow> client_entry_c \<Rightarrow>
    client_entry_c \<times> lock_op_res" where
  "batch_unlock_update_state lock_id r o1 c =
    (if op_ret r \<noteq> DLOCK_SUCCESS then (c, (fst o1, op_ret r))
     else case m_lock_map c lock_id of
       None \<Rightarrow> (c_bump [DEBUG_STATS_LOCK_NOT_GET] c, (fst o1, DLOCK_LOCK_NOT_GET))
     | Some e \<Rightarrow>
         (let (e1, res', ret, cs) = update_state_with_cmd_msg (Some r) (fst o1) e
          in (c_bump cs (put_entry lock_id e1 c), (res', ret))))"

fun batch_unlock_update_ref_count_on_bad_resp ::
  "u32 list \<Rightarrow> bool list \<Rightarrow> lock_cmd_msg list \<Rightarrow> client_entry_c \<Rightarrow> client_entry_c" where
  "batch_unlock_update_ref_count_on_bad_resp (lock_id # rs) (b # bm) cmds c =
    batch_unlock_update_ref_count_on_bad_resp rs bm cmds
      (if b then (case m_lock_map c lock_id of
           None \<Rightarrow> c_bump [DEBUG_STATS_LOCK_NOT_GET] c
         | Some e \<Rightarrow> put_entry lock_id (e\<lparr>m_ref_count := m_ref_count e + 1\<rparr>) c) else c)"
| "batch_unlock_update_ref_count_on_bad_resp _ _ _ c = c"

definition batch_unlock where
  "batch_unlock send client_id urma_buf ids os =
    with_client client_id (batch_call batch_unlock_step batch_unlock_update_state
      batch_unlock_update_ref_count_on_bad_resp send urma_buf ids os) os"

definition batch_lock_extend_step :: "u16 \<Rightarrow> lock_request \<Rightarrow> lock_op_res \<Rightarrow> lock_cmd_msg \<Rightarrow> client_entry_c \<Rightarrow>
    client_entry_c \<times> batch_step" where
  "batch_lock_extend_step mid req o1 m0 c =
    (case m_lock_map c (req_lock_id req) of
       None \<Rightarrow> (c_bump [DEBUG_STATS_LOCK_NOT_GET] c, Local (fst o1, DLOCK_LOCK_NOT_GET) m0)
     | Some e \<Rightarrow>
         if m_ref_count e = 0 then (c_bump [DEBUG_STATS_EINVAL_LOCK_OP] c, Local (fst o1, DLOCK_EINVAL) m0)
         else
           (let (e1, m, ret, cs) = fill_cmd_msg (m_client_id c) mid req e m0;
                c1 = c_bump cs (put_entry (req_lock_id req) e1 c)
            in if ret \<noteq> DLOCK_SUCCESS then (c1, Local (fst o1, ret) m) else (c1, Send m)))"

definition batch_lock_extend_update_state :: "lock_request \<Rightarrow> lock_cmd_msg \<Rightarrow> lock_op_res \<Rightarrow> client_entry_c \<Rightarrow>
    client_entry_c \<times> lock_op_res" where
  "batch_lock_extend_update_state req r o1 c =
    (case m_lock_map c (req_lock_id req) of
       None \<Rightarrow> (c_bump [DEBUG_STATS_LOCK_NOT_GET] c, (fst o1, DLOCK_LOCK_NOT_GET))
     | Some e \<Rightarrow>
         if op_ret r \<noteq> DLOCK_SUCCESS then (c, (fst o1, op_ret r))
         else
           (let (e1, res', ret, cs) = update_state_with_cmd_msg (Some r) (fst o1) e
            in (c_bump cs (put_entry (req_lock_id req) e1 c), (res', ret))))"

definition batch_lock_extend where
  "batch_lock_extend send client_id urma_buf reqs os =
    with_client client_id (batch_call batch_lock_extend_step batch_lock_extend_update_state
      (\<lambda>_ _ _ c. c) send urma_buf reqs os) os"

subsection \<open>Asynchronous requests\<close>

text \<open>
  \<open>post\<close> hands one command to the network; \<open>None\<close> is success, otherwise the status and counter
  of the failure (no memory, encryption, sending).  \<open>now\<close> is the time in microseconds.
\<close>

type_synonym 'w poster = "lock_cmd_msg \<Rightarrow> 'w \<Rightarrow> 'w \<times> (dlock_status \<times> debug_stats_code) option"

definition async_request :: "'w poster \<Rightarrow> int \<Rightarrow> lock_request \<Rightarrow> lock_entry_c \<Rightarrow> client_entry_c \<Rightarrow> 'w \<Rightarrow>
    client_entry_c \<times> 'w \<times> dlock_status" where
  "async_request post now req e c w =
    (let (c1, mid) = generate_message_id c;
         (e1, m, ret, cs) = async_fill_cmd_msg (m_client_id c1) mid req e zero_msg;
         c2 = c_bump cs (put_entry (req_lock_id req) e1 c1) in
     if ret \<noteq> DLOCK_SUCCESS then (c2, w, if ret = DLOCK_DONE then DLOCK_SUCCESS else ret)
     else
       (let e2 = (if req_lock_op req = UNLOCK then clear_lock_val e1 else e1);
            c3 = put_entry (req_lock_id req) e2 c2 in
        case post m w of
          (w', Some (st, k)) \<Rightarrow> (c_bump [k] c3, w', st)
        | (w', None) \<Rightarrow>
            (c3\<lparr>m_async_id := m_lock_id e2, m_async_op := req_lock_op req, m_async_flag := True,
                m_async_start := now\<rparr>, w', DLOCK_SUCCESS)))"

definition async_lock_request :: "'w poster \<Rightarrow> int \<Rightarrow> u32 \<Rightarrow> lock_request \<Rightarrow> dlock_client \<Rightarrow> 'w \<Rightarrow>
    dlock_client \<times> 'w \<times> unit \<times> dlock_status" where
  "async_lock_request post now client_id req =
    with_client client_id
      (\<lambda>c w. if m_async_flag c then (c_bump [DEBUG_STATS_EASYNC] c, w, (), DLOCK_EASYNC)
             else case m_lock_map c (req_lock_id req) of
               None \<Rightarrow> (c_bump [DEBUG_STATS_LOCK_NOT_GET] c, w, (), DLOCK_LOCK_NOT_GET)
             | Some e \<Rightarrow> (let (c', w', ret) = async_request post now req e c w in (c', w', (), ret))) ()"

definition trylock_result_check :: "lock_cmd_msg \<Rightarrow> lock_state \<Rightarrow> client_entry_c \<Rightarrow>
    client_entry_c \<times> lock_state \<times> dlock_status" where
  "trylock_result_check r res c =
    (case m_lock_map c (m_async_id c) of
       None \<Rightarrow> (c_bump [DEBUG_STATS_LOCK_NOT_GET] c, res, DLOCK_LOCK_NOT_GET)
     | Some e \<Rightarrow>
         (let (e1, res', ret, cs) = async_update_state_with_cmd_msg (Some r) res e in
          if is_extend r \<and> ret = DLOCK_SUCCESS
          then (c_bump cs (put_entry (m_async_id c) (e1\<lparr>m_ref_count := m_ref_count e1 + 1\<rparr>) c), res', DLOCK_ALREADY_LOCKED)
          else (c_bump cs (put_entry (m_async_id c) e1 c), res', ret)))"

definition unlock_or_extend_result_check :: "lock_cmd_msg \<Rightarrow> lock_state \<Rightarrow> client_entry_c \<Rightarrow>
    client_entry_c \<times> lock_state \<times> dlock_status" where
  "unlock_or_extend_result_check r res c =
    (case m_lock_map c (m_async_id c) of
       None \<Rightarrow> (c_bump [DEBUG_STATS_LOCK_NOT_GET] c, res, DLOCK_LOCK_NOT_GET)
     | Some e \<Rightarrow>
         (let (e1, res', ret, cs) = async_update_state_with_cmd_msg (Some r) res e
          in (c_bump cs (put_entry (m_async_id c) e1 c), res', ret)))"

definition g_async_check :: "lock_ops \<Rightarrow> lock_cmd_msg \<Rightarrow> lock_state \<Rightarrow> client_entry_c \<Rightarrow>
    client_entry_c \<times> lock_state \<times> dlock_status" where
  "g_async_check k = (if k = LOCK_EXCLUSIVE \<or> k = LOCK_SHARED then trylock_result_check
                      else unlock_or_extend_result_check)"

definition LOCK_TIMEOUT :: int where
  "LOCK_TIMEOUT = 5000000"

text \<open>What polling for the reply found: nothing yet, a failure or a message of the wrong
  length, a message that does not decrypt, a command.\<close>

datatype recv_result = Recv_Again | Recv_Bad | Recv_Undecryptable dlock_status | Recv_Cmd lock_cmd_msg

definition async_result_check :: "('w \<Rightarrow> 'w \<times> recv_result) \<Rightarrow> int \<Rightarrow> u32 \<Rightarrow> lock_state \<Rightarrow> dlock_client \<Rightarrow> 'w \<Rightarrow>
    dlock_client \<times> 'w \<times> lock_state \<times> dlock_status" where
  "async_result_check recv now client_id res =
    with_client client_id
      (\<lambda>c w. if \<not> m_async_flag c then (c_bump [DEBUG_STATS_NO_ASYNC] c, w, res, DLOCK_NO_ASYNC)
             else case recv w of
               (w', Recv_Again) \<Rightarrow>
                 if now - m_async_start c > LOCK_TIMEOUT
                 then (c_bump [DEBUG_STATS_ETIMEOUT] (c\<lparr>m_async_flag := False\<rparr>), w', res, DLOCK_ETIMEOUT)
                 else (c, w', res, DLOCK_ASYNC_AGAIN)
             | (w', Recv_Bad) \<Rightarrow>
                 (c_bump [DEBUG_STATS_BAD_RESPONSE] (c\<lparr>m_async_flag := False\<rparr>), w', res, DLOCK_BAD_RESPONSE)
             | (w', Recv_Undecryptable st) \<Rightarrow>
                 (c_bump [DEBUG_STATS_DECRYPT_FAIL] (c\<lparr>m_async_flag := False\<rparr>), w', res, st)
             | (w', Recv_Cmd r) \<Rightarrow>
                 (let (c', res', ret) = g_async_check (m_async_op c) r res (c\<lparr>m_async_flag := False\<rparr>)
                  in (c', w', res', ret))) res"

subsection \<open>Atomic objects\<close>

text \<open>
  The 64-bit atomic objects live in the server's memory and are updated by one-sided fabric
  atomics, which the jetty manager posts: \<open>faa\<close>, \<open>cas\<close> and \<open>rd\<close> are that interface, each at an
  offset of the imported segment.
\<close>

definition with_object :: "(u32 \<Rightarrow> 'w \<Rightarrow> 'w \<times> dlock_status \<times> 'r) \<Rightarrow> (dlock_status \<Rightarrow> debug_stats_code list) \<Rightarrow>
    u32 \<Rightarrow> 'r \<Rightarrow> client_entry_c \<Rightarrow> 'w \<Rightarrow> client_entry_c \<times> 'w \<times> 'r \<times> dlock_status" where
  "with_object f cnt obj_id res c w =
    (if m_async_flag c then (c_bump [DEBUG_STATS_EASYNC] c, w, res, DLOCK_EASYNC)
     else case m_object_map c obj_id of
       None \<Rightarrow> (c_bump [DEBUG_STATS_OBJECT_NOT_GET] c, w, res, DLOCK_OBJECT_NOT_GET)
     | Some off \<Rightarrow> (let (w', st, v) = f off w in (c_bump (cnt st) c, w', v, st)))"

definition net_fail_stats :: "dlock_status \<Rightarrow> debug_stats_code list" where
  "net_fail_stats st = (if st \<noteq> DLOCK_SUCCESS then [DEBUG_STATS_NETWORK_FAIL] else [])"

definition cas_stats :: "dlock_status \<Rightarrow> debug_stats_code list" where
  "cas_stats st = (if st = DLOCK_SUCCESS then []
     else (if st \<noteq> DLOCK_OBJECT_CAS_FAILED then [DEBUG_STATS_NETWORK_FAIL] else []) @ [DEBUG_STATS_OBJECT_CAS_FAILED])"

definition atomic64_faa where
  "atomic64_faa faa client_id obj_id (add_val :: u64) (res :: u64) =
    with_client client_id (with_object (\<lambda>off. faa off add_val) net_fail_stats obj_id res) res"

definition atomic64_cas where
  "atomic64_cas cas client_id obj_id (cmp_val :: u64) (swap_val :: u64) =
    with_client client_id (with_object (\<lambda>off w. let (w', st) = cas off cmp_val swap_val w in (w', st, ())) cas_stats obj_id ()) ()"

definition atomic64_get_snapshot where
  "atomic64_get_snapshot rd client_id obj_id (res :: u64) =
    with_client client_id (with_object (\<lambda>off. rd off) net_fail_stats obj_id res) res"

subsection \<open>Client maps through the helpers\<close>

lemma c_bump_simps [simp]:
  "m_lock_map (c_bump cs c) = m_lock_map c" "m_client_id (c_bump cs c) = m_client_id c"
  "m_async_flag (c_bump cs c) = m_async_flag c"
  by (simp_all add: c_bump_def)

lemma put_entry_simps [simp]:
  "m_lock_map (put_entry i e c) = (m_lock_map c)(i := Some e)" "m_client_id (put_entry i e c) = m_client_id c"
  "m_async_flag (put_entry i e c) = m_async_flag c"
  by (simp_all add: put_entry_def)

lemma xchg_cmd_msg_cases:
  assumes "xchg_cmd_msg send m c w = (c', w', ret, r)"
  obtains rep where "send [m] w = (w', rep)" "m_lock_map c' = m_lock_map c"
    "\<And>r'. r = Some r' \<Longrightarrow> rep = Net_Reply [r'] \<and> check_resp_lock_cmd_msg m r' \<and> ret = DLOCK_SUCCESS"
    "r = None \<Longrightarrow> \<forall>r'. rep = Net_Reply [r'] \<longrightarrow> \<not> check_resp_lock_cmd_msg m r'"
proof -
  obtain w1 rep where "send [m] w = (w1, rep)" by fastforce
  with assms show thesis
    by (intro that[of rep])
      (auto simp: xchg_cmd_msg_def split: net_reply.splits list.splits if_splits)
qed

lemma generate_message_id_map: "generate_message_id c = (c1, mid) \<Longrightarrow> m_lock_map c1 = m_lock_map c"
  by (auto simp: generate_message_id_def)

lemma xchg_cmd_msg_map: "xchg_cmd_msg send m c w = (c', w', ret, r) \<Longrightarrow> m_lock_map c' = m_lock_map c"
  using xchg_cmd_msg_cases by metis

lemmas client_call_simps = Let_def generate_message_id_map xchg_cmd_msg_map

end
