(* ===== verification/DLock_System.thy ===== *)
theory DLock_System
  imports DLock_Api DLock_Server
begin

section \<open>Clients and server together\<close>

text \<open>
  The composition of the client's data path (\<open>DLock_Api\<close>) with the server's command handler
  (\<open>DLock_Server\<close>): the transport parameter of the client is the server's \<open>do_lock\<close>, with a
  clear-text channel that may lose requests.  The theory shows that a reply of the server is
  always accepted by the client's response check, and that read-write locks exclude each other
  end to end, from the clients' API calls to the bytes of the lock memory.
\<close>

subsection \<open>The server as a transport\<close>

definition clear_text :: "lock_cmd_msg list \<Rightarrow> (lock_cmd_msg \<times> lock_cmd_msg list) option" where
  "clear_text buf = (case buf of [] \<Rightarrow> None | m # rest \<Rightarrow> Some (m, rest))"

text \<open>\<open>up = False\<close> is a request that never arrives.\<close>

definition server_send :: "bool \<Rightarrow> int \<Rightarrow> int list \<Rightarrow> int \<Rightarrow> u32 \<Rightarrow> lock_memory transport" where
  "server_send up tv0 tvs tv1 c reqs s =
    (if \<not> up then (s, Net_Fail DLOCK_BAD_RESPONSE DEBUG_STATS_NETWORK_FAIL)
     else case do_lock clear_text Some (\<lambda>_. True) tv0 tvs tv1 c reqs 0 s of
       (s', _, None, _) \<Rightarrow> (s', Net_Fail DLOCK_BAD_RESPONSE DEBUG_STATS_NETWORK_FAIL)
     | (s', _, Some out, _) \<Rightarrow> (s', Net_Reply out))"

subsection \<open>Replies keep the header of the request\<close>

lemma check_resp_refl [simp]: "check_resp_lock_cmd_msg m m"
  by (simp add: check_resp_lock_cmd_msg_def)

lemma check_resp_upd [simp]:
  "check_resp_lock_cmd_msg m (m'\<lparr>ls := v\<rparr>) = check_resp_lock_cmd_msg m m'"
  "check_resp_lock_cmd_msg m (m'\<lparr>op_ret := r\<rparr>) = check_resp_lock_cmd_msg m m'"
  by (simp_all add: check_resp_lock_cmd_msg_def)

lemma check_resp_trans:
  "check_resp_lock_cmd_msg a b \<Longrightarrow> check_resp_lock_cmd_msg b c \<Longrightarrow> check_resp_lock_cmd_msg a c"
  by (simp add: check_resp_lock_cmd_msg_def)

lemma atomic_op_keeps_header:
  "g_atomic_do k = Some f \<Longrightarrow> check_resp_lock_cmd_msg m (fst (snd (f tv c l m)))"
  by (cases k) (auto simp: atomic_op_defs)

lemma rw_op_keeps_header:
  "g_rwlock_do k = Some f \<Longrightarrow> check_resp_lock_cmd_msg m (fst (snd (f tv c l m)))"
  by (cases k) (auto simp: rw_op_defs)

lemma fair_op_keeps_header:
  "g_fairlock_do k = Some f \<Longrightarrow> check_resp_lock_cmd_msg m (fst (snd (f tv c l m)))"
  by (cases k) (auto simp: fair_op_defs)

lemmas op_keeps_header = atomic_op_keeps_header rw_op_keeps_header fair_op_keeps_header

lemma dispatch_keeps_header:
  assumes "\<And>k f l. g k = Some f \<Longrightarrow> check_resp_lock_cmd_msg m (fst (snd (f tv c l m)))"
  shows "check_resp_lock_cmd_msg m (fst (snd (dispatch g ld st tv c m s)))"
  using assms
  by (auto simp: dispatch_def run_op_def with_lock_def set_ret_def cmd_einval_def Let_def
      split: option.splits prod.splits) (metis fst_conv snd_conv)

lemma do_lock_cmd_keeps_header: "check_resp_lock_cmd_msg m (fst (snd (do_lock_cmd tv c m s)))"
  by (auto simp: do_lock_cmd_def set_ret_def op_keeps_header
      intro!: dispatch_keeps_header split: option.splits dlock_type.splits)

lemma do_lock_cmds_keep_headers: "list_all2 check_resp_lock_cmd_msg reqs (snd (do_lock_cmds tvs c reqs s))"
proof (induction reqs arbitrary: tvs s)
  case (Cons m reqs)
  then show ?case using do_lock_cmd_keeps_header[of m "hd tvs" c s]
    by (auto simp: Let_def split: prod.splits) (metis snd_conv)
qed simp

lemma preprocess_keeps_headers: "list_all2 check_resp_lock_cmd_msg reqs (snd (preprocess_lock_cmd_msg tv reqs s))"
proof (induction reqs arbitrary: s)
  case (Cons m reqs)
  have "list_all2 check_resp_lock_cmd_msg reqs reqs" by (simp add: list_all2_same)
  with Cons[of s] show ?case
    by (auto simp: Let_def split: prod.splits option.splits dlock_type.splits)
qed simp

lemma ticket_keeps_header: "check_resp_lock_cmd_msg m (fairlock_ticket_response t m)"
  by (simp add: fairlock_ticket_response_def)

lemma ticket_keeps_headers:
  "list_all2 check_resp_lock_cmd_msg reqs (modify_response_with_fairlock_ticket tv reqs)"
  by (simp add: modify_response_with_fairlock_ticket_def list.rel_map ticket_keeps_header list_all2_same)

lemma server_send_replies:
  assumes "check_cmd_msg_common_field m"
  obtains s' out where "server_send True tv0 tvs tv1 c (m # rest) s = (s', Net_Reply out)"
    and "list_all2 check_resp_lock_cmd_msg (m # rest) out"
proof -
  let ?p = "preprocess_lock_cmd_msg tv0 (m # rest) s"
  let ?q = "do_lock_cmds tvs c (snd ?p) (fst ?p)"
  let ?out = "modify_response_with_fairlock_ticket tv1 (snd ?q)"
  have tr: "list_all2 check_resp_lock_cmd_msg xs zs"
    if "list_all2 check_resp_lock_cmd_msg xs ys" "list_all2 check_resp_lock_cmd_msg ys zs" for xs ys zs
    using list_all2_trans[of check_resp_lock_cmd_msg check_resp_lock_cmd_msg check_resp_lock_cmd_msg] that
      check_resp_trans by blast
  have "list_all2 check_resp_lock_cmd_msg (m # rest) ?out"
    using tr[OF tr[OF preprocess_keeps_headers do_lock_cmds_keep_headers] ticket_keeps_headers] .
  moreover have "server_send True tv0 tvs tv1 c (m # rest) s = (fst ?q, Net_Reply ?out)"
    using assms by (simp add: server_send_def do_lock_def clear_text_def Let_def split: prod.splits)
  ultimately show thesis by (rule that[rotated])
qed

subsection \<open>What the API calls do to a read-write entry\<close>

text \<open>The operations a read-write lock has, when the client's state allows sending one, and
  the state a successful one leads to.\<close>

fun rw_enabled :: "dlock_req_code \<Rightarrow> dlock_state \<Rightarrow> bool" where
  "rw_enabled EXCLUSIVE_TRYLOCK st \<longleftrightarrow> st \<noteq> EXCLUSIVE_LOCKED \<and> st \<noteq> SHARED_LOCKED"
| "rw_enabled SHARED_TRYLOCK st \<longleftrightarrow> st \<noteq> EXCLUSIVE_LOCKED \<and> st \<noteq> SHARED_LOCKED"
| "rw_enabled EXCLUSIVE_UNLOCK st \<longleftrightarrow> st = EXCLUSIVE_LOCKED"
| "rw_enabled SHARED_UNLOCK st \<longleftrightarrow> st = SHARED_LOCKED"
| "rw_enabled _ st \<longleftrightarrow> False"

fun rw_next :: "dlock_req_code \<Rightarrow> dlock_state" where
  "rw_next EXCLUSIVE_TRYLOCK = EXCLUSIVE_LOCKED"
| "rw_next SHARED_TRYLOCK = SHARED_LOCKED"
| "rw_next _ = UNLOCKED"

definition rw_claim :: "dlock_req_code \<Rightarrow> u32 \<Rightarrow> u32" where
  "rw_claim k cid = (if k = EXCLUSIVE_TRYLOCK \<or> k = EXCLUSIVE_UNLOCK then cid else 0)"

definition rw_msg :: "u32 \<Rightarrow> dlock_req_code \<Rightarrow> lock_entry_c \<Rightarrow> lock_cmd_msg \<Rightarrow> bool" where
  "rw_msg cid k e m \<longleftrightarrow> addressed DLOCK_RW (unat (m_lock_offset e)) m \<and> op_code m = req_val k \<and>
     check_cmd_msg_common_field m \<and> ls_rw_client_id (ls m) = rw_claim k cid"

definition rw_reply :: "dlock_req_code \<Rightarrow> lock_cmd_msg \<Rightarrow> net_reply \<Rightarrow> dlock_state \<Rightarrow> dlock_state \<Rightarrow> bool" where
  "rw_reply k m rep st st' \<longleftrightarrow>
    (case rep of
       Net_Fail _ _ \<Rightarrow> st' = st
     | Net_Reply rs \<Rightarrow>
         (\<forall>r. rs = [r] \<and> check_resp_lock_cmd_msg m r \<longrightarrow>
            (if op_ret r = DLOCK_SUCCESS then st' = rw_next k else st' = st \<or> st' = LOCK_INITIALIZED)))"

text \<open>A call either stays local and keeps the state, or exchanges one command of the lock.\<close>

definition rw_call :: "'w transport \<Rightarrow> u32 \<Rightarrow> lock_entry_c \<Rightarrow> lock_entry_c \<Rightarrow> 'w \<Rightarrow> 'w \<Rightarrow> bool" where
  "rw_call send cid e e' w w' \<longleftrightarrow>
    m_lock_type e' = m_lock_type e \<and> m_lock_offset e' = m_lock_offset e \<and>
    (w' = w \<and> m_lock_state e' = m_lock_state e \<or>
     (\<exists>k m rep. rw_enabled k (m_lock_state e) \<and> rw_msg cid k e m \<and> send [m] w = (w', rep) \<and>
        rw_reply k m rep (m_lock_state e) (m_lock_state e')))"

definition rw_code :: "lock_ops \<Rightarrow> dlock_state \<Rightarrow> dlock_req_code" where
  "rw_code k st = (case k of LOCK_EXCLUSIVE \<Rightarrow> EXCLUSIVE_TRYLOCK | LOCK_SHARED \<Rightarrow> SHARED_TRYLOCK
     | _ \<Rightarrow> if st = EXCLUSIVE_LOCKED then EXCLUSIVE_UNLOCK else SHARED_UNLOCK)"

lemma rw_fill_cmd_msg_cases:
  assumes t: "m_lock_type e = DLOCK_RW" and m0: "check_cmd_msg_common_field m0" "op_code m0 = 0"
    and f: "rw_fill_cmd_msg cid req e m0 = (e1, m, ret, cs)"
  shows "m_lock_type e1 = DLOCK_RW \<and> m_lock_offset e1 = m_lock_offset e \<and> m_lock_state e1 = m_lock_state e"
    and "\<not> is_extend m"
    and "ret = DLOCK_SUCCESS \<Longrightarrow> rw_enabled (rw_code (req_lock_op req) (m_lock_state e)) (m_lock_state e) \<and>
      rw_msg cid (rw_code (req_lock_op req) (m_lock_state e)) e m"
  using f t m0
  by (cases "req_lock_op req"; simp add: rw_fill_cmd_msg_def rw_fill_tail_def Let_def rw_msg_def addressed_def
      check_cmd_msg_common_field_def set_target_def set_rw_client_def set_op_def rw_claim_def rw_code_def
      is_extend_def split: if_splits; auto)+

lemma rw_fill_cases:
  assumes "m_lock_type e = DLOCK_RW" "fill_cmd_msg cid mid req e zero_msg = (e1, m, ret, cs)"
  shows "m_lock_type e1 = DLOCK_RW \<and> m_lock_offset e1 = m_lock_offset e \<and> m_lock_state e1 = m_lock_state e"
    and "\<not> is_extend m"
    and "ret = DLOCK_SUCCESS \<Longrightarrow> rw_enabled (rw_code (req_lock_op req) (m_lock_state e)) (m_lock_state e) \<and>
      rw_msg cid (rw_code (req_lock_op req) (m_lock_state e)) e m"
  using assms(2) rw_fill_cmd_msg_cases[OF assms(1), of "init_cmd_msg_common_field mid zero_msg" cid req e1 m ret cs]
  by (simp_all add: fill_cmd_msg_def assms(1) init_cmd_msg_common_field_def check_cmd_msg_common_field_def
      zero_msg_def)

lemma rw_update_None:
  "m_lock_type e = DLOCK_RW \<Longrightarrow> update_state_with_cmd_msg None res e =
    (e, res\<lparr>w0 := w0 (m_lock_val e), w1 := w1 (m_lock_val e), w2 := w2 (m_lock_val e)\<rparr>, DLOCK_SUCCESS, [])"
  by (simp add: update_state_with_cmd_msg_def rw_update_state_with_cmd_msg_def)

lemma rw_update_cases:
  assumes "m_lock_type e = DLOCK_RW" "update_state_with_cmd_msg p res e = (e', res', ret, cs)"
  shows "m_lock_type e' = DLOCK_RW \<and> m_lock_offset e' = m_lock_offset e"
    and "p = Some r \<Longrightarrow> op_code r = req_val k \<Longrightarrow> rw_enabled k st \<Longrightarrow> m_lock_state e' = rw_next k"
    and "p = Some r \<Longrightarrow> op_code r = req_val k \<Longrightarrow> rw_enabled k st \<Longrightarrow> ret = DLOCK_SUCCESS"
proof -
  show "m_lock_type e' = DLOCK_RW \<and> m_lock_offset e' = m_lock_offset e"
    using assms by (auto simp: update_state_with_cmd_msg_def rw_update_state_with_cmd_msg_def Let_def
        split: option.splits dlock_req_code.splits)
  show "p = Some r \<Longrightarrow> op_code r = req_val k \<Longrightarrow> rw_enabled k st \<Longrightarrow> m_lock_state e' = rw_next k"
    using assms by (cases k) (auto simp: update_state_with_cmd_msg_def rw_update_state_with_cmd_msg_def Let_def
        simp del: req_val.simps)
  show "p = Some r \<Longrightarrow> op_code r = req_val k \<Longrightarrow> rw_enabled k st \<Longrightarrow> ret = DLOCK_SUCCESS"
    using assms by (cases k) (auto simp: update_state_with_cmd_msg_def rw_update_state_with_cmd_msg_def Let_def
        simp del: req_val.simps)
qed

lemma rw_call_local:
  "m_lock_type e' = m_lock_type e \<Longrightarrow> m_lock_offset e' = m_lock_offset e \<Longrightarrow> m_lock_state e' = m_lock_state e \<Longrightarrow>
    rw_call send cid e e' w w"
  unfolding rw_call_def by blast

text \<open>The exchange of a filled command, up to what the caller does with the reply.\<close>

lemma rw_exchange:
  assumes t: "m_lock_type e = DLOCK_RW" and f: "fill_cmd_msg cid mid req e zero_msg = (e1, m, DLOCK_SUCCESS, cs)"
    and x: "xchg_cmd_msg send m c w = (c', w', ret, r)"
    and e': "m_lock_type e' = m_lock_type e" "m_lock_offset e' = m_lock_offset e"
    and none: "r = None \<Longrightarrow> m_lock_state e' = m_lock_state e"
    and some: "\<And>r' k. r = Some r' \<Longrightarrow> op_code r' = req_val k \<Longrightarrow> rw_enabled k (m_lock_state e) \<Longrightarrow>
      (if op_ret r' = DLOCK_SUCCESS then m_lock_state e' = rw_next k
       else m_lock_state e' = m_lock_state e \<or> m_lock_state e' = LOCK_INITIALIZED)"
  shows "rw_call send cid e e' w w'"
proof -
  let ?k = "rw_code (req_lock_op req) (m_lock_state e)"
  have K: "rw_enabled ?k (m_lock_state e)" "rw_msg cid ?k e m" using rw_fill_cases(3)[OF t f] by auto
  from xchg_cmd_msg_cases[OF x] obtain rep where R: "send [m] w = (w', rep)"
    "\<And>r'. r = Some r' \<Longrightarrow> rep = Net_Reply [r'] \<and> check_resp_lock_cmd_msg m r' \<and> ret = DLOCK_SUCCESS"
    "r = None \<Longrightarrow> \<forall>r'. rep = Net_Reply [r'] \<longrightarrow> \<not> check_resp_lock_cmd_msg m r'" by metis
  have "rw_reply ?k m rep (m_lock_state e) (m_lock_state e')"
  proof (cases r)
    case None
    then show ?thesis using R(3) none by (auto simp: rw_reply_def split: net_reply.splits)
  next
    case (Some r')
    moreover have "op_code r' = req_val ?k"
      using R(2)[OF Some] K(2) by (simp add: rw_msg_def check_resp_lock_cmd_msg_def)
    ultimately show ?thesis using R(2)[OF Some] some[OF Some _ K(1)] by (simp add: rw_reply_def)
  qed
  then show ?thesis using K R(1) e' unfolding rw_call_def by blast
qed

definition rw_client_call :: "'w transport \<Rightarrow> u32 \<Rightarrow> u32 \<Rightarrow> client_entry_c \<Rightarrow> client_entry_c \<Rightarrow> 'w \<Rightarrow> 'w \<Rightarrow> bool" where
  "rw_client_call send cid L c c' w w' \<longleftrightarrow>
    (m_lock_map c' = m_lock_map c \<and> w' = w \<or>
     (\<exists>e e'. m_lock_map c L = Some e \<and> m_lock_map c' = (m_lock_map c)(L := Some e') \<and> rw_call send cid e e' w w'))"

lemma rw_client_callI:
  "m_lock_map c L = Some e \<Longrightarrow> m_lock_map c' = (m_lock_map c)(L := Some e') \<Longrightarrow> rw_call send cid e e' w w' \<Longrightarrow>
    rw_client_call send cid L c c' w w'"
  unfolding rw_client_call_def by blast

lemma rw_client_call_bump [simp]: "rw_client_call send cid L c (c_bump cs c) w w"
  by (simp add: rw_client_call_def)

lemma trylock_client_rw:
  assumes "m_lock_map c (req_lock_id req) = Some e" "m_lock_type e = DLOCK_RW" "\<not> m_async_flag c"
    and "trylock_client send cid req res c w = (c', w', res', ret)"
  shows "rw_client_call send cid (req_lock_id req) c c' w w'"
proof (cases "expire_time req = 0")
  case True
  then show ?thesis using assms
    by (auto simp: trylock_client_def rw_update_None intro!: rw_client_callI rw_call_local)
next
  case ex: False
  obtain c1 mid where g: "generate_message_id c = (c1, mid)" by fastforce
  obtain e1 m ret1 cs where f: "fill_cmd_msg cid mid req e zero_msg = (e1, m, ret1, cs)" by (metis prod_cases4)
  note F = rw_fill_cases[OF assms(2) f]
  let ?L = "req_lock_id req" and ?c2 = "c_bump cs (put_entry (req_lock_id req) e1 c1)"
  show ?thesis
  proof (cases "ret1 = DLOCK_SUCCESS")
    case False
    with ex F g f assms show ?thesis
      by (auto simp: trylock_client_def client_call_simps rw_update_None split: if_splits
          intro!: rw_client_callI[where e' = e1] rw_call_local)
  next
    case True
    note f' = f[unfolded True]
    obtain c3 w3 ret2 r where x: "xchg_cmd_msg send m ?c2 w = (c3, w3, ret2, r)" by (metis prod_cases4)
    note C = rw_exchange[OF assms(2) f' x]
    show ?thesis
    proof (cases r)
      case None
      have "rw_call send cid e e1 w w3" using F(1) assms(2) None by (intro C) simp_all
      with None True ex F(2) g f x assms show ?thesis
        by (auto simp: trylock_client_def client_call_simps intro!: rw_client_callI[where e' = e1])
    next
      case (Some r')
      obtain e2 res2 ret3 cs' where u: "update_state_with_cmd_msg (Some r') res e1 = (e2, res2, ret3, cs')"
        by (metis prod_cases4)
      let ?e = "if op_ret r' = DLOCK_SUCCESS then e2 else e1"
      have U: "m_lock_type e2 = DLOCK_RW \<and> m_lock_offset e2 = m_lock_offset e1"
        "op_code r' = req_val k \<Longrightarrow> rw_enabled k (m_lock_state e) \<Longrightarrow> m_lock_state e2 = rw_next k" for k
        using rw_update_cases[OF _ u] F(1) by auto
      have "rw_call send cid e ?e w w3" using F(1) assms(2) Some U by (intro C) auto
      with Some True ex F(1,2) g f x u assms show ?thesis
        by (auto simp: trylock_client_def client_call_simps intro!: rw_client_callI[where e' = ?e])
    qed
  qed
qed

lemma lock_extend_client_rw:
  assumes "m_lock_map c (req_lock_id req) = Some e" "m_lock_type e = DLOCK_RW" "\<not> m_async_flag c"
    and "lock_extend_client send cid req res c w = (c', w', res', ret)"
  shows "rw_client_call send cid (req_lock_id req) c c' w w'"
proof (cases "m_ref_count e = 0")
  case True
  then show ?thesis using assms by (auto simp: lock_extend_client_def rw_client_call_def)
next
  case rc: False
  obtain c1 mid where g: "generate_message_id c = (c1, mid)" by fastforce
  obtain e1 m ret1 cs where f: "fill_cmd_msg cid mid req e zero_msg = (e1, m, ret1, cs)" by (metis prod_cases4)
  note F = rw_fill_cases[OF assms(2) f]
  let ?L = "req_lock_id req" and ?c2 = "c_bump cs (put_entry (req_lock_id req) e1 c1)"
  show ?thesis
  proof (cases "ret1 = DLOCK_SUCCESS")
    case False
    with rc F g f assms show ?thesis
      by (auto simp: lock_extend_client_def client_call_simps intro!: rw_client_callI[where e' = e1] rw_call_local)
  next
    case True
    note f' = f[unfolded True]
    obtain c3 w3 ret2 r where x: "xchg_cmd_msg send m ?c2 w = (c3, w3, ret2, r)" by (metis prod_cases4)
    note C = rw_exchange[OF assms(2) f' x]
    show ?thesis
    proof (cases r)
      case None
      have "rw_call send cid e e1 w w3" using F(1) assms(2) None by (intro C) simp_all
      with None True rc F(2) g f x assms show ?thesis
        by (auto simp: lock_extend_client_def client_call_simps intro!: rw_client_callI[where e' = e1])
    next
      case (Some r')
      obtain e2 res2 ret3 cs' where u: "update_state_with_cmd_msg (Some r') res e1 = (e2, res2, ret3, cs')"
        by (metis prod_cases4)
      let ?e = "if op_ret r' = DLOCK_NOT_READY then e1 else if op_ret r' = DLOCK_SUCCESS then e2
        else e1\<lparr>m_lock_state := LOCK_INITIALIZED, m_ref_count := 0\<rparr>"
      have U: "m_lock_type e2 = DLOCK_RW \<and> m_lock_offset e2 = m_lock_offset e1"
        "op_code r' = req_val k \<Longrightarrow> rw_enabled k (m_lock_state e) \<Longrightarrow> m_lock_state e2 = rw_next k" for k
        using rw_update_cases[OF _ u] F(1) by auto
      have "rw_call send cid e ?e w w3" using F(1) assms(2) Some U by (intro C) auto
      with Some True rc F(1,2) g f x u assms show ?thesis
        by (auto simp: lock_extend_client_def client_call_simps intro!: rw_client_callI[where e' = ?e])
    qed
  qed
qed

lemma unlock_client_rw:
  assumes "m_lock_map c lock_id = Some e" "m_lock_type e = DLOCK_RW" "\<not> m_async_flag c"
    and "unlock_client send cid lock_id res c w = (c', w', res', ret)"
  shows "rw_client_call send cid lock_id c c' w w'"
proof (cases "m_ref_count e = 0 \<or> m_ref_count e > 1")
  case True
  then show ?thesis using assms
    by (auto simp: unlock_client_def rw_client_call_def split: if_splits intro!: rw_call_local)
next
  case rc: False
  obtain c1 mid where g: "generate_message_id c = (c1, mid)" by fastforce
  obtain e0 m ret1 cs where f: "fill_cmd_msg cid mid (unlock_req lock_id) e zero_msg = (e0, m, ret1, cs)"
    by (metis prod_cases4)
  note F = rw_fill_cases[OF assms(2) f]
  define e1 where "e1 = clear_lock_val e0"
  have e1: "m_lock_type e1 = m_lock_type e0" "m_lock_offset e1 = m_lock_offset e0" "m_lock_state e1 = m_lock_state e0"
    by (simp_all add: e1_def clear_lock_val_def)
  let ?c2 = "put_entry lock_id e1 (c_bump cs (put_entry lock_id e0 c1))"
  show ?thesis
  proof (cases "ret1 = DLOCK_SUCCESS")
    case False
    with rc F g f assms show ?thesis
      by (auto simp: unlock_client_def client_call_simps intro!: rw_client_callI[where e' = e0] rw_call_local)
  next
    case True
    note f' = f[unfolded True]
    obtain c3 w3 ret2 r where x: "xchg_cmd_msg send m ?c2 w = (c3, w3, ret2, r)" by (metis prod_cases4)
    note C = rw_exchange[OF assms(2) f' x]
    show ?thesis
    proof (cases r)
      case None
      let ?e = "e1\<lparr>m_ref_count := m_ref_count e1 + 1\<rparr>"
      have "rw_call send cid e ?e w w3" using F(1) e1 assms(2) None by (intro C) simp_all
      with None True rc F(2) g f x assms show ?thesis
        by (auto simp: unlock_client_def client_call_simps e1_def[symmetric] intro!: rw_client_callI[where e' = ?e])
    next
      case (Some r')
      obtain e2 res2 ret3 cs' where u: "update_state_with_cmd_msg (Some r') res e1 = (e2, res2, ret3, cs')"
        by (metis prod_cases4)
      let ?e = "if op_ret r' = DLOCK_NOT_READY then e1\<lparr>m_ref_count := m_ref_count e1 + 1\<rparr>
        else if op_ret r' = DLOCK_SUCCESS then e2 else e1\<lparr>m_lock_state := LOCK_INITIALIZED, m_ref_count := 0\<rparr>"
      have U: "m_lock_type e2 = DLOCK_RW \<and> m_lock_offset e2 = m_lock_offset e1"
        "op_code r' = req_val k \<Longrightarrow> rw_enabled k (m_lock_state e) \<Longrightarrow> m_lock_state e2 = rw_next k" for k
        using rw_update_cases[OF _ u] F(1) e1 by auto
      have "rw_call send cid e ?e w w3" using F(1) e1 assms(2) Some U by (intro C) auto
      with Some True rc F(1,2) e1 g f x u assms show ?thesis
        by (auto simp: unlock_client_def client_call_simps e1_def[symmetric] intro!: rw_client_callI[where e' = ?e])
    qed
  qed
qed

subsection \<open>Clients of one read-write lock\<close>

text \<open>
  The system: the clients (of all processes) with an entry for the lock \<open>L\<close>, and the server's
  memory.  A step is one API call on the lock by one client; the request reaches the server or is
  lost.  Client ids start at 1 (\<open>m_next_client_id\<close>), so no client has id 0.
\<close>

definition lstate :: "u32 \<Rightarrow> dlock_client \<Rightarrow> u32 \<Rightarrow> dlock_state option" where
  "lstate L d cid = (case m_client_map d cid of None \<Rightarrow> None | Some c \<Rightarrow> map_option m_lock_state (m_lock_map c L))"

definition holders :: "u32 \<Rightarrow> dlock_state \<Rightarrow> dlock_client \<Rightarrow> u32 set" where
  "holders L st d = {cid. lstate L d cid = Some st}"

inductive rw_step :: "u32 \<Rightarrow> dlock_client \<times> lock_memory \<Rightarrow> dlock_client \<times> lock_memory \<Rightarrow> bool" for L where
  do_trylock: "trylock (server_send up tv0 tvs tv1 cid) cid req res d s = (d', s', res', ret) \<Longrightarrow>
    req_lock_id req = L \<Longrightarrow> rw_step L (d, s) (d', s')"
| do_unlock: "unlock (server_send up tv0 tvs tv1 cid) cid L res d s = (d', s', res', ret) \<Longrightarrow>
    rw_step L (d, s) (d', s')"
| do_extend: "lock_extend (server_send up tv0 tvs tv1 cid) cid req res d s = (d', s', res', ret) \<Longrightarrow>
    req_lock_id req = L \<Longrightarrow> rw_step L (d, s) (d', s')"

definition entries_ok :: "u32 \<Rightarrow> u32 \<Rightarrow> dlock_client \<Rightarrow> bool" where
  "entries_ok L off d \<longleftrightarrow> m_client_map d 0 = None \<and>
    (\<forall>cid c e. m_client_map d cid = Some c \<longrightarrow> m_lock_map c L = Some e \<longrightarrow>
       m_lock_type e = DLOCK_RW \<and> m_lock_offset e = off)"

definition rw_sys_init :: "u32 \<Rightarrow> u32 \<Rightarrow> dlock_client \<times> lock_memory \<Rightarrow> bool" where
  "rw_sys_init L off = (\<lambda>(d, s). entries_ok L off d \<and> unat off \<le> LOCK_MEMORY_SIZE - 16 \<and>
     holders L EXCLUSIVE_LOCKED d = {} \<and> holders L SHARED_LOCKED d = {} \<and>
     rl_client_id (load_rw (m_p_lock_memory s) (unat off)) = 0 \<and>
     rl_ref_count (load_rw (m_p_lock_memory s) (unat off)) = 0)"

definition agrees :: "rw_spec \<Rightarrow> u32 set \<Rightarrow> u32 set \<Rightarrow> bool" where
  "agrees a ex sh \<longleftrightarrow> (case a of RW_Free \<Rightarrow> ex = {} \<and> sh = {} | RW_Excl c \<Rightarrow> ex = {c} \<and> sh = {}
     | RW_Shared n \<Rightarrow> ex = {} \<and> card sh = n)"

definition rw_sys_inv :: "u32 \<Rightarrow> u32 \<Rightarrow> dlock_client \<times> lock_memory \<Rightarrow> bool" where
  "rw_sys_inv L off = (\<lambda>(d, s). entries_ok L off d \<and> unat off \<le> LOCK_MEMORY_SIZE - 16 \<and>
     rw_inv (load_rw (m_p_lock_memory s) (unat off)) \<and>
     agrees (rw_abs (load_rw (m_p_lock_memory s) (unat off))) (holders L EXCLUSIVE_LOCKED d) (holders L SHARED_LOCKED d))"

lemma server_send_rw:
  assumes m: "rw_msg cid k e m" and k: "rw_enabled k st" and off: "unat (m_lock_offset e) \<le> LOCK_MEMORY_SIZE - 16"
    and cid: "cid \<noteq> 0" and i: "rw_inv (load_rw (m_p_lock_memory s) (unat (m_lock_offset e)))"
    and ov: "k = SHARED_TRYLOCK \<Longrightarrow> rl_ref_count (load_rw (m_p_lock_memory s) (unat (m_lock_offset e))) \<noteq> - 1"
  obtains s' r where "server_send True tv0 tvs tv1 cid [m] s = (s', Net_Reply [r])" "check_resp_lock_cmd_msg m r"
    "rw_inv (load_rw (m_p_lock_memory s') (unat (m_lock_offset e)))"
    "rw_spec_step k cid (rw_claim k cid) (rw_abs (load_rw (m_p_lock_memory s) (unat (m_lock_offset e)))) =
      (rw_abs (load_rw (m_p_lock_memory s') (unat (m_lock_offset e))), op_ret r = DLOCK_SUCCESS)"
proof -
  let ?a = "unat (m_lock_offset e)"
  let ?l = "load_rw (m_p_lock_memory s) ?a"
  have A: "addressed DLOCK_RW ?a m" and M: "op_code m = req_val k" "check_cmd_msg_common_field m"
    "ls_rw_client_id (ls m) = rw_claim k cid" using m by (auto simp: rw_msg_def)
  obtain f where f: "g_rwlock_do k = Some f" using k by (cases k) auto
  have lt: "\<not> req_val OP_CODE_MAX \<le> op_code m"
    using k M(1) by (cases k) (auto simp: word_le_nat_alt)
  obtain l' r st2 cs where fr: "f (hd tvs) cid ?l m = (l', r, st2, cs)" by (metis prod_cases4)
  obtain s' r1 st1 where d: "do_lock_cmd (hd tvs) cid m s = (s', r1, st1)" by (metis prod_cases3)
  have V: "cmd_view g_rwlock_do 16 (hd tvs) cid ?l m = (l', r, st2)"
    using A M(1) lt off f fr
    by (simp add: cmd_view_def addressed_def op_view_def del: LOCK_MEMORY_SIZE_val req_val.simps)
  have d': "load_rw (m_p_lock_memory s') ?a = l'" "r1 = r"
    using do_lock_cmd_rw_view[OF A, of "hd tvs" cid s] d V by simp_all
  have nx: "\<not> (op_code m = req_val EXCLUSIVE_LOCK_EXTEND \<or> op_code m = req_val SHARED_LOCK_EXTEND)"
    using k M(1) by (cases k) auto
  have ea: "op_ret r \<noteq> DLOCK_EAGAIN" using f fr by (cases k) (auto simp: rw_op_defs split: if_splits)
  have "server_send True tv0 tvs tv1 cid [m] s = (s', Net_Reply [r])"
    using nx M(2) d d' ea by (simp add: server_send_def do_lock_def clear_text_def
        modify_response_with_fairlock_ticket_def fairlock_ticket_response_def del: req_val.simps)
  moreover have "check_resp_lock_cmd_msg m r" using rw_op_keeps_header[OF f, of m "hd tvs" cid ?l] fr by simp
  ultimately show thesis using that rw_refines[OF f i cid ov fr] M(3) d'(1) by simp
qed

lemma with_client_rw:
  assumes "with_client cid f res d s = (d', s', res', ret)"
    and "\<And>c c' res' ret. f c s = (c', s', res', ret) \<Longrightarrow> m_client_map d cid = Some c \<Longrightarrow>
      rw_client_call send cid L c c' s s'"
  shows "(m_client_map d' = m_client_map d \<and> s' = s) \<or>
    (\<exists>c c'. m_client_map d cid = Some c \<and> m_client_map d' = (m_client_map d)(cid := Some c') \<and>
       rw_client_call send cid L c c' s s')"
  using assms by (auto simp: with_client_def Let_def split: if_splits option.splits prod.splits)

text \<open>A call of the system: nothing happens to the lock, or one client's entry makes an
  \<open>rw_call\<close>.\<close>

lemma rw_step_cases:
  assumes "rw_step L (d, s) (d', s')" "entries_ok L off d"
  obtains "lstate L d' = lstate L d" "entries_ok L off d'" "s' = s"
  | cid up tv0 tvs tv1 e e' where "cid \<noteq> 0" "m_lock_offset e = off" "lstate L d cid = Some (m_lock_state e)"
      "lstate L d' = (lstate L d)(cid := Some (m_lock_state e'))" "entries_ok L off d'"
      "rw_call (server_send up tv0 tvs tv1 cid) cid e e' s s'"
proof -
  have T: "m_lock_type e = DLOCK_RW" if "m_client_map d cid = Some c" "m_lock_map c L = Some e" for cid c e
    using assms(2) that by (auto simp: entries_ok_def)
  have "(m_client_map d' = m_client_map d \<and> s' = s) \<or>
    (\<exists>cid up tv0 tvs tv1 c c'. m_client_map d cid = Some c \<and> m_client_map d' = (m_client_map d)(cid := Some c') \<and>
       rw_client_call (server_send up tv0 tvs tv1 cid) cid L c c' s s')"
    using assms(1)
  proof cases
    case (do_trylock up tv0 tvs tv1 cid req res res' ret)
    then have "rw_client_call (server_send up tv0 tvs tv1 cid) cid L c c' s s'"
      if "trylock_client (server_send up tv0 tvs tv1 cid) cid req res c s = (c', s', res', ret)"
        "m_client_map d cid = Some c" for c c' res' ret
      using that T[OF that(2)] trylock_client_rw[OF _ _ _ that(1)]
      by (cases "m_async_flag c"; cases "m_lock_map c L") (auto simp: trylock_client_def)
    with do_trylock(1) show ?thesis unfolding trylock_def by (blast dest: with_client_rw)
  next
    case (do_unlock up tv0 tvs tv1 cid res res' ret)
    then have "rw_client_call (server_send up tv0 tvs tv1 cid) cid L c c' s s'"
      if "unlock_client (server_send up tv0 tvs tv1 cid) cid L res c s = (c', s', res', ret)"
        "m_client_map d cid = Some c" for c c' res' ret
      using that T[OF that(2)] unlock_client_rw[OF _ _ _ that(1)]
      by (cases "m_async_flag c"; cases "m_lock_map c L") (auto simp: unlock_client_def)
    with do_unlock(1) show ?thesis unfolding unlock_def by (blast dest: with_client_rw)
  next
    case (do_extend up tv0 tvs tv1 cid req res res' ret)
    then have "rw_client_call (server_send up tv0 tvs tv1 cid) cid L c c' s s'"
      if "lock_extend_client (server_send up tv0 tvs tv1 cid) cid req res c s = (c', s', res', ret)"
        "m_client_map d cid = Some c" for c c' res' ret
      using that T[OF that(2)] lock_extend_client_rw[OF _ _ _ that(1)]
      by (cases "m_async_flag c"; cases "m_lock_map c L") (auto simp: lock_extend_client_def)
    with do_extend(1) show ?thesis unfolding lock_extend_def by (blast dest: with_client_rw)
  qed
  then show thesis
  proof (elim disjE exE conjE)
    assume "m_client_map d' = m_client_map d" "s' = s"
    then show thesis using assms(2) by (intro that(1)) (auto simp: lstate_def entries_ok_def)
  next
    fix cid up tv0 tvs tv1 c c'
    assume c: "m_client_map d cid = Some c" and d': "m_client_map d' = (m_client_map d)(cid := Some c')"
      and call: "rw_client_call (server_send up tv0 tvs tv1 cid) cid L c c' s s'"
    have "cid \<noteq> 0" using c assms(2) by (auto simp: entries_ok_def)
    from call[unfolded rw_client_call_def] show thesis
    proof (elim disjE exE conjE)
      assume "m_lock_map c' = m_lock_map c" "s' = s"
      then show thesis using c d' assms(2) \<open>cid \<noteq> 0\<close>
        by (intro that(1)) (auto simp: lstate_def entries_ok_def fun_eq_iff)
    next
      fix e e' assume e: "m_lock_map c L = Some e" "m_lock_map c' = (m_lock_map c)(L := Some e')"
        and rc: "rw_call (server_send up tv0 tvs tv1 cid) cid e e' s s'"
      then show thesis using c d' assms(2) \<open>cid \<noteq> 0\<close>
        by (intro that(2)[of cid e e' up tv0 tvs tv1])
          (auto simp: lstate_def entries_ok_def fun_eq_iff rw_call_def)
    qed
  qed
qed

lemma holders_upd:
  "lstate L d' = (lstate L d)(cid := Some st) \<Longrightarrow>
    holders L st' d' = (if st' = st then insert cid (holders L st' d) else holders L st' d - {cid})"
  by (auto simp: holders_def)

lemma unat_max_u32: "unat (- 1 :: u32) = 4294967295"
  by (simp add: unsigned_minus_1_eq_mask mask_eq_exp_minus_1)

lemma readers_below_max:
  assumes "cid \<noteq> 0" "cid \<notin> A" "0 \<notin> A"
  shows "card (A :: u32 set) < 2 ^ 32 - 1"
proof -
  have "card A \<le> card (UNIV - {0, cid})" using assms by (intro card_mono) auto
  also have "\<dots> = 2 ^ 32 - 2" using assms by (simp add: card_Diff_subset card_word)
  finally show ?thesis by simp
qed

text \<open>The abstract step and the clients' states move together.\<close>

lemma agrees_step:
  assumes a: "agrees a ex sh" and st: "cid \<in> ex \<longleftrightarrow> st = EXCLUSIVE_LOCKED" "cid \<in> sh \<longleftrightarrow> st = SHARED_LOCKED"
    and k: "rw_enabled k st" and step: "rw_spec_step k cid (rw_claim k cid) a = (a', ok)"
    and st': "if ok then st' = rw_next k else st' = st \<or> st' = LOCK_INITIALIZED"
    and pos: "\<And>n. a = RW_Shared n \<Longrightarrow> 0 < n"
  shows "agrees a' (if EXCLUSIVE_LOCKED = st' then insert cid ex else ex - {cid})
    (if SHARED_LOCKED = st' then insert cid sh else sh - {cid})"
proof -
  have fin: "finite sh" by simp
  have one: "sh = {cid}" if "cid \<in> sh" "card sh = Suc 0" using that by (auto simp: card_1_singleton_iff)
  show ?thesis
  proof (cases k)
    case EXCLUSIVE_TRYLOCK
    then show ?thesis using assms by (cases a) (auto simp: agrees_def rw_claim_def split: if_splits)
  next
    case SHARED_TRYLOCK
    then show ?thesis using assms fin by (cases a) (auto simp: agrees_def rw_claim_def)
  next
    case EXCLUSIVE_UNLOCK
    then show ?thesis using assms by (cases a) (auto simp: agrees_def rw_claim_def)
  next
    case SHARED_UNLOCK
    then show ?thesis using assms fin one by (cases a) (auto simp: agrees_def rw_claim_def split: if_splits)
  qed (use k in auto)
qed

lemma rw_not_saturated:
  assumes "rw_sys_inv L off (d, s)" "cid \<noteq> 0" "cid \<notin> holders L SHARED_LOCKED d"
  shows "rl_ref_count (load_rw (m_p_lock_memory s) (unat off)) \<noteq> - 1"
proof
  assume "rl_ref_count (load_rw (m_p_lock_memory s) (unat off)) = - 1"
  then have "card (holders L SHARED_LOCKED d) = 2 ^ 32 - 1" using assms(1)
    by (auto simp: rw_sys_inv_def rw_inv_def rw_abs_def agrees_def unat_max_u32)
  moreover have "0 \<notin> holders L SHARED_LOCKED d"
    using assms(1) by (simp add: rw_sys_inv_def holders_def lstate_def entries_ok_def)
  ultimately show False using readers_below_max[OF assms(2,3)] by simp
qed

lemma rw_step_inv:
  assumes i: "rw_sys_inv L off (d, s)" and step: "rw_step L (d, s) (d', s')"
  shows "rw_sys_inv L off (d', s')"
proof -
  let ?l = "load_rw (m_p_lock_memory s) (unat off)"
  let ?ex = "holders L EXCLUSIVE_LOCKED d" and ?sh = "holders L SHARED_LOCKED d"
  have ok: "entries_ok L off d" and off: "unat off \<le> LOCK_MEMORY_SIZE - 16" and ri: "rw_inv ?l"
    and ag: "agrees (rw_abs ?l) ?ex ?sh" using i by (auto simp: rw_sys_inv_def)
  from step ok show ?thesis
  proof (cases rule: rw_step_cases)
    case 1
    then show ?thesis using i by (simp add: rw_sys_inv_def holders_def)
  next
    case (2 cid up tv0 tvs tv1 e e')
    have st: "cid \<in> ?ex \<longleftrightarrow> m_lock_state e = EXCLUSIVE_LOCKED" "cid \<in> ?sh \<longleftrightarrow> m_lock_state e = SHARED_LOCKED"
      using 2(3) by (auto simp: holders_def)
    have same: "rw_sys_inv L off (d', s')" if "s' = s" "m_lock_state e' = m_lock_state e"
    proof -
      have "lstate L d' = lstate L d" using 2(3,4) that(2) by (simp add: fun_upd_idem)
      then show ?thesis using i 2(5) that(1) by (simp add: rw_sys_inv_def holders_def)
    qed
    from 2(6)[unfolded rw_call_def] consider "s' = s" "m_lock_state e' = m_lock_state e"
      | k m rep where "rw_enabled k (m_lock_state e)" "rw_msg cid k e m"
        "server_send up tv0 tvs tv1 cid [m] s = (s', rep)" "rw_reply k m rep (m_lock_state e) (m_lock_state e')"
      by blast
    then show ?thesis
    proof cases
      case 1
      then show ?thesis by (rule same)
    next
      case (2 k m rep)
      have ov: "rl_ref_count ?l \<noteq> - 1" if "k = SHARED_TRYLOCK"
        using rw_not_saturated[OF i \<open>cid \<noteq> 0\<close>] st 2(1) that by auto
      show ?thesis
      proof (cases up)
        case False
        then show ?thesis using 2(3,4) same by (auto simp: server_send_def rw_reply_def)
      next
        case True
        from server_send_rw[OF 2(2,1), unfolded \<open>m_lock_offset e = off\<close>, OF off \<open>cid \<noteq> 0\<close> ri ov]
        obtain s1 r where R: "server_send True tv0 tvs tv1 cid [m] s = (s1, Net_Reply [r])"
          "check_resp_lock_cmd_msg m r" "rw_inv (load_rw (m_p_lock_memory s1) (unat off))"
          "rw_spec_step k cid (rw_claim k cid) (rw_abs ?l) =
            (rw_abs (load_rw (m_p_lock_memory s1) (unat off)), op_ret r = DLOCK_SUCCESS)" by metis
        have s1: "s' = s1" "rep = Net_Reply [r]" using R(1) 2(3) True by simp_all
        have st': "if op_ret r = DLOCK_SUCCESS then m_lock_state e' = rw_next k
          else m_lock_state e' = m_lock_state e \<or> m_lock_state e' = LOCK_INITIALIZED"
          using 2(4) R(2) s1(2) by (simp add: rw_reply_def)
        have pos: "0 < n" if "rw_abs ?l = RW_Shared n" for n
          using that by (auto simp: rw_abs_def unat_gt_0 split: if_splits)
        show ?thesis
          using agrees_step[OF ag st 2(1) R(4) st' pos] R(3) s1(1) off \<open>entries_ok L off d'\<close>
            holders_upd[OF \<open>lstate L d' = (lstate L d)(cid := Some (m_lock_state e'))\<close>]
          by (simp add: rw_sys_inv_def)
      qed
    qed
  qed
qed

interpretation rw_sys: step_system "rw_sys_init L off" "rw_step L" "rw_sys_inv L off"
proof
  fix s assume "rw_sys_init L off s"
  then show "rw_sys_inv L off s"
    by (auto simp: rw_sys_init_def rw_sys_inv_def rw_inv_def rw_abs_def agrees_def)
next
  fix s t assume "rw_sys_inv L off s" "rw_step L s t"
  then show "rw_sys_inv L off t" using rw_step_inv by (metis surj_pair)
qed

lemma rw_reach_inv: "rw_sys_init L off a \<Longrightarrow> (rw_step L)\<^sup>*\<^sup>* a b \<Longrightarrow> rw_sys_inv L off b"
  by (rule rw_sys.inv_reachable)

lemma agrees_iff:
  assumes "rw_sys_inv L off (d, s)"
  defines "l \<equiv> load_rw (m_p_lock_memory s) (unat off)"
  shows "rw_abs l = RW_Free \<longleftrightarrow> holders L EXCLUSIVE_LOCKED d = {} \<and> holders L SHARED_LOCKED d = {}"
    and "(\<exists>h. rw_abs l = RW_Excl h) \<longleftrightarrow> holders L EXCLUSIVE_LOCKED d \<noteq> {}"
  using assms(1)
  by (auto simp: rw_sys_inv_def agrees_def l_def rw_abs_def unat_eq_0 split: if_splits)

lemma rw_fill_trylock:
  assumes "m_lock_type e = DLOCK_RW" "req_lock_op req = LOCK_EXCLUSIVE \<or> req_lock_op req = LOCK_SHARED"
    and "m_lock_state e \<noteq> EXCLUSIVE_LOCKED" "m_lock_state e \<noteq> SHARED_LOCKED"
  shows "\<exists>m. fill_cmd_msg cid mid req e zero_msg = (e, m, DLOCK_SUCCESS, [])"
  using assms by (auto simp: fill_cmd_msg_def rw_fill_cmd_msg_def rw_fill_tail_def Let_def)

text \<open>What \<open>trylock_client\<close> computes when the command is sent and answered.\<close>

lemma trylock_client_answered:
  assumes e: "m_lock_map c (req_lock_id req) = Some e" "m_lock_type e = DLOCK_RW" "\<not> m_async_flag c"
    and req: "req_lock_op req = LOCK_EXCLUSIVE \<or> req_lock_op req = LOCK_SHARED" "expire_time req \<noteq> 0"
    and st: "m_lock_state e \<noteq> EXCLUSIVE_LOCKED" "m_lock_state e \<noteq> SHARED_LOCKED"
    and srv: "\<And>m. rw_msg cid (rw_code (req_lock_op req) (m_lock_state e)) e m \<Longrightarrow>
      \<exists>s' r. send [m] s = (s', Net_Reply [r]) \<and> check_resp_lock_cmd_msg m r \<and> (op_ret r = DLOCK_SUCCESS) = ok"
    and t: "trylock_client send cid req res c s = (c', s', res', ret)"
  shows "(ret = DLOCK_SUCCESS) = ok \<and> (ok \<longrightarrow>
    map_option m_lock_state (m_lock_map c' (req_lock_id req)) = Some (rw_next (rw_code (req_lock_op req) (m_lock_state e))))"
proof -
  let ?k = "rw_code (req_lock_op req) (m_lock_state e)"
  obtain c1 mid where g: "generate_message_id c = (c1, mid)" by fastforce
  obtain m where f: "fill_cmd_msg cid mid req e zero_msg = (e, m, DLOCK_SUCCESS, [])"
    using rw_fill_trylock[OF e(2) req(1) st] by metis
  note F = rw_fill_cases[OF e(2) f]
  obtain s1 r where R: "send [m] s = (s1, Net_Reply [r])" "check_resp_lock_cmd_msg m r"
    "(op_ret r = DLOCK_SUCCESS) = ok" using srv F(3) by blast
  have k: "op_code r = req_val ?k" "rw_enabled ?k (m_lock_state e)"
    using R(2) F(3) by (auto simp: check_resp_lock_cmd_msg_def rw_msg_def)
  obtain e2 res2 ret3 cs' where u: "update_state_with_cmd_msg (Some r) res e = (e2, res2, ret3, cs')"
    by (metis prod_cases4)
  have "m_lock_state e2 = rw_next ?k" "ret3 = DLOCK_SUCCESS" using rw_update_cases[OF e(2) u] k by auto
  then show ?thesis using t e req g f F(2) R u
    by (cases ok) (auto simp: trylock_client_def xchg_cmd_msg_def Let_def)
qed

text \<open>A channel that delivers the request and loses the reply.\<close>

definition server_lossy :: "int \<Rightarrow> int list \<Rightarrow> int \<Rightarrow> u32 \<Rightarrow> lock_memory transport" where
  "server_lossy tv0 tvs tv1 c reqs s =
    (fst (server_send True tv0 tvs tv1 c reqs s), Net_Fail DLOCK_BAD_RESPONSE DEBUG_STATS_NETWORK_FAIL)"

definition shared_entry :: "u32 \<Rightarrow> u32 \<Rightarrow> client_entry_c \<Rightarrow> bool" where
  "shared_entry L off c \<longleftrightarrow> \<not> m_async_flag c \<and> (\<exists>e. m_lock_map c L = Some e \<and> m_lock_type e = DLOCK_RW \<and>
     m_lock_offset e = off \<and> m_lock_state e = SHARED_LOCKED \<and> m_ref_count e = 1)"

lemma unlock_client_shared:
  assumes c: "shared_entry L off c" and u: "unlock_client send cid L res c s = (c', s', res', ret)"
  obtains m e rep where "rw_msg cid SHARED_UNLOCK e m" "m_lock_offset e = off" "send [m] s = (s', rep)"
    "\<And>st k. rep = Net_Fail st k \<Longrightarrow> shared_entry L off c'"
    "\<And>r. rep = Net_Reply [r] \<Longrightarrow> check_resp_lock_cmd_msg m r \<Longrightarrow> op_ret r = DLOCK_SUCCESS \<Longrightarrow> ret = DLOCK_SUCCESS"
proof -
  obtain e where e: "m_lock_map c L = Some e" "m_lock_type e = DLOCK_RW" "m_lock_offset e = off"
    "m_lock_state e = SHARED_LOCKED" "m_ref_count e = 1" "\<not> m_async_flag c"
    using c by (auto simp: shared_entry_def)
  obtain c1 mid where g: "generate_message_id c = (c1, mid)" by fastforce
  have g1: "m_async_flag c1 = m_async_flag c" using g by (auto simp: generate_message_id_def)
  let ?e0 = "e\<lparr>m_ref_count := 0\<rparr>"
  obtain m where f: "fill_cmd_msg cid mid (unlock_req L) e zero_msg = (?e0, m, DLOCK_SUCCESS, [])"
    using e by (simp add: fill_cmd_msg_def rw_fill_cmd_msg_def rw_fill_tail_def unlock_req_def Let_def)
  have M: "rw_msg cid SHARED_UNLOCK e m"
    using rw_fill_cases(3)[OF e(2) f] e(4) by (simp add: unlock_req_def rw_code_def)
  obtain s1 rep where S: "send [m] s = (s1, rep)" by fastforce
  have "s' = s1"
    using u e g f S by (auto simp: unlock_client_def xchg_cmd_msg_def Let_def
        split: net_reply.splits list.splits if_splits prod.splits)
  moreover have "shared_entry L off c'" if "rep = Net_Fail st k" for st k
    using u e g f S that g1 by (auto simp: unlock_client_def xchg_cmd_msg_def Let_def shared_entry_def clear_lock_val_def)
  moreover have "ret = DLOCK_SUCCESS"
    if r: "rep = Net_Reply [r]" "check_resp_lock_cmd_msg m r" "op_ret r = DLOCK_SUCCESS" for r
  proof -
    have k: "op_code r = req_val SHARED_UNLOCK" using r(2) M by (simp add: rw_msg_def check_resp_lock_cmd_msg_def)
    obtain e2 res2 ret3 cs' where up: "update_state_with_cmd_msg (Some r) res (clear_lock_val ?e0) = (e2, res2, ret3, cs')"
      by (metis prod_cases4)
    have "ret3 = DLOCK_SUCCESS"
      using rw_update_cases(3)[OF _ up _ k, of SHARED_LOCKED] e(2) by (simp add: clear_lock_val_def)
    then show ?thesis using u e g f S r up by (auto simp: unlock_client_def xchg_cmd_msg_def Let_def)
  qed
  ultimately show thesis using that[OF M e(3)] S by metis
qed

lemma server_shared_unlock:
  assumes m: "rw_msg cid SHARED_UNLOCK e m" and off: "unat (m_lock_offset e) \<le> LOCK_MEMORY_SIZE - 16" and cid: "cid \<noteq> 0"
    and l: "rl_client_id (load_rw (m_p_lock_memory s) (unat (m_lock_offset e))) = 0"
      "rl_ref_count (load_rw (m_p_lock_memory s) (unat (m_lock_offset e))) = n" "n \<noteq> 0"
  obtains s' r where "server_send True tv0 tvs tv1 cid [m] s = (s', Net_Reply [r])" "check_resp_lock_cmd_msg m r"
    "op_ret r = DLOCK_SUCCESS" "rl_client_id (load_rw (m_p_lock_memory s') (unat (m_lock_offset e))) = 0"
    "rl_ref_count (load_rw (m_p_lock_memory s') (unat (m_lock_offset e))) = n - 1"
proof -
  let ?a = "unat (m_lock_offset e)"
  have "rw_abs (load_rw (m_p_lock_memory s) ?a) = RW_Shared (unat n)" using l by (simp add: rw_abs_def)
  moreover have "unat n = Suc 0 \<longleftrightarrow> n = 1" by (simp add: word_unat_eq_iff)
  moreover obtain s' r where R: "server_send True tv0 tvs tv1 cid [m] s = (s', Net_Reply [r])"
    "check_resp_lock_cmd_msg m r" "rw_spec_step SHARED_UNLOCK cid (rw_claim SHARED_UNLOCK cid)
      (rw_abs (load_rw (m_p_lock_memory s) ?a)) = (rw_abs (load_rw (m_p_lock_memory s') ?a), op_ret r = DLOCK_SUCCESS)"
    by (rule server_send_rw[OF m, of SHARED_LOCKED s tv0 tvs tv1, OF _ off cid]) (use l in \<open>auto simp: rw_inv_def\<close>)
  ultimately have "rw_abs (load_rw (m_p_lock_memory s') ?a) = (if n = 1 then RW_Free else RW_Shared (unat n - 1))"
    "op_ret r = DLOCK_SUCCESS" by (auto simp: rw_claim_def)
  then show thesis using R(1,2) l(3)
    by (intro that[OF R(1,2)])
      (auto simp: rw_abs_def unat_minus_one word_unat_eq_iff[of _ "n - 1"] split: if_splits)
qed

text \<open>Two fresh clients of one lock, for the concrete instances below.\<close>

definition demo_client :: "u32 \<Rightarrow> client_entry_c" where
  "demo_client cid = \<lparr>m_client_id = cid, m_lock_map = [9 \<mapsto> lock_entry_c_new 9 DLOCK_RW 32 0], m_async_flag = False,
     m_async_id = 0, m_async_op = UNLOCK, m_async_start = 0, c_stats = (\<lambda>_. 0), m_next_message_id = 0,
     m_object_map = Map.empty\<rparr>"

definition demo_clients :: dlock_client where
  "demo_clients = \<lparr>m_is_inited = True, m_client_map = [1 \<mapsto> demo_client 1, 2 \<mapsto> demo_client 2]\<rparr>"

lemma demo_init: "rw_sys_init 9 32 (demo_clients, lock_memory_new LOCK_MEMORY_SIZE True)"
  by (auto simp: rw_sys_init_def entries_ok_def demo_clients_def demo_client_def holders_def lstate_def
      lock_entry_c_new_def load_new split: if_splits)

subsection \<open>Properties\<close>

text \<open>
  Property C11.  The client accepts what the server answers: for every batch of commands whose
  first one carries the magic number and version of the protocol, whatever the commands, the lock
  memory and the clock readings, the exchange with the server ends with success and as many
  replies as requests, and no failure counter moves.
\<close>

theorem server_reply_accepted:
  assumes "check_cmd_msg_common_field m"
  shows "\<exists>s' out. xchg_batch_lock_cmd_msg (server_send True tv0 tvs tv1 cid) (m # rest) c s =
    (c, s', DLOCK_SUCCESS, out) \<and> length out = Suc (length rest)"
proof -
  obtain s' out where S: "server_send True tv0 tvs tv1 cid (m # rest) s = (s', Net_Reply out)"
    and A: "list_all2 check_resp_lock_cmd_msg (m # rest) out"
    using server_send_replies[OF assms] by metis
  have "length out = Suc (length rest)" using list_all2_lengthD[OF A] by simp
  then show ?thesis using S A by (simp add: xchg_batch_lock_cmd_msg_def check_batch_resp_lock_cmd_msg_def)
qed

theorem server_reply_accepted_witness:
  "\<exists>s' out. xchg_batch_lock_cmd_msg (server_send True 0 [] 0 1)
      [init_cmd_msg_common_field 5 zero_msg, zero_msg] (demo_client 1) (lock_memory_new LOCK_MEMORY_SIZE True) =
    (demo_client 1, s', DLOCK_SUCCESS, out) \<and> length out = 2"
  using server_reply_accepted[of "init_cmd_msg_common_field 5 zero_msg" 0 "[]" 0 1 "[zero_msg]" "demo_client 1"
      "lock_memory_new LOCK_MEMORY_SIZE True"]
  by (simp add: init_cmd_msg_common_field_def check_cmd_msg_common_field_def numeral_2_eq_2)





text \<open>
  Property C12.  What a lost reply to a shared unlock does.  A client that holds a lock shared
  calls \<open>unlock\<close>, the server performs it, the reply is lost: the client still considers itself a
  holder, with its reference count restored, so the application calls \<open>unlock\<close> again, which the
  server answers with success.  The two calls take two from the server's reader count: the
  share of another reader is released while that reader still relies on it.
\<close>

theorem lost_unlock_reply_releases_twice:
  assumes "m_is_inited d" "m_client_map d cid = Some c" "cid \<noteq> 0" "shared_entry L off c"
    and "unat off \<le> LOCK_MEMORY_SIZE - 16"
    and "rl_client_id (load_rw (m_p_lock_memory s) (unat off)) = 0"
    and "rl_ref_count (load_rw (m_p_lock_memory s) (unat off)) = n" "2 \<le> n"
    and "unlock (server_lossy tv0 tvs tv1 cid) cid L res d s = (d1, s1, res1, ret1)"
    and "unlock (server_send True tv2 tvs' tv3 cid) cid L res d1 s1 = (d2, s2, res2, ret2)"
  shows "lstate L d1 cid = Some SHARED_LOCKED \<and> ret2 = DLOCK_SUCCESS \<and>
    rl_ref_count (load_rw (m_p_lock_memory s2) (unat off)) = n - 2"
proof -
  obtain c1 where c1: "m_client_map d1 cid = Some c1" "m_is_inited d1"
    and u1: "unlock_client (server_lossy tv0 tvs tv1 cid) cid L res c s = (c1, s1, res1, ret1)"
    using assms(1,2,9) by (auto simp: unlock_def with_client_def Let_def split: prod.splits)
  obtain c2 where u2: "unlock_client (server_send True tv2 tvs' tv3 cid) cid L res c1 s1 = (c2, s2, res2, ret2)"
    using c1 assms(10) by (auto simp: unlock_def with_client_def Let_def split: prod.splits)
  have n: "n \<noteq> 0" "n - 1 \<noteq> 0" using assms(8) by (auto simp: word_le_nat_alt)
  obtain m e rep where 1: "rw_msg cid SHARED_UNLOCK e m" "m_lock_offset e = off"
    "server_lossy tv0 tvs tv1 cid [m] s = (s1, rep)" "\<And>st k. rep = Net_Fail st k \<Longrightarrow> shared_entry L off c1"
    using unlock_client_shared[OF assms(4) u1] by metis
  then have sh: "shared_entry L off c1" by (auto simp: server_lossy_def)
  have s1: "rl_client_id (load_rw (m_p_lock_memory s1) (unat off)) = 0"
    "rl_ref_count (load_rw (m_p_lock_memory s1) (unat off)) = n - 1"
    using server_shared_unlock[OF 1(1), of s n tv0 tvs tv1, unfolded 1(2), OF assms(5,3,6,7) n(1)] 1(3)
    by (metis fst_conv server_lossy_def)+
  obtain m2 e2 rep2 where 2: "rw_msg cid SHARED_UNLOCK e2 m2" "m_lock_offset e2 = off"
    "server_send True tv2 tvs' tv3 cid [m2] s1 = (s2, rep2)" "\<And>r. rep2 = Net_Reply [r] \<Longrightarrow>
      check_resp_lock_cmd_msg m2 r \<Longrightarrow> op_ret r = DLOCK_SUCCESS \<Longrightarrow> ret2 = DLOCK_SUCCESS"
    using unlock_client_shared[OF sh u2] by metis
  have "ret2 = DLOCK_SUCCESS \<and> rl_ref_count (load_rw (m_p_lock_memory s2) (unat off)) = n - 1 - 1"
    using server_shared_unlock[OF 2(1), of s1 "n - 1" tv2 tvs' tv3, unfolded 2(2), OF assms(5,3) s1 n(2)] 2(3,4)
    by (metis prod.inject)
  moreover have "lstate L d1 cid = Some SHARED_LOCKED" using sh c1 by (auto simp: lstate_def shared_entry_def)
  ultimately show ?thesis by simp
qed

theorem lost_unlock_reply_releases_twice_witness:
  "\<exists>d s d1 s1 d2 s2 res1 res2 ret1. lstate 9 d 2 = Some SHARED_LOCKED \<and>
    rl_ref_count (load_rw (m_p_lock_memory s) 32) = 2 \<and>
    unlock (server_lossy 0 [0] 0 1) 1 9 zero_ls d s = (d1, s1, res1, ret1) \<and>
    unlock (server_send True 0 [0] 0 1) 1 9 zero_ls d1 s1 = (d2, s2, res2, DLOCK_SUCCESS) \<and>
    rl_ref_count (load_rw (m_p_lock_memory s2) 32) = 0"
proof -
  let ?e = "(lock_entry_c_new 9 DLOCK_RW 32 0)\<lparr>m_lock_state := SHARED_LOCKED, m_ref_count := 1\<rparr>"
  let ?c = "\<lambda>i. (demo_client i)\<lparr>m_lock_map := [9 \<mapsto> ?e]\<rparr>"
  let ?d = "\<lparr>m_is_inited = True, m_client_map = [1 \<mapsto> ?c 1, 2 \<mapsto> ?c 2]\<rparr>"
  let ?s = "(lock_memory_new LOCK_MEMORY_SIZE True)\<lparr>m_p_lock_memory := store_rw (\<lambda>_. 0) 32
    \<lparr>rl_timeout = 5, rl_client_id = 0, rl_ref_count = 2, rl_rsvd = 0\<rparr>\<rparr>"
  have "m_is_inited ?d" "m_client_map ?d 1 = Some (?c 1)" by simp_all
  moreover have "shared_entry 9 32 (?c 1)" by (simp add: shared_entry_def demo_client_def lock_entry_c_new_def)
  moreover have "lstate 9 ?d 2 = Some SHARED_LOCKED" by (simp add: lstate_def)
  moreover have "rl_client_id (load_rw (m_p_lock_memory ?s) 32) = 0" "rl_ref_count (load_rw (m_p_lock_memory ?s) 32) = 2"
    by (simp_all add: rw_layout.ld_st)
  ultimately obtain d c and s :: lock_memory where D: "m_is_inited d" "m_client_map d 1 = Some c" "shared_entry 9 32 c"
    "lstate 9 d 2 = Some SHARED_LOCKED" "rl_client_id (load_rw (m_p_lock_memory s) 32) = 0"
    "rl_ref_count (load_rw (m_p_lock_memory s) 32) = 2" by (rule that)
  obtain d1 s1 res1 ret1 where u1: "unlock (server_lossy 0 [0] 0 1) 1 9 zero_ls d s = (d1, s1, res1, ret1)"
    by (metis prod_cases4)
  obtain d2 s2 res2 ret2 where u2: "unlock (server_send True 0 [0] 0 1) 1 9 zero_ls d1 s1 = (d2, s2, res2, ret2)"
    by (metis prod_cases4)
  from D lost_unlock_reply_releases_twice[OF D(1,2) _ D(3) _ _ _ _ u1 u2, of 2]
  have "ret2 = DLOCK_SUCCESS" "rl_ref_count (load_rw (m_p_lock_memory s2) 32) = 0" by auto
  with D(4,6) u1 u2 show ?thesis by blast
qed

end
