(* ===== verification/DLock_ClientLaws.thy ===== *)
theory DLock_ClientLaws
  imports DLock_Api
begin

section \<open>Laws of the client\<close>

text \<open>
  Facts about the client that hold for every transport, every reply and every interleaving of
  API calls.  The locale \<open>entry_rel\<close> states what a relation between two versions of a lock
  entry must satisfy so that every API call keeps it; it is proved once that the calls,
  synchronous, batched and asynchronous, lift such a relation from entries to clients.
\<close>

subsection \<open>Synchronous and asynchronous commands agree\<close>

text \<open>The states each lock type can be in, and entries whose reference count covers a hold.\<close>

definition entry_typed :: "lock_entry_c \<Rightarrow> bool" where
  "entry_typed e \<longleftrightarrow>
    (case m_lock_type e of
       DLOCK_ATOMIC \<Rightarrow> m_lock_state e \<in> {LOCK_INITIALIZED, EXCLUSIVE_LOCKED, UNLOCKED}
     | DLOCK_RW \<Rightarrow> m_lock_state e \<in> {LOCK_INITIALIZED, EXCLUSIVE_LOCKED, SHARED_LOCKED, UNLOCKED}
     | DLOCK_FAIR \<Rightarrow> True)"

definition locked :: "lock_entry_c \<Rightarrow> bool" where
  "locked e \<longleftrightarrow> m_lock_state e = EXCLUSIVE_LOCKED \<or> m_lock_state e = SHARED_LOCKED"

lemma u32_pred_pos: "(n :: u32) \<noteq> 0 \<Longrightarrow> 0 < n - 1 \<longleftrightarrow> 1 < n"
  by (auto simp: word_less_nat_alt unat_minus_one unat_gt_0)

lemmas fill_defs = set_op_def set_target_def set_rw_client_def op_send_def op_einval_def op_already_unlocked_def
  debug_stats_count_incre_def Let_def

lemma atomic_fill_agree:
  assumes "m_lock_state e \<in> {LOCK_INITIALIZED, EXCLUSIVE_LOCKED, UNLOCKED}" "m_lock_state e = EXCLUSIVE_LOCKED \<Longrightarrow> m_ref_count e \<noteq> 0"
    and "atomic_fill_cmd_msg cid req e m = (e1, m1, r1, cs1)" "atomic_async_fill_cmd_msg cid req e m = (e2, m2, r2, cs2)"
  shows "r1 = r2 \<and> (r1 = DLOCK_SUCCESS \<longrightarrow> m1 = m2)"
  using assms
  by (cases "req_lock_op req"; cases "m_lock_state e")
    (auto simp: atomic_fill_cmd_msg_def atomic_fill_tail_def atomic_async_fill_cmd_msg_def fill_defs u32_pred_pos split: if_splits)

lemma rw_fill_agree:
  assumes "m_lock_state e \<in> {LOCK_INITIALIZED, EXCLUSIVE_LOCKED, SHARED_LOCKED, UNLOCKED}"
    and "locked e \<Longrightarrow> m_ref_count e \<noteq> 0"
    and "rw_fill_cmd_msg cid req e m = (e1, m1, r1, cs1)" "rw_async_fill_cmd_msg cid req e m = (e2, m2, r2, cs2)"
  shows "r1 = r2 \<and> (r1 = DLOCK_SUCCESS \<longrightarrow> m1 = m2)"
  using assms
  by (cases "req_lock_op req"; cases "m_lock_state e")
    (auto simp: rw_fill_cmd_msg_def rw_fill_tail_def rw_async_fill_cmd_msg_def fill_defs u32_pred_pos locked_def split: if_splits)

lemma fair_fill_agree:
  assumes "locked e \<Longrightarrow> m_ref_count e \<noteq> 0"
    and "fair_fill_cmd_msg req e m = (e1, m1, r1, cs1)" "fair_async_fill_cmd_msg req e m = (e2, m2, r2, cs2)"
  shows "r1 = r2 \<and> (r1 = DLOCK_SUCCESS \<longrightarrow> m1 = m2)"
  using assms
  by (cases "req_lock_op req"; cases "m_lock_state e")
    (auto simp: fair_fill_cmd_msg_def fair_async_fill_cmd_msg_def fill_defs u32_pred_pos locked_def split: if_splits)



subsection \<open>Relations every call keeps\<close>

definition lift_entries :: "(lock_entry_c \<Rightarrow> lock_entry_c \<Rightarrow> bool) \<Rightarrow> client_entry_c \<Rightarrow> client_entry_c \<Rightarrow> bool" where
  "lift_entries R c c' \<longleftrightarrow> (\<forall>L. rel_option R (m_lock_map c L) (m_lock_map c' L))"

locale entry_rel =
  fixes R :: "lock_entry_c \<Rightarrow> lock_entry_c \<Rightarrow> bool"
  assumes refl: "R e e"
    and trans: "R e1 e2 \<Longrightarrow> R e2 e3 \<Longrightarrow> R e1 e3"
    and fill: "fill_cmd_msg cid mid req e m = (e', rest) \<Longrightarrow> R e e'"
    and async_fill: "async_fill_cmd_msg cid mid req e m = (e', rest) \<Longrightarrow> R e e'"
    and update: "update_state_with_cmd_msg p res e = (e', rest') \<Longrightarrow> R e e'"
    and async_update: "async_update_state_with_cmd_msg p res e = (e', rest') \<Longrightarrow> R e e'"
    and clear: "R e (clear_lock_val e)"
    and count: "R e (e\<lparr>m_ref_count := n\<rparr>)"
    and init: "R e (e\<lparr>m_lock_state := LOCK_INITIALIZED\<rparr>)"
begin

text \<open>Lifted to a client: the same locks, and each entry related to its old version.\<close>

lemma lift_refl: "lift_entries R c c"
  by (simp add: lift_entries_def option.rel_refl refl)

lemma lift_same: "m_lock_map c' = m_lock_map c \<Longrightarrow> lift_entries R c c'"
  by (simp add: lift_entries_def option.rel_refl refl)

lemma lift_trans: "lift_entries R a b \<Longrightarrow> lift_entries R b c \<Longrightarrow> lift_entries R a c"
  using option.rel_transp[of R] unfolding lift_entries_def transp_def by (meson trans)

lemma lift_put:
  "m_lock_map c L = Some e \<Longrightarrow> R e e' \<Longrightarrow> lift_entries R c x \<Longrightarrow> lift_entries R c (put_entry L e' x)"
  by (simp add: lift_entries_def)

lemma lift_bump: "lift_entries R c x \<Longrightarrow> lift_entries R c (c_bump cs x)"
  by (simp add: lift_entries_def)

lemma lift_next: "lift_entries R c x \<Longrightarrow> lift_entries R c (x\<lparr>m_next_message_id := i\<rparr>)"
  by (simp add: lift_entries_def)

lemma lift_xchg: "xchg_cmd_msg send m x w = (y, rest) \<Longrightarrow> lift_entries R c x \<Longrightarrow> lift_entries R c y"
  by (cases rest) (simp add: lift_entries_def xchg_cmd_msg_map)

lemma lift_xchg_batch:
  "xchg_batch_lock_cmd_msg send cmds x w = (y, rest) \<Longrightarrow> lift_entries R c x \<Longrightarrow> lift_entries R c y"
  by (auto simp: xchg_batch_lock_cmd_msg_def lift_bump split: prod.splits net_reply.splits if_splits)

text \<open>The steps of an entry through a call, as rules that follow the shape of the new entry.\<close>

lemma count': "R a b \<Longrightarrow> R a (b\<lparr>m_ref_count := n\<rparr>)" by (rule trans[OF _ count])
lemma init': "R a b \<Longrightarrow> R a (b\<lparr>m_lock_state := LOCK_INITIALIZED\<rparr>)" by (rule trans[OF _ init])
lemma clear': "R a b \<Longrightarrow> R a (clear_lock_val b)" by (rule trans[OF _ clear])
lemma fill': "fill_cmd_msg cid mid req b m = (e, rest) \<Longrightarrow> R a b \<Longrightarrow> R a e" by (rule trans[OF _ fill])
lemma async_fill': "async_fill_cmd_msg cid mid req b m = (e, rest) \<Longrightarrow> R a b \<Longrightarrow> R a e"
  by (rule trans[OF _ async_fill])
lemma update': "update_state_with_cmd_msg p res b = (e, rest') \<Longrightarrow> R a b \<Longrightarrow> R a e" by (rule trans[OF _ update])
lemma async_update': "async_update_state_with_cmd_msg p res b = (e, rest') \<Longrightarrow> R a b \<Longrightarrow> R a e"
  by (rule trans[OF _ async_update])

lemma reset_on_fail': "R a b \<Longrightarrow> R a (reset_on_fail r b)"
  using count'[OF init'[of a b], of 0] by (simp add: reset_on_fail_def)

lemmas call_intros = lift_put lift_bump lift_next lift_refl refl count' init' clear' reset_on_fail'

lemma trylock_client_rel:
  assumes "trylock_client send cid req res c w = (c', rest)"
  shows "lift_entries R c c'"
  using assms
  by (auto simp: trylock_client_def trans_trylock_op_to_extend_def Let_def generate_message_id_def
      split: if_splits option.splits prod.splits intro!: call_intros intro: lift_xchg fill' update')

lemma unlock_client_rel:
  assumes "unlock_client send cid L res c w = (c', rest)"
  shows "lift_entries R c c'"
  using assms
  by (auto simp: unlock_client_def Let_def generate_message_id_def
      split: if_splits option.splits prod.splits intro!: call_intros intro: lift_xchg fill' update')

lemma lock_extend_client_rel:
  assumes "lock_extend_client send cid req res c w = (c', rest)"
  shows "lift_entries R c c'"
  using assms
  by (auto simp: lock_extend_client_def Let_def generate_message_id_def
      split: if_splits option.splits prod.splits intro!: call_intros intro: lift_xchg fill' update')

lemma batch_construct_rel:
  assumes "\<And>r o1 m c c' st. f r o1 m c = (c', st) \<Longrightarrow> lift_entries R c c'"
  shows "batch_construct f buf n reqs os c = (c', rest) \<Longrightarrow> lift_entries R c c'"
proof (induction reqs arbitrary: buf n os c c' rest)
  case (Cons r rs)
  show ?case
  proof (cases os)
    case Nil
    then show ?thesis using Cons.prems by (simp add: lift_refl)
  next
    case os: (Cons o1 os')
    obtain c1 st where f: "f r o1 (buf n) c = (c1, st)" by fastforce
    have "lift_entries R c1 c'"
      using Cons.prems os f by (cases st) (auto simp: Let_def split: prod.splits intro: Cons.IH)
    with assms[OF f] show ?thesis by (rule lift_trans)
  qed
qed (simp add: lift_refl)

lemma batch_update_rel:
  assumes "\<And>r m o1 c c' o'. f r m o1 c = (c', o') \<Longrightarrow> lift_entries R c c'"
  shows "batch_update f reqs bm os cmds c = (c', rest) \<Longrightarrow> lift_entries R c c'"
  using assms
proof (induction f reqs bm os cmds c arbitrary: c' rest rule: batch_update.induct)
  case (1 f r rs bm o1 os m cmds c)
  obtain c1 o' where f: "f r m o1 c = (c1, o')" by (metis surj_pair)
  have "lift_entries R c1 c'" using 1 f by (auto simp: Let_def split: prod.splits)
  with 1(3)[OF f] show ?case by (rule lift_trans)
next
  case (2 f r rs bm o1 os cmds c)
  then show ?case by (auto simp: Let_def split: prod.splits)
qed (auto intro: lift_refl)

lemma batch_steps_rel:
  "batch_trylock_step mid req o1 m0 c = (c', st) \<Longrightarrow> lift_entries R c c'"
  "batch_unlock_step mid L o1 m0 c = (c', st) \<Longrightarrow> lift_entries R c c'"
  "batch_lock_extend_step mid req o1 m0 c = (c', st) \<Longrightarrow> lift_entries R c c'"
  by (auto simp: batch_trylock_step_def batch_unlock_step_def batch_lock_extend_step_def Let_def
      split: if_splits option.splits prod.splits intro!: call_intros intro: fill' update')

lemma batch_updates_rel:
  "batch_trylock_update_state req r o1 c = (c', o') \<Longrightarrow> lift_entries R c c'"
  "batch_unlock_update_state L r o1 c = (c', o') \<Longrightarrow> lift_entries R c c'"
  "batch_lock_extend_update_state req r o1 c = (c', o') \<Longrightarrow> lift_entries R c c'"
  by (auto simp: batch_trylock_update_state_def batch_unlock_update_state_def batch_lock_extend_update_state_def Let_def
      split: if_splits option.splits prod.splits intro!: call_intros intro: update')

lemma batch_trylock_bad_rel: "lift_entries R c (batch_trylock_update_ref_count_on_bad_resp reqs bm cmds c)"
proof (induction reqs bm cmds c rule: batch_trylock_update_ref_count_on_bad_resp.induct)
  case (1 req rs bm m cmds c)
  then show ?case
    by (auto split: option.splits intro!: call_intros intro: lift_trans[rotated])
qed (auto intro: lift_refl)

lemma batch_unlock_bad_rel: "lift_entries R c (batch_unlock_update_ref_count_on_bad_resp ids bm cmds c)"
proof (induction ids bm cmds c rule: batch_unlock_update_ref_count_on_bad_resp.induct)
  case (1 L rs b bm cmds c)
  have "lift_entries R c (if b then (case m_lock_map c L of None \<Rightarrow> c_bump [DEBUG_STATS_LOCK_NOT_GET] c
    | Some e \<Rightarrow> put_entry L (e\<lparr>m_ref_count := m_ref_count e + 1\<rparr>) c) else c)"
    by (auto split: option.splits intro!: call_intros)
  from lift_trans[OF this 1] show ?case by simp
qed (auto intro: lift_refl)

lemma batch_call_rel:
  assumes step: "\<And>mid r o1 m c c' st. step mid r o1 m c = (c', st) \<Longrightarrow> lift_entries R c c'"
    and upd: "\<And>r m o1 c c' o'. upd r m o1 c = (c', o') \<Longrightarrow> lift_entries R c c'"
    and bad: "\<And>reqs bm cmds c. lift_entries R c (bad reqs bm cmds c)"
    and "batch_call step upd bad send buf reqs os c w = (c', rest)"
  shows "lift_entries R c c'"
proof -
  obtain c0 mid where g: "generate_message_id c = (c0, mid)" by fastforce
  have c0: "lift_entries R c c0" using g by (auto simp: generate_message_id_def intro!: call_intros)
  show ?thesis
  proof (cases "m_async_flag c \<or> buf = None")
    case True
    then show ?thesis using assms(4)
      by (cases "m_async_flag c"; cases buf) (auto simp: batch_call_def intro!: call_intros)
  next
    case False
    then obtain b where b: "buf = Some b" "\<not> m_async_flag c" by auto
    obtain c1 os1 bm cmds where k: "batch_construct (step mid) b 0 reqs os c0 = (c1, os1, bm, cmds)" by (metis prod_cases4)
    have c1: "lift_entries R c c1" by (rule lift_trans[OF c0 batch_construct_rel[OF step k]])
    show ?thesis
    proof (cases "cmds = []")
      case True
      then show ?thesis using assms(4) b g k c1 by (auto simp: batch_call_def)
    next
      case False
      obtain c2 w' ret resps where x: "xchg_batch_lock_cmd_msg send cmds c1 w = (c2, w', ret, resps)" by (metis prod_cases4)
      have c2: "lift_entries R c c2" by (rule lift_xchg_batch[OF x c1])
      obtain c3 os2 where u: "batch_update upd reqs bm os1 resps c2 = (c3, os2)" by fastforce
      have "lift_entries R c c3" by (rule lift_trans[OF c2 batch_update_rel[OF upd u]])
      then show ?thesis using assms(4) b g k False x u lift_trans[OF c2 bad]
        by (auto simp: batch_call_def split: if_splits)
    qed
  qed
qed

lemma async_request_rel:
  assumes "m_lock_map c (req_lock_id req) = Some e" "async_request post now req e c w = (c', rest)"
  shows "lift_entries R c c'"
proof -
  have flags: "lift_entries R c (x\<lparr>m_async_id := i, m_async_op := k, m_async_flag := a, m_async_start := n\<rparr>)"
    if "lift_entries R c x" for x a i k n using that by (simp add: lift_entries_def)
  show ?thesis using assms
    by (auto simp: async_request_def Let_def generate_message_id_def
        split: if_splits option.splits prod.splits intro!: call_intros flags intro: async_fill')
qed

lemma async_check_rel:
  assumes "g_async_check k r res c = (c', rest)"
  shows "lift_entries R c c'"
  using assms by (auto simp: g_async_check_def trylock_result_check_def unlock_or_extend_result_check_def Let_def
      split: if_splits option.splits prod.splits intro!: call_intros intro: async_update')

lemma with_client_rel:
  assumes "with_client cid f res d w = (d', w', rest)"
    and "\<And>c c' rest. f c w = (c', rest) \<Longrightarrow> lift_entries R c c'"
  shows "\<forall>i. rel_option (lift_entries R) (m_client_map d i) (m_client_map d' i)"
proof -
  have r: "rel_option (lift_entries R) x x" for x by (simp add: option.rel_refl lift_refl)
  show ?thesis using assms
    by (cases rest) (auto simp: with_client_def Let_def r split: if_splits option.splits prod.splits)
qed

end

subsection \<open>Runs of the client API\<close>

text \<open>One API call, over any transport and with any results of receiving.\<close>

inductive api_step :: "dlock_client \<times> 'w \<Rightarrow> dlock_client \<times> 'w \<Rightarrow> bool" where
  a_trylock: "trylock send cid req res d w = (d', w', rest) \<Longrightarrow> api_step (d, w) (d', w')"
| a_unlock: "unlock send cid L res d w = (d', w', rest) \<Longrightarrow> api_step (d, w) (d', w')"
| a_extend: "lock_extend send cid req res d w = (d', w', rest) \<Longrightarrow> api_step (d, w) (d', w')"
| a_batch_trylock: "batch_trylock send cid buf reqs os d w = (d', w', rest') \<Longrightarrow> api_step (d, w) (d', w')"
| a_batch_unlock: "batch_unlock send cid buf ids os d w = (d', w', rest') \<Longrightarrow> api_step (d, w) (d', w')"
| a_batch_extend: "batch_lock_extend send cid buf reqs os d w = (d', w', rest') \<Longrightarrow> api_step (d, w) (d', w')"
| a_async: "async_lock_request post now cid req d w = (d', w', rest'') \<Longrightarrow> api_step (d, w) (d', w')"
| a_result: "async_result_check recv now cid res d w = (d', w', rest) \<Longrightarrow> api_step (d, w) (d', w')"

context entry_rel
begin

lemma api_step_rel:
  assumes "api_step (d, w) (d', w')"
  shows "\<forall>i. rel_option (lift_entries R) (m_client_map d i) (m_client_map d' i)"
  using assms
proof cases
  case a_trylock
  then show ?thesis unfolding trylock_def by (rule with_client_rel) (rule trylock_client_rel)
next
  case a_unlock
  then show ?thesis unfolding unlock_def by (rule with_client_rel) (rule unlock_client_rel)
next
  case a_extend
  then show ?thesis unfolding lock_extend_def by (rule with_client_rel) (rule lock_extend_client_rel)
next
  case a_batch_trylock
  then show ?thesis unfolding batch_trylock_def
    by (rule with_client_rel) (rule batch_call_rel[OF batch_steps_rel(1) batch_updates_rel(1) batch_trylock_bad_rel])
next
  case a_batch_unlock
  then show ?thesis unfolding batch_unlock_def
    by (rule with_client_rel) (rule batch_call_rel[OF batch_steps_rel(2) batch_updates_rel(2) batch_unlock_bad_rel])
next
  case a_batch_extend
  then show ?thesis unfolding batch_lock_extend_def
    by (rule with_client_rel) (rule batch_call_rel[OF batch_steps_rel(3) batch_updates_rel(3) lift_refl])
next
  case a_async
  then show ?thesis unfolding async_lock_request_def
    by (rule with_client_rel)
      (auto simp: Let_def split: if_splits option.splits prod.splits intro!: call_intros intro: async_request_rel)
next
  case (a_result recv now cid res)
  have flag: "lift_entries R c x" if "lift_entries R (c\<lparr>m_async_flag := False\<rparr>) x" for c x
    using that by (simp add: lift_entries_def)
  have flag': "lift_entries R c (c\<lparr>m_async_flag := b\<rparr>)" for c b by (rule lift_same) simp
  from a_result show ?thesis unfolding async_result_check_def
    by (rule with_client_rel)
      (auto simp: Let_def split: if_splits option.splits prod.splits recv_result.splits
        intro!: call_intros flag' intro: flag async_check_rel)
qed

lemma api_steps_rel:
  "api_step\<^sup>*\<^sup>* a b \<Longrightarrow> \<forall>i. rel_option (lift_entries R) (m_client_map (fst a) i) (m_client_map (fst b) i)"
proof (induction rule: rtranclp_induct)
  case base
  show ?case by (simp add: option.rel_refl lift_refl)
next
  case (step b c)
  have t: "transp (rel_option (lift_entries R))"
    by (intro option.rel_transp) (auto simp: transp_def intro: lift_trans)
  have "\<forall>i. rel_option (lift_entries R) (m_client_map (fst b) i) (m_client_map (fst c) i)"
    using api_step_rel[of "fst b" "snd b" "fst c" "snd c"] step.hyps(2) by simp
  then show ?case using step.IH t by (meson transpD)
qed

end

definition same_lock :: "lock_entry_c \<Rightarrow> lock_entry_c \<Rightarrow> bool" where
  "same_lock e e' \<longleftrightarrow> m_lock_id e' = m_lock_id e \<and> m_lock_type e' = m_lock_type e \<and> m_lock_offset e' = m_lock_offset e \<and>
     m_lease_time e' = m_lease_time e \<and> m_lock_desc e' = m_lock_desc e \<and> (entry_typed e \<longrightarrow> entry_typed e')"

lemma same_lock_update: "update_state_with_cmd_msg p res e = (e', rest) \<Longrightarrow> same_lock e e'"
  by (cases "m_lock_type e")
    (auto simp: update_state_with_cmd_msg_def atomic_update_state_with_cmd_msg_def rw_update_state_with_cmd_msg_def
      fair_update_state_with_cmd_msg_def same_lock_def entry_typed_def Let_def
      split: option.splits dlock_req_code.splits if_splits)

lemma same_lock_async_update: "async_update_state_with_cmd_msg p res e = (e', rest) \<Longrightarrow> same_lock e e'"
  by (cases "m_lock_type e")
    (auto simp: async_update_state_with_cmd_msg_def atomic_async_update_state_with_cmd_msg_def
      rw_async_update_state_with_cmd_msg_def fair_async_update_state_with_cmd_msg_def same_lock_def entry_typed_def Let_def
      split: option.splits if_splits)

lemma same_lock_fill: "fill_cmd_msg cid mid req e m = (e', rest) \<Longrightarrow> same_lock e e'"
  by (cases "m_lock_type e")
    (auto simp: fill_cmd_msg_def atomic_fill_cmd_msg_def atomic_fill_tail_def rw_fill_cmd_msg_def rw_fill_tail_def
      fair_fill_cmd_msg_def same_lock_def entry_typed_def Let_def split: lock_ops.splits prod.splits if_splits)

lemma same_lock_async_fill: "async_fill_cmd_msg cid mid req e m = (e', rest) \<Longrightarrow> same_lock e e'"
  by (cases "m_lock_type e")
    (auto simp: async_fill_cmd_msg_def atomic_async_fill_cmd_msg_def rw_async_fill_cmd_msg_def
      fair_async_fill_cmd_msg_def same_lock_def entry_typed_def Let_def split: prod.splits if_splits)

interpretation same_lock: entry_rel same_lock
proof
  show "same_lock e e" for e by (simp add: same_lock_def)
  show "same_lock e1 e2 \<Longrightarrow> same_lock e2 e3 \<Longrightarrow> same_lock e1 e3" for e1 e2 e3 by (simp add: same_lock_def)
  show "same_lock e (clear_lock_val e)" for e 
    by (simp add: same_lock_def clear_lock_val_def entry_typed_def split: dlock_type.splits)
  show "same_lock e (e\<lparr>m_ref_count := n\<rparr>)" for e n
    by (simp add: same_lock_def entry_typed_def split: dlock_type.splits)
  show "same_lock e (e\<lparr>m_lock_state := LOCK_INITIALIZED\<rparr>)" for e
    by (simp add: same_lock_def entry_typed_def split: dlock_type.splits)
qed (fact same_lock_fill same_lock_async_fill same_lock_update same_lock_async_update)+

text \<open>
  Property C13.  Entries keep their identity and stay well typed: along any sequence of API
  calls (synchronous, batched, asynchronous), over any transport and with any replies, every
  lock a client has got stays in its map with the same id, type, offset, lease time and
  descriptor, and a state that belongs to its lock type is followed only by such states.
\<close>

theorem api_keeps_locks_typed:
  assumes "api_step\<^sup>*\<^sup>* a b" "m_client_map (fst a) cid = Some c" "m_lock_map c L = Some e"
  shows "\<exists>c' e'. m_client_map (fst b) cid = Some c' \<and> m_lock_map c' L = Some e' \<and> same_lock e e'"
  using same_lock.api_steps_rel[OF assms(1)] assms(2,3)
  by (metis lift_entries_def option_rel_Some1)

text \<open>A client with one lock, for the instances.\<close>

definition one_client :: "client_entry_c \<Rightarrow> dlock_client" where
  "one_client c = \<lparr>m_is_inited = True, m_client_map = [1 \<mapsto> c]\<rparr>"

definition idle_client :: "dlock_type \<Rightarrow> client_entry_c" where
  "idle_client t = \<lparr>m_client_id = 1, m_lock_map = [9 \<mapsto> lock_entry_c_new 9 t 32 0], m_async_flag = False, m_async_id = 0,
     m_async_op = UNLOCK, m_async_start = 0, c_stats = (\<lambda>_. 0), m_next_message_id = 0, m_object_map = Map.empty\<rparr>"

theorem api_keeps_locks_typed_witness:
  "\<exists>b c' e'. api_step (one_client (idle_client DLOCK_RW), ()) b \<and> m_client_map (fst b) 1 = Some c' \<and>
     m_lock_map c' 9 = Some e' \<and> same_lock (lock_entry_c_new 9 DLOCK_RW 32 0) e'"
proof -
  let ?send = "\<lambda>reqs w. (w, Net_Reply reqs)"
  obtain d w rest where "trylock ?send 1 \<lparr>req_lock_id = 9, req_lock_op = LOCK_SHARED, expire_time = 5\<rparr> zero_ls
      (one_client (idle_client DLOCK_RW)) () = (d, w, rest)" by (metis prod_cases3)
  then have st: "api_step (one_client (idle_client DLOCK_RW), ()) (d, w)" by (rule api_step.a_trylock)
  from api_keeps_locks_typed[OF r_into_rtranclp[where r = api_step, OF st], of 1 "idle_client DLOCK_RW" 9 "lock_entry_c_new 9 DLOCK_RW 32 0"] st
  show ?thesis by (auto simp: one_client_def idle_client_def)
qed

text \<open>
  Property C17.  While an asynchronous request is outstanding, every other lock call of the
  client is refused: it returns \<open>DLOCK_EASYNC\<close>, sends nothing, leaves the results and every
  lock entry alone, and counts the refusal.
\<close>

theorem async_pending_refuses:
  assumes "m_is_inited d" "m_client_map d cid = Some c" "m_async_flag c"
  defines "d' \<equiv> d\<lparr>m_client_map := (m_client_map d)(cid := Some (c_bump [DEBUG_STATS_EASYNC] c))\<rparr>"
  shows "trylock send cid req res d w = (d', w, res, DLOCK_EASYNC) \<and>
    unlock send cid L res d w = (d', w, res, DLOCK_EASYNC) \<and>
    lock_extend send cid req res d w = (d', w, res, DLOCK_EASYNC) \<and>
    batch_trylock send cid buf reqs os d w = (d', w, os, DLOCK_EASYNC) \<and>
    batch_unlock send cid buf ids os d w = (d', w, os, DLOCK_EASYNC) \<and>
    batch_lock_extend send cid buf reqs os d w = (d', w, os, DLOCK_EASYNC) \<and>
    async_lock_request post now cid req d w = (d', w, (), DLOCK_EASYNC)"
  using assms(1-3)
  by (simp add: d'_def trylock_def unlock_def lock_extend_def batch_trylock_def batch_unlock_def batch_lock_extend_def
      async_lock_request_def with_client_def trylock_client_def unlock_client_def lock_extend_client_def batch_call_def)

theorem async_pending_refuses_witness:
  "snd (snd (snd (unlock (\<lambda>_ w. (w, Net_Reply [])) 1 9 zero_ls (one_client ((idle_client DLOCK_RW)\<lparr>m_async_flag := True\<rparr>)) ()))) =
    DLOCK_EASYNC"
  using async_pending_refuses[of "one_client ((idle_client DLOCK_RW)\<lparr>m_async_flag := True\<rparr>)" 1
      "(idle_client DLOCK_RW)\<lparr>m_async_flag := True\<rparr>" "\<lambda>_ w. (w, Net_Reply [])" _ zero_ls "()" 9]
  by (simp add: one_client_def)

text \<open>
  Property C18.  An asynchronous request cannot block its client for ever: once more than
  \<open>LOCK_TIMEOUT\<close> microseconds have passed since it was posted, the next poll ends the request,
  whatever the network delivers, and the client accepts calls again.
\<close>

theorem async_request_ends:
  assumes "m_is_inited d" "m_client_map d cid = Some c" "m_async_flag c" "now - m_async_start c > LOCK_TIMEOUT"
    and "async_result_check recv now cid res d w = (d', w', res', ret)"
  shows "\<exists>c'. m_client_map d' cid = Some c' \<and> \<not> m_async_flag c'"
proof -
  have chk: "m_async_flag c2 = m_async_flag c1" if "g_async_check k r res c1 = (c2, rest)" for k r c1 c2 rest
    using that by (auto simp: g_async_check_def trylock_result_check_def unlock_or_extend_result_check_def Let_def
        split: if_splits option.splits prod.splits)
  show ?thesis
    using assms by (auto simp: async_result_check_def with_client_def Let_def
        split: prod.splits recv_result.splits dest: chk)
qed

theorem async_request_ends_witness:
  "\<exists>c'. m_client_map (fst (async_result_check (\<lambda>w. (w, Recv_Again)) 6000000 1 zero_ls
     (one_client ((idle_client DLOCK_RW)\<lparr>m_async_flag := True\<rparr>)) ())) 1 = Some c' \<and> \<not> m_async_flag c'"
proof -
  let ?c = "(idle_client DLOCK_RW)\<lparr>m_async_flag := True\<rparr>"
  obtain d w res ret where r: "async_result_check (\<lambda>w. (w, Recv_Again)) 6000000 1 zero_ls (one_client ?c) () = (d, w, res, ret)"
    by (metis prod_cases4)
  show ?thesis using async_request_ends[OF _ _ _ _ r, of ?c] r
    by (simp add: one_client_def idle_client_def LOCK_TIMEOUT_def)
qed

subsection \<open>A batched unlock the server refuses\<close>

text \<open>A server that is not ready answers every command with \<open>DLOCK_NOT_READY\<close>.\<close>

definition not_ready :: "'w transport" where
  "not_ready reqs w = (w, Net_Reply (map (\<lambda>m. m\<lparr>op_ret := DLOCK_NOT_READY\<rparr>) reqs))"

lemma xchg_batch_not_ready:
  "xchg_batch_lock_cmd_msg not_ready reqs c w = (c, w, DLOCK_SUCCESS, map (\<lambda>m. m\<lparr>op_ret := DLOCK_NOT_READY\<rparr>) reqs)"
  by (simp add: xchg_batch_lock_cmd_msg_def not_ready_def check_batch_resp_lock_cmd_msg_def
      check_resp_lock_cmd_msg_def list.rel_map list_all2_same)

lemma xchg_not_ready:
  "xchg_cmd_msg not_ready m c w = (c, w, DLOCK_SUCCESS, Some (m\<lparr>op_ret := DLOCK_NOT_READY\<rparr>))"
  by (simp add: xchg_cmd_msg_def not_ready_def check_resp_lock_cmd_msg_def)

lemma rw_fill_unlock:
  assumes "m_lock_type e = DLOCK_RW" "locked e" "m_ref_count e = 1"
  shows "\<exists>m. fill_cmd_msg cid mid (unlock_req L) e m0 = (e\<lparr>m_ref_count := 0\<rparr>, m, DLOCK_SUCCESS, [])"
  using assms by (auto simp: fill_cmd_msg_def rw_fill_cmd_msg_def rw_fill_tail_def unlock_req_def locked_def Let_def)



end
