(* ===== verification/DLock_Recovery.thy ===== *)
theory DLock_Recovery
  imports DLock_Client DLock_Server
begin

section \<open>Recovery of lock states\<close>

text \<open>
  When a new primary server starts, every client reports its locks: \<open>fill_update_msg\<close>
  (\<^verbatim>\<open>client/lock_entry_c.cpp\<close>) fills the lock state of the report and \<open>sync_lock_state\<close>
  (\<^verbatim>\<open>server/lock_memory.cpp\<close>) merges the reports into the server's fresh lock memory, one by
  one and in any order.  The theory shows for read-write and atomic locks that the merged
  state is the one the clients hold.
\<close>

definition report :: "lock_entry_c \<Rightarrow> lock_state" where
  "report e = ul_ls (fill_update_msg e
     \<lparr>ul_lock_id = 0, ul_lock_type = 0, ul_lease_time = 0, ul_offset = 0, ul_desc_len = 0, ul_ls = zero_ls, ul_desc = []\<rparr>)"

definition recover :: "dlock_type \<Rightarrow> nat \<Rightarrow> lock_entry_c list \<Rightarrow> lock_memory \<Rightarrow> lock_memory" where
  "recover t off es s = fold (\<lambda>e. sync_lock_state (Some t) off (report e)) es s"

lemma report_not_held: "not_held e \<Longrightarrow> m_lock_type e \<noteq> DLOCK_FAIR \<Longrightarrow> w0 (report e) = 0 \<and> w1 (report e) = 0"
  by (simp add: report_def fill_update_msg_def clear_base_def Let_def)

lemma report_held:
  "\<not> not_held e \<Longrightarrow> m_lock_type e \<noteq> DLOCK_FAIR \<Longrightarrow>
    w0 (report e) = w0 (m_lock_val e) \<and> w1 (report e) = w1 (m_lock_val e) \<and> w2 (report e) = w2 (m_lock_val e)"
  by (simp add: report_def fill_update_msg_def copy_base_def Let_def)

lemma sync_rw_load:
  "load_rw (m_p_lock_memory (recover DLOCK_RW off es s)) off =
    fold (\<lambda>e. rwlock_sync_state (report e)) es (load_rw (m_p_lock_memory s) off)"
  unfolding recover_def
  by (induction es arbitrary: s) (simp_all add: sync_lock_state_def rw_layout.with_lock_ld)

lemma sync_atomic_load:
  "load_atomic (m_p_lock_memory (recover DLOCK_ATOMIC off es s)) off =
    fold (\<lambda>e. atomic_sync_state (report e)) es (load_atomic (m_p_lock_memory s) off)"
  unfolding recover_def
  by (induction es arbitrary: s) (simp_all add: sync_lock_state_def atomic_layout.with_lock_ld)

subsection \<open>Read-write locks\<close>

abbreviation shared :: "lock_entry_c \<Rightarrow> bool" where "shared e \<equiv> m_lock_state e = SHARED_LOCKED"
abbreviation exclusive :: "lock_entry_c \<Rightarrow> bool" where "exclusive e \<equiv> m_lock_state e = EXCLUSIVE_LOCKED"

text \<open>What the replies of the server leave in the entry of a holder: the time of the grant, and the
  holder's id for an exclusive lock.\<close>

definition rw_entry_ok :: "lock_entry_c \<Rightarrow> bool" where
  "rw_entry_ok e \<longleftrightarrow> m_lock_type e = DLOCK_RW \<and>
     (not_held e \<or> shared e \<and> ls_rw_client_id (m_lock_val e) = 0 \<and> ls_rw_time_out (m_lock_val e) \<noteq> 0 \<or>
      exclusive e \<and> ls_rw_client_id (m_lock_val e) \<noteq> 0 \<and> ls_rw_time_out (m_lock_val e) \<noteq> 0)"

definition held_by :: "lock_entry_c list \<Rightarrow> rw_spec" where
  "held_by es = (case filter exclusive es of
       e # _ \<Rightarrow> RW_Excl (ls_rw_client_id (m_lock_val e))
     | [] \<Rightarrow> if filter shared es = [] then RW_Free else RW_Shared (length (filter shared es)))"

lemma rw_sync_not_held:
  "rw_entry_ok e \<Longrightarrow> not_held e \<Longrightarrow> rwlock_sync_state (report e) l = l"
  using report_not_held[of e] by (simp add: rwlock_sync_state_def rw_entry_ok_def)

lemma fold_not_held:
  "\<forall>e \<in> set es. rw_entry_ok e \<and> not_held e \<Longrightarrow> fold (\<lambda>e. rwlock_sync_state (report e)) es l = l"
  by (induction es arbitrary: l) (auto simp: rw_sync_not_held)

lemma fold_shared:
  assumes "\<forall>e \<in> set es. rw_entry_ok e \<and> \<not> exclusive e" "rl_client_id l = 0"
  shows "rl_client_id (fold (\<lambda>e. rwlock_sync_state (report e)) es l) = 0 \<and>
    rl_ref_count (fold (\<lambda>e. rwlock_sync_state (report e)) es l) = rl_ref_count l + of_nat (length (filter shared es))"
  using assms
proof (induction es arbitrary: l)
  case (Cons e es)
  show ?case
  proof (cases "not_held e")
    case True
    then have "\<not> shared e" by (auto simp: not_held_def)
    then show ?thesis using Cons True by (simp add: rw_sync_not_held)
  next
    case False
    then have e: "shared e" "w1 (report e) = 0" "w0 (report e) \<noteq> 0"
      using Cons.prems(1) report_held[OF False] by (auto simp: rw_entry_ok_def)
    let ?l = "rwlock_sync_state (report e) l"
    have "rl_client_id ?l = 0" "rl_ref_count ?l = rl_ref_count l + 1"
      using e Cons.prems(2) by (auto simp: rwlock_sync_state_def)
    then show ?thesis using Cons.IH[of ?l] Cons.prems(1) e(1) by (simp add: add.assoc)
  qed
qed simp

lemma rw_sync_exclusive:
  assumes "rw_entry_ok e" "exclusive e"
  shows "rl_timeout l = 0 \<Longrightarrow> rl_client_id (rwlock_sync_state (report e) l) = ls_rw_client_id (m_lock_val e)"
    and "ls_rw_client_id (m_lock_val e) \<noteq> 0"
proof -
  have "\<not> not_held e" using assms(2) by (simp add: not_held_def)
  then show "rl_timeout l = 0 \<Longrightarrow> rl_client_id (rwlock_sync_state (report e) l) = ls_rw_client_id (m_lock_val e)"
    "ls_rw_client_id (m_lock_val e) \<noteq> 0"
    using assms report_held[of e] by (auto simp: rw_entry_ok_def rwlock_sync_state_def word_le_0_iff)
qed

text \<open>
  Property C15.  Recovery rebuilds read-write locks: merging the reports of any list of client
  entries, in any order, into a fresh lock memory gives the state the clients hold - the
  writer's id if one entry is exclusively locked and no other entry is held, otherwise the
  number of readers.
\<close>

theorem rw_recovery_rebuilds:
  assumes "\<forall>e \<in> set es. rw_entry_ok e" "length es < 2 ^ 32"
    and "filter exclusive es \<noteq> [] \<longrightarrow> length (filter (\<lambda>e. \<not> not_held e) es) = 1"
  shows "rw_abs (load_rw (m_p_lock_memory (recover DLOCK_RW off es (lock_memory_new n p))) off) = held_by es"
proof (cases "filter exclusive es")
  case Nil
  let ?l = "\<lparr>rl_timeout = 0, rl_client_id = 0, rl_ref_count = 0, rl_rsvd = 0\<rparr>"
  have "\<forall>e \<in> set es. rw_entry_ok e \<and> \<not> exclusive e" using Nil assms(1) by (auto simp: filter_empty_conv)
  from fold_shared[OF this, of ?l]
  have "rl_client_id (fold (\<lambda>e. rwlock_sync_state (report e)) es ?l) = 0"
    "rl_ref_count (fold (\<lambda>e. rwlock_sync_state (report e)) es ?l) = of_nat (length (filter shared es))" by simp_all
  moreover have "unat (of_nat (length (filter shared es)) :: u32) = length (filter shared es)"
    using assms(2) le_less_trans[OF length_filter_le[of shared es]] by (simp add: unat_of_nat)
  ultimately show ?thesis
    unfolding sync_rw_load load_new held_by_def Nil
    by (simp add: rw_abs_def word_unat_eq_iff[of _ 0])
next
  case (Cons e rest)
  then obtain pre suf where es: "es = pre @ e # suf" "exclusive e" using filter_eq_ConsD[OF Cons] by auto
  have "\<forall>x \<in> set pre \<union> set suf. not_held x"
    using assms(3) Cons es by (auto simp: not_held_def filter_empty_conv)
  then have pre: "\<forall>x \<in> set pre. rw_entry_ok x \<and> not_held x" and suf: "\<forall>x \<in> set suf. rw_entry_ok x \<and> not_held x"
    and e: "rw_entry_ok e" using assms(1) es(1) by auto
  have "filter exclusive pre = []" using pre by (auto simp: filter_empty_conv not_held_def)
  then have "held_by es = RW_Excl (ls_rw_client_id (m_lock_val e))" using es by (simp add: held_by_def)
  then show ?thesis
    unfolding sync_rw_load load_new
    using es(1) fold_not_held[OF pre] fold_not_held[OF suf] rw_sync_exclusive[OF e es(2)] by (simp add: rw_abs_def)
qed

theorem rw_recovery_rebuilds_witness:
  "let v = zero_ls\<lparr>w0 := 5\<rparr>; e = (lock_entry_c_new 9 DLOCK_RW 32 0)\<lparr>m_lock_state := SHARED_LOCKED, m_lock_val := v\<rparr>
   in rw_abs (load_rw (m_p_lock_memory (recover DLOCK_RW 32 [e, lock_entry_c_new 9 DLOCK_RW 32 0, e]
        (lock_memory_new LOCK_MEMORY_SIZE True))) 32) = RW_Shared 2"
proof -
  let ?e = "(lock_entry_c_new 9 DLOCK_RW 32 0)\<lparr>m_lock_state := SHARED_LOCKED, m_lock_val := zero_ls\<lparr>w0 := 5\<rparr>\<rparr>"
  let ?es = "[?e, lock_entry_c_new 9 DLOCK_RW 32 0, ?e]"
  have "rw_abs (load_rw (m_p_lock_memory (recover DLOCK_RW 32 ?es (lock_memory_new LOCK_MEMORY_SIZE True))) 32) = held_by ?es"
    by (rule rw_recovery_rebuilds) (auto simp: rw_entry_ok_def lock_entry_c_new_def not_held_def zero_ls_def)
  then show ?thesis by (simp add: held_by_def lock_entry_c_new_def Let_def)
qed

subsection \<open>Atomic locks\<close>

definition atomic_entry_ok :: "lock_entry_c \<Rightarrow> bool" where
  "atomic_entry_ok e \<longleftrightarrow> m_lock_type e = DLOCK_ATOMIC \<and> (not_held e \<or> ls_atomic_time_out (m_lock_val e) \<noteq> 0)"

definition leases :: "lock_entry_c list \<Rightarrow> (u32 \<times> u32) set" where
  "leases es = {(ls_atomic_time_out (m_lock_val e), ls_atomic_client_id (m_lock_val e)) |e. e \<in> set es \<and> \<not> not_held e}"

lemma leases_Cons:
  "leases (e # es) = (if not_held e then leases es else
    insert (ls_atomic_time_out (m_lock_val e), ls_atomic_client_id (m_lock_val e)) (leases es))"
  by (auto simp: leases_def)

lemma atomic_fold:
  assumes "\<forall>e \<in> set es. atomic_entry_ok e"
  defines "step \<equiv> (\<lambda>e. atomic_sync_state (report e))"
  shows "(al_timeout (fold step es l), al_client_id (fold step es l)) \<in> insert (al_timeout l, al_client_id l) (leases es) \<and>
    (\<forall>(t, c) \<in> insert (al_timeout l, al_client_id l) (leases es). t \<le> al_timeout (fold step es l))"
  using assms(1)
proof (induction es arbitrary: l)
  case Nil
  then show ?case by (simp add: leases_def)
next
  case (Cons e es)
  have r: "step e l = (if not_held e then l else if al_timeout l < ls_atomic_time_out (m_lock_val e)
      then l\<lparr>al_timeout := ls_atomic_time_out (m_lock_val e), al_client_id := ls_atomic_client_id (m_lock_val e)\<rparr> else l)"
    using Cons.prems report_held[of e] report_not_held[of e]
    by (auto simp: step_def atomic_sync_state_def atomic_entry_ok_def)
  from Cons.IH[of "step e l"] Cons.prems show ?case
    unfolding fold_Cons comp_apply r leases_Cons by (auto split: if_splits)
qed

text \<open>
  Property C16.  Recovery of atomic locks keeps the newest lease: merging the reports of any
  list of entries, in any order, into a fresh memory stores a lease one of the holders reported,
  and no holder reported a later one; if nobody holds the lock, it is free.
\<close>

theorem atomic_recovery_newest:
  assumes "\<forall>e \<in> set es. atomic_entry_ok e"
  shows "let l = load_atomic (m_p_lock_memory (recover DLOCK_ATOMIC off es (lock_memory_new n p))) off in
    (if leases es = {} then al_timeout l = 0 \<and> al_client_id l = 0 else (al_timeout l, al_client_id l) \<in> leases es) \<and>
    (\<forall>(t, c) \<in> leases es. t \<le> al_timeout l)"
proof -
  have nz: "t \<noteq> 0" if "(t, c) \<in> leases es" for t c
    using that assms(1) by (auto simp: leases_def atomic_entry_ok_def)
  note F = atomic_fold[OF assms(1), of "\<lparr>al_client_id = 0, al_timeout = 0\<rparr>"]
  show ?thesis
    using F nz unfolding Let_def sync_atomic_load load_new
    by (cases "leases es = {}") (force simp: word_le_0_iff)+
qed

theorem atomic_recovery_newest_witness:
  "let e = \<lambda>c t. (lock_entry_c_new 9 DLOCK_ATOMIC 32 0)\<lparr>m_lock_state := EXCLUSIVE_LOCKED, m_lock_val := zero_ls\<lparr>w0 := c, w1 := t\<rparr>\<rparr>;
       l = load_atomic (m_p_lock_memory (recover DLOCK_ATOMIC 32 [e 1 50, e 2 60] (lock_memory_new LOCK_MEMORY_SIZE True))) 32
   in 60 \<le> al_timeout l"
proof -
  let ?e = "\<lambda>c t. (lock_entry_c_new 9 DLOCK_ATOMIC 32 0)\<lparr>m_lock_state := EXCLUSIVE_LOCKED, m_lock_val := zero_ls\<lparr>w0 := c, w1 := t\<rparr>\<rparr>"
  have "\<forall>e \<in> set [?e 1 50, ?e 2 60]. atomic_entry_ok e" by (simp add: atomic_entry_ok_def lock_entry_c_new_def zero_ls_def)
  moreover have "(60, 2) \<in> leases [?e 1 50, ?e 2 60]" by (simp add: leases_Cons not_held_def zero_ls_def)
  ultimately show ?thesis
    using atomic_recovery_newest[of "[?e 1 50, ?e 2 60]" 32 LOCK_MEMORY_SIZE True] unfolding Let_def by fast
qed

end
