(* ===== verification/DLock_Control.thy ===== *)
theory DLock_Control
  imports DLock_Server DLock_Client "HOL-Library.Monad_Syntax"
begin

section \<open>Control plane of the lock server\<close>

text \<open>
  The control messages of \<^verbatim>\<open>server/dlock_server.cpp\<close>: client registration, recovery and
  removal, acquisition and release of locks and of 64-bit atomic objects, and the receive path
  \<open>process_control_msg\<close> that checks a message and calls its handler.  Together with it the
  classes it uses: \<open>client_entry_s\<close>, \<open>object_entry_s\<close>, \<open>object_memory\<close>, and
  the descriptor check of \<^verbatim>\<open>common/dlock_descriptor.cpp\<close>.

  Lock entries, object entries, connections and jetty managers are reached through several
  pointers, so they live in a store: a pointer is a number, the store maps the pointers of
  live objects to their contents, and the maps of the server and of its clients hold pointers.
  A handler returns \<open>None\<close> when the code dereferences a null pointer or a deleted object;
  otherwise the new state, the messages sent and the return code.  A request body is byte memory
  from address 0 (\<open>None\<close>: the null pointer that \<open>process_control_msg\<close> passes for an
  empty body).

  What the handlers get from outside (time, allocation results, the outcome of a send, random
  bytes, the jetty managers created by the transport layer) is the record \<open>env\<close>.  Counters that the
  code keeps in \<open>int\<close> (numbers of locks, objects, clients and references) are integers.
  Times are nanoseconds of the steady clock.  Log output is left out.
\<close>

subsection \<open>Constants and messages\<close>

type_synonym ptr = nat

abbreviation CLIENT_INIT_REQUEST :: u8 where "CLIENT_INIT_REQUEST \<equiv> 12"
abbreviation CLIENT_INIT_RESPONSE :: u8 where "CLIENT_INIT_RESPONSE \<equiv> 13"
abbreviation CLIENT_DEINIT_REQUEST :: u8 where "CLIENT_DEINIT_REQUEST \<equiv> 14"
abbreviation CLIENT_DEINIT_RESPONSE :: u8 where "CLIENT_DEINIT_RESPONSE \<equiv> 15"
abbreviation CLIENT_HEARTBEAT_REQUEST :: u8 where "CLIENT_HEARTBEAT_REQUEST \<equiv> 16"
abbreviation CLIENT_HEARTBEAT_RESPONSE :: u8 where "CLIENT_HEARTBEAT_RESPONSE \<equiv> 17"
abbreviation GET_LOCK_REQUEST :: u8 where "GET_LOCK_REQUEST \<equiv> 18"
abbreviation GET_LOCK_RESPONSE :: u8 where "GET_LOCK_RESPONSE \<equiv> 19"
abbreviation RELEASE_LOCK_REQUEST :: u8 where "RELEASE_LOCK_REQUEST \<equiv> 20"
abbreviation RELEASE_LOCK_RESPONSE :: u8 where "RELEASE_LOCK_RESPONSE \<equiv> 21"
abbreviation BATCH_GET_LOCK_REQUEST :: u8 where "BATCH_GET_LOCK_REQUEST \<equiv> 22"
abbreviation BATCH_GET_LOCK_RESPONSE :: u8 where "BATCH_GET_LOCK_RESPONSE \<equiv> 23"
abbreviation BATCH_RELEASE_LOCK_REQUEST :: u8 where "BATCH_RELEASE_LOCK_REQUEST \<equiv> 24"
abbreviation BATCH_RELEASE_LOCK_RESPONSE :: u8 where "BATCH_RELEASE_LOCK_RESPONSE \<equiv> 25"
abbreviation OBJECT_CREATE_REQUEST :: u8 where "OBJECT_CREATE_REQUEST \<equiv> 26"
abbreviation OBJECT_CREATE_RESPONSE :: u8 where "OBJECT_CREATE_RESPONSE \<equiv> 27"
abbreviation OBJECT_GET_REQUEST :: u8 where "OBJECT_GET_REQUEST \<equiv> 28"
abbreviation OBJECT_GET_RESPONSE :: u8 where "OBJECT_GET_RESPONSE \<equiv> 29"
abbreviation OBJECT_RELEASE_REQUEST :: u8 where "OBJECT_RELEASE_REQUEST \<equiv> 30"
abbreviation OBJECT_RELEASE_RESPONSE :: u8 where "OBJECT_RELEASE_RESPONSE \<equiv> 31"
abbreviation OBJECT_DESTROY_REQUEST :: u8 where "OBJECT_DESTROY_REQUEST \<equiv> 32"
abbreviation OBJECT_DESTROY_RESPONSE :: u8 where "OBJECT_DESTROY_RESPONSE \<equiv> 33"
abbreviation CLIENT_REINIT_REQUEST :: u8 where "CLIENT_REINIT_REQUEST \<equiv> 34"
abbreviation CLIENT_REINIT_RESPONSE :: u8 where "CLIENT_REINIT_RESPONSE \<equiv> 35"
abbreviation CLIENT_REINIT_DONE_REQUEST :: u8 where "CLIENT_REINIT_DONE_REQUEST \<equiv> 36"
abbreviation CLIENT_REINIT_DONE_RESPONSE :: u8 where "CLIENT_REINIT_DONE_RESPONSE \<equiv> 37"
abbreviation BATCH_UPDATE_LOCKS_REQUEST :: u8 where "BATCH_UPDATE_LOCKS_REQUEST \<equiv> 38"
abbreviation BATCH_UPDATE_LOCKS_RESPONSE :: u8 where "BATCH_UPDATE_LOCKS_RESPONSE \<equiv> 39"

definition DLOCK_CP_MAGIC_NO :: u32 where "DLOCK_CP_MAGIC_NO = 0xedf7c94a"
definition DLOCK_MIN_PROTO_VERSION :: u8 where "DLOCK_MIN_PROTO_VERSION = 2"
definition MAX_NUM_CLIENT :: int where "MAX_NUM_CLIENT = 1000"
definition MAX_LOCK_DESC_LEN :: u32 where "MAX_LOCK_DESC_LEN = 512"
definition MAX_OBJECT_SIZE :: int where "MAX_OBJECT_SIZE = 102400"
definition OBJECT_MAX_NUMBER :: nat where "OBJECT_MAX_NUMBER = 102400"
definition MAX_TRY_ALLOC_CLIENT_ID_TIME :: nat where "MAX_TRY_ALLOC_CLIENT_ID_TIME = 6"
definition CLIENT_ID_MASK :: u32 where "CLIENT_ID_MASK = 0x7FFFFFFF"
definition JETTY_MGR_INVALID_QUEUE_WARNING_SIZE :: nat where "JETTY_MGR_INVALID_QUEUE_WARNING_SIZE = 1024"
definition JETTY_MGR_INVALID_TIMEOUT :: nat where "JETTY_MGR_INVALID_TIMEOUT = 10000000"

text \<open>The \<open>sizeof\<close> constants of \<^verbatim>\<open>common/dlock_common.h\<close> (\<open>lock_state\<close> is 8-byte aligned).\<close>

definition DLOCK_FIXED_CTRL_MSG_HDR_LEN :: nat where "DLOCK_FIXED_CTRL_MSG_HDR_LEN = 16"
definition DLOCK_GET_LOCK_BODY_LEN :: nat where "DLOCK_GET_LOCK_BODY_LEN = 20"
definition DLOCK_RELEASE_LOCK_BODY_LEN :: nat where "DLOCK_RELEASE_LOCK_BODY_LEN = 4"
definition DLOCK_UPDATE_LOCK_BODY_LEN :: nat where "DLOCK_UPDATE_LOCK_BODY_LEN = 40"
definition DLOCK_BATCH_GET_LOCK_BODY_LEN :: nat where "DLOCK_BATCH_GET_LOCK_BODY_LEN = 4"
definition DLOCK_BATCH_RELEASE_LOCK_BODY_LEN :: nat where "DLOCK_BATCH_RELEASE_LOCK_BODY_LEN = 4"
definition DLOCK_BATCH_UPDATE_LOCK_BODY_LEN :: nat where "DLOCK_BATCH_UPDATE_LOCK_BODY_LEN = 8"
definition DLOCK_MAX_CTRL_MSG_SIZE :: nat where
  "DLOCK_MAX_CTRL_MSG_SIZE = DLOCK_FIXED_CTRL_MSG_HDR_LEN + DLOCK_BATCH_UPDATE_LOCK_BODY_LEN +
     (DLOCK_UPDATE_LOCK_BODY_LEN + 512) * 31"
definition DLOCK_OBJECT_CREATE_BODY_LEN :: nat where "DLOCK_OBJECT_CREATE_BODY_LEN = 32"
definition DLOCK_OBJECT_GET_BODY_LEN :: nat where "DLOCK_OBJECT_GET_BODY_LEN = 24"
definition DLOCK_OBJECT_RELEASE_BODY_LEN :: nat where "DLOCK_OBJECT_RELEASE_BODY_LEN = 4"
definition DLOCK_OBJECT_DESTROY_BODY_LEN :: nat where "DLOCK_OBJECT_DESTROY_BODY_LEN = 4"

text \<open>Return codes: 0, -1, or a \<open>dlock_status_t\<close>; \<open>NO_RESOURCE_ID\<close> is \<open>-DLOCK_SERVER_NO_RESOURCE\<close>.\<close>

datatype ctl_ret = R_done | R_err | R_status dlock_status

definition NO_RESOURCE_ID :: u32 where "NO_RESOURCE_ID = - 0x200F"

record dlock_control_hdr =
  h_magic_no :: u32
  h_version :: u8
  h_hdr_len :: u8
  h_type :: u8
  h_total_len :: u16
  h_message_id :: u16
  h_client_id :: u32

definition body_len :: "dlock_control_hdr \<Rightarrow> int" where
  "body_len h = int (unat (h_total_len h)) - int (unat (h_hdr_len h))"

definition check_msg_body_len_invalid :: "dlock_control_hdr \<Rightarrow> u16 \<Rightarrow> bool" where
  "check_msg_body_len_invalid h expected_msg_body_len \<longleftrightarrow> body_len h \<noteq> int (unat expected_msg_body_len)"

record get_lock_body =
  gl_lock_id :: u32
  gl_lock_type :: u32
  gl_lease_time :: u32
  gl_offset :: u32
  gl_desc_len :: u32
  gl_desc :: "u8 list"

definition get_lock_body_at :: "bmem \<Rightarrow> nat \<Rightarrow> get_lock_body" where
  "get_lock_body_at b a = \<lparr>gl_lock_id = load32 b a, gl_lock_type = load32 b (a + 4), gl_lease_time = load32 b (a + 8),
     gl_offset = load32 b (a + 12), gl_desc_len = load32 b (a + 16),
     gl_desc = load_bytes b (a + DLOCK_GET_LOCK_BODY_LEN) (unat (load32 b (a + 16)))\<rparr>"

text \<open>The fields that the handlers write back into the request, and the bytes of the fixed part.\<close>

definition put_get_lock_body :: "bmem \<Rightarrow> nat \<Rightarrow> get_lock_body \<Rightarrow> bmem" where
  "put_get_lock_body b a g = store32 (store32 b a (gl_lock_id g)) (a + 12) (gl_offset g)"

record object_body =
  ob_obj_id :: u32
  ob_body_offset :: u64
  ob_init_value :: u64
  ob_lease_time :: u32
  ob_desc_len :: u32
  ob_body_desc :: "u8 list"

definition object_create_body_at :: "bmem \<Rightarrow> object_body" where
  "object_create_body_at b = \<lparr>ob_obj_id = load32 b 0, ob_body_offset = load64 b 8, ob_init_value = load64 b 16,
     ob_lease_time = load32 b 24, ob_desc_len = load32 b 28,
     ob_body_desc = load_bytes b DLOCK_OBJECT_CREATE_BODY_LEN (unat (load32 b 28))\<rparr>"

definition object_get_body_at :: "bmem \<Rightarrow> object_body" where
  "object_get_body_at b = \<lparr>ob_obj_id = load32 b 0, ob_body_offset = load64 b 8, ob_init_value = 0,
     ob_lease_time = load32 b 16, ob_desc_len = load32 b 20,
     ob_body_desc = load_bytes b DLOCK_OBJECT_GET_BODY_LEN (unat (load32 b 20))\<rparr>"

definition put_object_body :: "bmem \<Rightarrow> object_body \<Rightarrow> bmem" where
  "put_object_body b g = store64 (store32 b 0 (ob_obj_id g)) 8 (ob_body_offset g)"

record reply =
  rp_conn :: ptr
  rp_type :: u8
  rp_message_id :: u16
  rp_status :: ctl_ret
  rp_body :: "u8 list"

subsection \<open>Object memory\<close>

definition NO_OBJECT :: nat where "NO_OBJECT = 4294967295"
definition INVALID_OFFSET :: nat where "INVALID_OFFSET = 4294967295 * 8"

record object_memory =
  om_addr :: "nat \<Rightarrow> u64"
  om_ctrl :: "nat \<Rightarrow> nat"
  om_next_free :: nat
  om_total :: nat

definition object_memory_init :: "nat \<Rightarrow> object_memory" where
  "object_memory_init n = \<lparr>om_addr = (\<lambda>_. 0), om_ctrl = (\<lambda>i. if i < n - 1 then i + 1 else NO_OBJECT),
     om_next_free = 0, om_total = n\<rparr>"

definition alloc_object_memory :: "object_memory \<Rightarrow> object_memory \<times> nat" where
  "alloc_object_memory m =
    (if om_next_free m = NO_OBJECT then (m, INVALID_OFFSET)
     else (let cur = om_next_free m in (m\<lparr>om_next_free := om_ctrl m cur\<rparr>, cur * 8)))"

definition free_object_memory :: "nat \<Rightarrow> object_memory \<Rightarrow> object_memory" where
  "free_object_memory offset m =
    (if offset \<ge> INVALID_OFFSET then m
     else (let i = offset div 8 in m\<lparr>om_ctrl := (om_ctrl m)(i := om_next_free m), om_next_free := i\<rparr>))"

definition object_memory_set :: "nat \<Rightarrow> u64 \<Rightarrow> object_memory \<Rightarrow> object_memory" where
  "object_memory_set offset v m =
    (if offset \<ge> INVALID_OFFSET then m else m\<lparr>om_addr := (om_addr m)(offset div 8 := v)\<rparr>)"

subsection \<open>Server state\<close>

datatype dlock_server_state = SERVER_INIT | SERVER_WAIT_REPLICA | SERVER_WAIT_CLIENT_REINIT | SERVER_READY

text \<open>A connection: the client id it is bound to (\<open>DLOCK_CONN_PEER_DEFAULT\<close> is \<open>None\<close>) and its message id.\<close>

record dlock_connection =
  cn_peer :: "u32 option"
  cn_next_message_id :: u16

record lock_entry =
  le_base :: lock_entry_s
  le_lock_dec :: "u8 list"
  le_lease_time_map :: "(u32, u32) umap"

record object_entry_s =
  oe_desc :: "u8 list"
  oe_id :: u32
  oe_owner_id :: u32
  oe_offset :: nat
  oe_refcnt :: int
  oe_destroyed :: bool
  oe_max_lease_tp :: nat
  oe_lease_tp_map :: "(u32, nat) umap"

record client_entry_s =
  ce_client_id :: u32
  ce_p_conn :: "ptr option"
  ce_p_jetty_mgr :: "ptr option"
  ce_lock_map :: "(u32, ptr) umap"
  ce_object_map :: "(u32, ptr) umap"
  ce_reinit_flag :: bool
  ce_client_lock_updated :: bool

record dlock_server =
  sv_is_primary :: bool
  sv_client_map :: "(u32, client_entry_s) umap"
  sv_lock_map :: "(u32, ptr) umap"
  sv_lock_desc_map :: "(u8 list, ptr) umap"
  sv_except_client_set :: "u32 list"
  sv_curr_lock_id :: u32
  sv_lock_num :: int
  sv_client_num :: int
  sv_recovery_client_num :: nat
  sv_server_state :: dlock_server_state
  sv_lock_memory :: lock_memory
  sv_object_map :: "(u32, ptr) umap"
  sv_object_desc_map :: "(u8 list, ptr) umap"
  sv_object_memory :: object_memory
  sv_curr_object_id :: u32
  sv_curr_object_num :: int
  sv_invalid_queue :: "(ptr \<times> nat) list"
  sv_conns :: "(ptr, dlock_connection) umap"
  sv_locks :: "ptr \<Rightarrow> lock_entry option"
  sv_objects :: "ptr \<Rightarrow> object_entry_s option"
  sv_jettys :: "ptr list"
  sv_next_ptr :: ptr

text \<open>The constructor followed by \<open>init_as_primary\<close> with the configured number of clients to recover.\<close>

definition init_primary_server_state :: "nat \<Rightarrow> dlock_server_state" where
  "init_primary_server_state recovery_client_num = (if recovery_client_num \<noteq> 0 then SERVER_WAIT_CLIENT_REINIT else SERVER_READY)"

definition init_as_primary :: "nat \<Rightarrow> dlock_server" where
  "init_as_primary recovery_client_num = \<lparr>sv_is_primary = True, sv_client_map = [], sv_lock_map = [], sv_lock_desc_map = [],
     sv_except_client_set = [], sv_curr_lock_id = 1, sv_lock_num = 0, sv_client_num = 0,
     sv_recovery_client_num = recovery_client_num, sv_server_state = init_primary_server_state recovery_client_num,
     sv_lock_memory = lock_memory_new LOCK_MEMORY_SIZE True, sv_object_map = [], sv_object_desc_map = [],
     sv_object_memory = object_memory_init OBJECT_MAX_NUMBER, sv_curr_object_id = 1, sv_curr_object_num = 0,
     sv_invalid_queue = [], sv_conns = [], sv_locks = (\<lambda>_. None), sv_objects = (\<lambda>_. None), sv_jettys = [], sv_next_ptr = 1\<rparr>"

record mem_env =
  new_desc :: bool
  calloc_desc :: bool
  new_entry :: bool

record env =
  e_now :: nat
  e_malloc :: bool
  e_send :: bool
  e_mem :: "nat \<Rightarrow> mem_env"
  e_new_client :: bool
  e_jetty :: "ptr option"
  e_idle :: "ptr \<Rightarrow> bool"
  e_rand :: "u32 option list"
  e_init_req_body_len :: u16
  e_min_version :: u8

type_synonym ctl_res = "(dlock_server \<times> reply list \<times> ctl_ret) option"

definition fail :: "ctl_ret \<Rightarrow> dlock_server \<Rightarrow> ctl_res" where
  "fail r s = Some (s, [], r)"

text \<open>
  \<open>construct_control_msg\<close> (its length check, and its allocation as \<open>e_malloc\<close>) with the
  message id of one connection, then \<open>send\<close> on another one, which most handlers take from the
  client entry.
\<close>

definition send_reply :: "env \<Rightarrow> ptr option \<Rightarrow> ptr option \<Rightarrow> u8 \<Rightarrow> u8 list \<Rightarrow> dlock_server \<Rightarrow> ctl_res" where
  "send_reply E id_conn conn ty body s =
    do { p \<leftarrow> id_conn; k \<leftarrow> map_of (sv_conns s) p;
         if DLOCK_FIXED_CTRL_MSG_HDR_LEN + length body > DLOCK_MAX_CTRL_MSG_SIZE \<or> \<not> e_malloc E then fail R_err s
         else do { q \<leftarrow> conn; _ \<leftarrow> map_of (sv_conns s) q;
                   if e_send E then Some (s, [\<lparr>rp_conn = q, rp_type = ty, rp_message_id = cn_next_message_id k,
                     rp_status = R_done, rp_body = body\<rparr>], R_done)
                   else fail R_err s } }"

definition delete_dlock_connection :: "ptr \<Rightarrow> dlock_server \<Rightarrow> dlock_server" where
  "delete_dlock_connection p s = s\<lparr>sv_conns := um_erase p (sv_conns s)\<rparr>"

definition upd_client :: "u32 \<Rightarrow> (client_entry_s \<Rightarrow> client_entry_s) \<Rightarrow> dlock_server \<Rightarrow> dlock_server" where
  "upd_client c f s = s\<lparr>sv_client_map := um_update c f (sv_client_map s)\<rparr>"

definition mark_client_exception :: "u32 \<Rightarrow> ptr \<Rightarrow> dlock_server \<Rightarrow> dlock_server" where
  "mark_client_exception c p s = delete_dlock_connection p
    (case map_of (sv_client_map s) c of
       None \<Rightarrow> s
     | Some _ \<Rightarrow> (upd_client c (\<lambda>e. e\<lparr>ce_p_conn := None\<rparr>) s)
         \<lparr>sv_except_client_set := insort_insert c (sv_except_client_set s)\<rparr>)"

definition conn_exception_process :: "ptr \<Rightarrow> dlock_server \<Rightarrow> dlock_server option" where
  "conn_exception_process p s =
    do { k \<leftarrow> map_of (sv_conns s) p;
         Some (case cn_peer k of Some c \<Rightarrow> mark_client_exception c p s | None \<Rightarrow> delete_dlock_connection p s) }"

subsection \<open>Locks\<close>

definition lock_type_of_u32 :: "u32 \<Rightarrow> dlock_type option" where
  "lock_type_of_u32 t = (if t < 3 then lock_type_of (ucast t) else None)"

definition descriptor_init :: "mem_env \<Rightarrow> u32 \<Rightarrow> u8 list \<Rightarrow> dlock_status + u8 list" where
  "descriptor_init me len buf =
    (if len > MAX_LOCK_DESC_LEN then Inl DLOCK_EINVAL else if \<not> calloc_desc me then Inl DLOCK_ENOMEM else Inr buf)"

text \<open>
  The loop of \<open>find_available_lock_id\<close> and \<open>find_available_object_id\<close>: the value left in the
  counter and the id found (\<open>None\<close> is the return value -1).
\<close>

function find_id :: "(u32 \<Rightarrow> bool) \<Rightarrow> u32 \<Rightarrow> bool \<Rightarrow> u32 \<times> u32 option" where
  "find_id used cur loop_flag =
    (let c = cur + 1 in
     if sint c \<le> 0 then
       (if loop_flag then (c, None)
        else if used 1 then find_id used 1 True else (1, Some 1))
     else if used c then find_id used c loop_flag else (c, Some c))"
  by pat_completeness auto

lemma sint_succ_pos: "0 < sint (c + 1 :: u32) \<Longrightarrow> sint (c + 1) = sint c + 1"
proof -
  assume a: "0 < sint (c + 1)"
  have b: "- (2 ^ 31) \<le> sint c" "sint c < 2 ^ 31" using sint_ge[of c] sint_lt[of c] by simp_all
  have e: "sint (c + 1) = signed_take_bit 31 (sint c + 1)" by (simp add: sint_word_ariths(1))
  show ?thesis
  proof (cases "sint c = 2 ^ 31 - 1")
    case True
    have "signed_take_bit 31 (2147483648 :: int) = - 2147483648" by code_simp
    with True e a show ?thesis by simp
  next
    case False
    with b e show ?thesis by (simp add: signed_take_bit_int_eq_self_iff)
  qed
qed

termination find_id
proof (relation "measure (\<lambda>(used, cur, loop_flag). nat ((if loop_flag then 0 else 2 ^ 33) + 2 ^ 31 - sint cur))", goal_cases)
  case (2 used cur loop_flag x)
  have "- (2 ^ 31) \<le> sint cur" "sint cur < 2 ^ 31" using sint_ge[of cur] sint_lt[of cur] by simp_all
  with 2 show ?case by auto
next
  case (3 used cur loop_flag x)
  then have "sint (cur + 1) = sint cur + 1" by (intro sint_succ_pos) simp
  moreover have "sint (cur + 1) < 2 ^ 31" using sint_lt[of "cur + 1"] by simp
  ultimately show ?case using 3 by auto
qed simp

declare find_id.simps [simp del]

definition find_available_lock_id :: "u32 \<Rightarrow> dlock_server \<Rightarrow> dlock_server \<times> u32 option" where
  "find_available_lock_id lock_id s =
    (if 0 < sint lock_id \<and> map_of (sv_lock_map s) lock_id = None then (s, Some lock_id)
     else (let (c, r) = find_id (\<lambda>i. map_of (sv_lock_map s) i \<noteq> None) (sv_curr_lock_id s) False
           in (s\<lparr>sv_curr_lock_id := c\<rparr>, r)))"

text \<open>Entering a new lock entry into the two maps of the server.\<close>

definition add_lock :: "u32 \<Rightarrow> u8 list \<Rightarrow> lock_entry_s \<Rightarrow> dlock_server \<Rightarrow> dlock_server" where
  "add_lock i desc e s = s\<lparr>sv_locks := (sv_locks s)(sv_next_ptr s \<mapsto> \<lparr>le_base = e, le_lock_dec = desc, le_lease_time_map = []\<rparr>),
     sv_next_ptr := sv_next_ptr s + 1,
     sv_lock_desc_map := um_insert desc (sv_next_ptr s) (sv_lock_desc_map s),
     sv_lock_map := um_insert i (sv_next_ptr s) (sv_lock_map s),
     sv_lock_num := sv_lock_num s + 1\<rparr>"

definition get_lock_by_msg ::
  "mem_env \<Rightarrow> get_lock_body \<Rightarrow> dlock_server \<Rightarrow> (dlock_server \<times> get_lock_body \<times> ptr option) option" where
  "get_lock_by_msg me g s =
    (let no_resource = g\<lparr>gl_lock_id := NO_RESOURCE_ID\<rparr> in
     case lock_type_of_u32 (gl_lock_type g) of
       None \<Rightarrow> Some (s, g, None)
     | Some t \<Rightarrow>
        if \<not> new_desc me then Some (s, no_resource, None)
        else (case descriptor_init me (gl_desc_len g) (gl_desc g) of
          Inl r \<Rightarrow> Some (s, if r = DLOCK_ENOMEM then no_resource else g, None)
        | Inr desc \<Rightarrow>
           (case map_of (sv_lock_desc_map s) desc of
              None \<Rightarrow>
                if sv_lock_num s \<ge> int MAX_NUM_LOCK then Some (s, no_resource, None)
                else if sv_is_primary s then
                  (case find_available_lock_id (gl_lock_id g) s of
                     (s1, None) \<Rightarrow> Some (s1, no_resource, None)
                   | (s1, Some lock_id) \<Rightarrow>
                       if \<not> new_entry me then Some (s1, no_resource, None)
                       else (let (mem, e) = lock_entry_s_new lock_id t (sv_lock_memory s1) in
                         if es_lock_offset e = UINT_MAX
                         then Some (s1\<lparr>sv_lock_memory := lock_entry_s_delete e mem\<rparr>, no_resource, None)
                         else Some (add_lock lock_id desc e (s1\<lparr>sv_lock_memory := mem\<rparr>),
                           g\<lparr>gl_lock_id := lock_id, gl_offset := of_nat (es_lock_offset e)\<rparr>, Some (sv_next_ptr s1))))
                else
                  (if \<not> new_entry me then Some (s, no_resource, None)
                   else (let (mem, e) = lock_entry_s_new_at (gl_lock_id g) t (unat (gl_offset g)) (sv_lock_memory s)
                     in Some (add_lock (gl_lock_id g) desc e (s\<lparr>sv_lock_memory := mem\<rparr>), g, Some (sv_next_ptr s))))
            | Some p \<Rightarrow>
                do { e \<leftarrow> sv_locks s p;
                     if Some (es_lock_type (le_base e)) \<noteq> lock_type_of_u32 (gl_lock_type g)
                     then Some (s, g\<lparr>gl_lock_id := - 1\<rparr>, None)
                     else Some (s, g\<lparr>gl_lock_id := es_lock_id (le_base e), gl_offset := of_nat (es_lock_offset (le_base e))\<rparr>, Some p) })))"

text \<open>The client takes a reference to the lock unless it has one: its own map and the lock's lease map.\<close>

definition link_lock :: "u32 \<Rightarrow> u32 \<Rightarrow> ptr \<Rightarrow> u32 \<Rightarrow> dlock_server \<Rightarrow> dlock_server" where
  "link_lock c i p lease s = (upd_client c (\<lambda>e. e\<lparr>ce_lock_map := um_insert i p (ce_lock_map e)\<rparr>) s)
     \<lparr>sv_locks := (sv_locks s)(p := map_option (\<lambda>e. e\<lparr>le_lease_time_map := um_insert c lease (le_lease_time_map e)\<rparr>) (sv_locks s p))\<rparr>"

definition get_lock_reply :: "env \<Rightarrow> ptr option \<Rightarrow> bmem \<Rightarrow> get_lock_body \<Rightarrow> dlock_server \<Rightarrow> ctl_res" where
  "get_lock_reply E conn b g s =
    send_reply E conn conn GET_LOCK_RESPONSE (load_bytes (put_get_lock_body b 0 g) 0 DLOCK_GET_LOCK_BODY_LEN) s"

definition get_lock_do :: "env \<Rightarrow> ptr \<Rightarrow> dlock_control_hdr \<Rightarrow> bmem option \<Rightarrow> dlock_server \<Rightarrow> ctl_res" where
  "get_lock_do E p_conn h body s =
    do { b \<leftarrow> body;
         let g = get_lock_body_at b 0;
         let c = h_client_id h;
         if check_msg_body_len_invalid h (of_nat DLOCK_GET_LOCK_BODY_LEN + ucast (gl_desc_len g)) then fail R_err s
         else (case map_of (sv_client_map s) c of
           None \<Rightarrow> fail R_err s
         | Some ce \<Rightarrow>
             do { (s1, g1, r) \<leftarrow> get_lock_by_msg (e_mem E 0) g s;
                  (case r of
                     None \<Rightarrow> fail (if gl_lock_id g1 = NO_RESOURCE_ID then R_status DLOCK_SERVER_NO_RESOURCE else R_err) s1
                   | Some p \<Rightarrow>
                       get_lock_reply E (ce_p_conn ce) b g1
                         (if map_of (ce_lock_map ce) (gl_lock_id g1) \<noteq> None then s1
                          else link_lock c (gl_lock_id g1) p (gl_lease_time g1) s1)) }) }"

text \<open>Deleting a lock entry and its descriptor: \<open>lock_entry_release\<close> and the two copies of its body.\<close>

definition lock_entry_release :: "u32 \<Rightarrow> ptr \<Rightarrow> lock_entry \<Rightarrow> dlock_server \<Rightarrow> dlock_server" where
  "lock_entry_release i p e s = s\<lparr>sv_lock_desc_map := um_erase (le_lock_dec e) (sv_lock_desc_map s),
     sv_lock_memory := lock_entry_s_delete (le_base e) (sv_lock_memory s),
     sv_locks := (sv_locks s)(p := None),
     sv_lock_map := um_erase i (sv_lock_map s),
     sv_lock_num := (if sv_lock_num s \<le> 0 then sv_lock_num s else sv_lock_num s - 1)\<rparr>"

definition release_lock_map_entry :: "u32 \<Rightarrow> ptr \<Rightarrow> u32 \<Rightarrow> dlock_server \<Rightarrow> dlock_server option" where
  "release_lock_map_entry i p c s =
    do { e \<leftarrow> sv_locks s p;
         let e1 = e\<lparr>le_lease_time_map := um_erase c (le_lease_time_map e)\<rparr>;
         Some (if le_lease_time_map e1 = [] then lock_entry_release i p e1 s
               else s\<lparr>sv_locks := (sv_locks s)(p \<mapsto> e1)\<rparr>) }"

definition drop_client_lock :: "u32 \<Rightarrow> u32 \<Rightarrow> dlock_server \<Rightarrow> dlock_server" where
  "drop_client_lock c i = upd_client c (\<lambda>e. e\<lparr>ce_lock_map := um_erase i (ce_lock_map e)\<rparr>)"

definition release_lock_do :: "env \<Rightarrow> ptr \<Rightarrow> dlock_control_hdr \<Rightarrow> bmem option \<Rightarrow> dlock_server \<Rightarrow> ctl_res" where
  "release_lock_do E p_conn h body s =
    (if check_msg_body_len_invalid h (of_nat DLOCK_RELEASE_LOCK_BODY_LEN) then fail R_err s
     else let c = h_client_id h in
       case map_of (sv_client_map s) c of
         None \<Rightarrow> fail R_err s
       | Some ce \<Rightarrow>
           do { b \<leftarrow> body;
                let i = load32 b 0;
                (case map_of (ce_lock_map ce) i of
                   None \<Rightarrow> fail R_err s
                 | Some p \<Rightarrow>
                     do { s1 \<leftarrow> release_lock_map_entry i p c s;
                          send_reply E (Some p_conn) (ce_p_conn ce) RELEASE_LOCK_RESPONSE [] (drop_client_lock c i s1) }) })"

text \<open>The loop over the requests of a batch, from byte \<open>off\<close> of the body on.  \<open>False\<close>: the early return -1.\<close>

fun batch_get_loop ::
  "env \<Rightarrow> u32 \<Rightarrow> nat \<Rightarrow> nat \<Rightarrow> nat \<Rightarrow> nat \<Rightarrow> bmem \<Rightarrow> dlock_server \<Rightarrow> (dlock_server \<times> bmem \<times> bool) option" where
  "batch_get_loop E c msg_body_len 0 i off b s = Some (s, b, True)"
| "batch_get_loop E c msg_body_len (Suc n) i off b s =
    (let g = get_lock_body_at b off;
         off1 = off + DLOCK_GET_LOCK_BODY_LEN + unat (gl_desc_len g) in
     if off1 > msg_body_len then Some (s, b, False)
     else do { (s1, g1, r) \<leftarrow> get_lock_by_msg (e_mem E i) g s;
               let b1 = put_get_lock_body b off g1;
               let s2 = (case r of
                   None \<Rightarrow> s1
                 | Some p \<Rightarrow>
                    (case map_of (sv_client_map s1) c of
                       None \<Rightarrow> s1
                     | Some ce \<Rightarrow> if map_of (ce_lock_map ce) (gl_lock_id g1) \<noteq> None then s1
                                  else link_lock c (gl_lock_id g1) p (gl_lease_time g1) s1));
               batch_get_loop E c msg_body_len n (i + 1) off1 b1 s2 })"

text \<open>\<open>batch_get_lock_reply\<close> copies the fixed parts of the requests into the reply.\<close>

fun batch_get_fixed :: "nat \<Rightarrow> nat \<Rightarrow> bmem \<Rightarrow> u8 list" where
  "batch_get_fixed 0 off b = []"
| "batch_get_fixed (Suc n) off b = load_bytes b off DLOCK_GET_LOCK_BODY_LEN @
     batch_get_fixed n (off + DLOCK_GET_LOCK_BODY_LEN + unat (load32 b (off + 16))) b"

definition batch_get_lock_do :: "env \<Rightarrow> ptr \<Rightarrow> dlock_control_hdr \<Rightarrow> bmem option \<Rightarrow> dlock_server \<Rightarrow> ctl_res" where
  "batch_get_lock_do E p_conn h body s =
    (let c = h_client_id h in
     case map_of (sv_client_map s) c of
       None \<Rightarrow> fail R_err s
     | Some ce \<Rightarrow>
         do { b \<leftarrow> body;
              let n = unat (load32 b 0);
              (s1, b1, ok) \<leftarrow> batch_get_loop E c (unat (of_int (body_len h) :: u16)) n 0 DLOCK_BATCH_GET_LOCK_BODY_LEN b s;
              if \<not> ok then fail R_err s1
              else send_reply E (ce_p_conn ce) (ce_p_conn ce) BATCH_GET_LOCK_RESPONSE
                (load_bytes b1 0 4 @ batch_get_fixed n DLOCK_BATCH_GET_LOCK_BODY_LEN b1) s1 })"

fun batch_release_loop :: "u32 \<Rightarrow> nat \<Rightarrow> nat \<Rightarrow> bmem \<Rightarrow> dlock_server \<Rightarrow> dlock_server option" where
  "batch_release_loop c 0 off b s = Some s"
| "batch_release_loop c (Suc n) off b s =
    (let i = load32 b off in
     case Option.bind (map_of (sv_client_map s) c) (\<lambda>ce. map_of (ce_lock_map ce) i) of
       None \<Rightarrow> batch_release_loop c n (off + DLOCK_RELEASE_LOCK_BODY_LEN) b s
     | Some p \<Rightarrow>
         do { s1 \<leftarrow> release_lock_map_entry i p c s;
              batch_release_loop c n (off + DLOCK_RELEASE_LOCK_BODY_LEN) b (drop_client_lock c i s1) })"

definition batch_release_lock_do :: "env \<Rightarrow> ptr \<Rightarrow> dlock_control_hdr \<Rightarrow> bmem option \<Rightarrow> dlock_server \<Rightarrow> ctl_res" where
  "batch_release_lock_do E p_conn h body s =
    (if body_len h < int DLOCK_BATCH_RELEASE_LOCK_BODY_LEN then fail R_err s
     else do { b \<leftarrow> body;
       let lock_num = load32 b 0;
       if check_msg_body_len_invalid h (of_nat DLOCK_BATCH_RELEASE_LOCK_BODY_LEN + ucast lock_num * of_nat DLOCK_RELEASE_LOCK_BODY_LEN)
       then fail R_err s
       else (let c = h_client_id h in
         case map_of (sv_client_map s) c of
           None \<Rightarrow> fail R_err s
         | Some ce \<Rightarrow>
             do { s1 \<leftarrow> batch_release_loop c (unat lock_num) DLOCK_BATCH_RELEASE_LOCK_BODY_LEN b s;
                  send_reply E (Some p_conn) (ce_p_conn ce) BATCH_RELEASE_LOCK_RESPONSE [] s1 }) })"

subsection \<open>Recovery of locks\<close>

definition update_lock_body_at :: "bmem \<Rightarrow> nat \<Rightarrow> update_lock_body" where
  "update_lock_body_at b a = \<lparr>ul_lock_id = load32 b a, ul_lock_type = load32 b (a + 4), ul_lease_time = load32 b (a + 8),
     ul_offset = load32 b (a + 12), ul_desc_len = unat (load32 b (a + 16)),
     ul_ls = \<lparr>w0 = load32 b (a + 24), w1 = load32 b (a + 28), w2 = load32 b (a + 32), w3 = load32 b (a + 36)\<rparr>,
     ul_desc = load_bytes b (a + DLOCK_UPDATE_LOCK_BODY_LEN) (unat (load32 b (a + 16)))\<rparr>"

definition put_update_lock_body :: "bmem \<Rightarrow> nat \<Rightarrow> update_lock_body \<Rightarrow> bmem" where
  "put_update_lock_body b a g = store32 (store32 b a (ul_lock_id g)) (a + 12) (ul_offset g)"

definition update_lock_by_msg ::
  "mem_env \<Rightarrow> update_lock_body \<Rightarrow> dlock_server \<Rightarrow> (dlock_server \<times> update_lock_body \<times> ptr option) option" where
  "update_lock_by_msg me g s =
    (let bad = g\<lparr>ul_lock_id := - 1\<rparr>;
         sync = (\<lambda>e s. s\<lparr>sv_lock_memory := sync_lock_state (Some (es_lock_type e)) (es_lock_offset e) (ul_ls g) (sv_lock_memory s)\<rparr>) in
     case lock_type_of_u32 (ul_lock_type g) of
       None \<Rightarrow> Some (s, bad, None)
     | Some t \<Rightarrow>
        if \<not> new_desc me then Some (s, bad, None)
        else (case descriptor_init me (of_nat (ul_desc_len g)) (ul_desc g) of
          Inl r \<Rightarrow> Some (s, bad, None)
        | Inr desc \<Rightarrow>
           (case map_of (sv_lock_desc_map s) desc of
              None \<Rightarrow>
                if sv_lock_num s \<ge> int MAX_NUM_LOCK then Some (s, bad, None)
                else
                  (case find_available_lock_id (ul_lock_id g) s of
                     (s1, None) \<Rightarrow> Some (s1, bad, None)
                   | (s1, Some lock_id) \<Rightarrow>
                       if \<not> new_entry me then Some (s1, bad, None)
                       else (let (mem, e) = lock_entry_s_new lock_id t (sv_lock_memory s1) in
                         if es_lock_offset e = UINT_MAX
                         then Some (s1\<lparr>sv_lock_memory := lock_entry_s_delete e mem\<rparr>, bad, None)
                         else Some (sync e (add_lock lock_id desc e (s1\<lparr>sv_lock_memory := mem\<rparr>)),
                           g\<lparr>ul_lock_id := lock_id, ul_offset := of_nat (es_lock_offset e)\<rparr>, Some (sv_next_ptr s1))))
            | Some p \<Rightarrow>
                do { e \<leftarrow> sv_locks s p;
                     Some (sync (le_base e) s,
                       g\<lparr>ul_lock_id := es_lock_id (le_base e), ul_offset := of_nat (es_lock_offset (le_base e))\<rparr>, Some p) })))"

fun batch_update_loop ::
  "env \<Rightarrow> u32 \<Rightarrow> nat \<Rightarrow> nat \<Rightarrow> nat \<Rightarrow> nat \<Rightarrow> bmem \<Rightarrow> dlock_server \<Rightarrow> (dlock_server \<times> bmem) option" where
  "batch_update_loop E c msg_body_len 0 i off b s = Some (s, b)"
| "batch_update_loop E c msg_body_len (Suc n) i off b s =
    (let g = update_lock_body_at b off;
         off1 = off + DLOCK_UPDATE_LOCK_BODY_LEN + ul_desc_len g in
     if off1 > msg_body_len then Some (s, b)
     else do { (s1, g1, r) \<leftarrow> update_lock_by_msg (e_mem E i) g s;
               let b1 = put_update_lock_body b off g1;
               let s2 = (case r of
                   None \<Rightarrow> s1
                 | Some p \<Rightarrow>
                    (case map_of (sv_client_map s1) c of
                       None \<Rightarrow> s1
                     | Some ce \<Rightarrow> if map_of (ce_lock_map ce) (ul_lock_id g1) \<noteq> None then s1
                                  else upd_client c (\<lambda>e. e\<lparr>ce_client_lock_updated := True\<rparr>)
                                    (link_lock c (ul_lock_id g1) p (ul_lease_time g1) s1)));
               batch_update_loop E c msg_body_len n (i + 1) off1 b1 s2 })"

text \<open>The request itself, updated, is sent back on the connection it came from.\<close>

definition batch_update_locks_do :: "env \<Rightarrow> ptr \<Rightarrow> dlock_control_hdr \<Rightarrow> bmem option \<Rightarrow> dlock_server \<Rightarrow> ctl_res" where
  "batch_update_locks_do E p_conn h body s =
    (if \<not> sv_is_primary s then fail R_err s
     else let c = h_client_id h in
       case map_of (sv_client_map s) c of
         None \<Rightarrow> fail R_err s
       | Some ce \<Rightarrow>
           if \<not> ce_reinit_flag ce then fail R_err s
           else do { b \<leftarrow> body;
                let n = unat (load32 b 0);
                (s1, b1) \<leftarrow> batch_update_loop E c (unat (of_int (body_len h) :: u16)) n 0 DLOCK_BATCH_UPDATE_LOCK_BODY_LEN b s;
                _ \<leftarrow> map_of (sv_conns s1) p_conn;
                if e_send E then Some (s1, [\<lparr>rp_conn = p_conn, rp_type = BATCH_UPDATE_LOCKS_RESPONSE,
                  rp_message_id = h_message_id h, rp_status = R_done,
                  rp_body = load_bytes b1 0 (unat (h_total_len h) - DLOCK_FIXED_CTRL_MSG_HDR_LEN)\<rparr>], R_done)
                else fail R_err s1 })"

subsection \<open>Objects\<close>

definition check_lease_expired :: "nat \<Rightarrow> object_entry_s \<Rightarrow> bool" where
  "check_lease_expired now e \<longleftrightarrow> now \<ge> oe_max_lease_tp e"

definition lease_end :: "env \<Rightarrow> u32 \<Rightarrow> nat" where
  "lease_end E lease_time = e_now E + unat lease_time * 1000000000"

definition find_available_object_id :: "u32 \<Rightarrow> dlock_server \<Rightarrow> dlock_server \<times> u32 option" where
  "find_available_object_id object_id s =
    (if 0 < sint object_id \<and> map_of (sv_object_map s) object_id = None then (s, Some object_id)
     else (let (c, r) = find_id (\<lambda>i. map_of (sv_object_map s) i \<noteq> None) (sv_curr_object_id s) False
           in (s\<lparr>sv_curr_object_id := c\<rparr>, r)))"

definition add_object :: "u32 \<Rightarrow> object_entry_s \<Rightarrow> u64 \<Rightarrow> dlock_server \<Rightarrow> dlock_server" where
  "add_object i e v s = s\<lparr>sv_object_memory := object_memory_set (oe_offset e) v (sv_object_memory s),
     sv_objects := (sv_objects s)(sv_next_ptr s \<mapsto> e), sv_next_ptr := sv_next_ptr s + 1,
     sv_object_desc_map := um_insert (oe_desc e) (sv_next_ptr s) (sv_object_desc_map s),
     sv_object_map := um_insert i (sv_next_ptr s) (sv_object_map s)\<rparr>"

definition new_object :: "u8 list \<Rightarrow> u32 \<Rightarrow> u32 \<Rightarrow> nat \<Rightarrow> object_entry_s" where
  "new_object desc i owner off = \<lparr>oe_desc = desc, oe_id = i, oe_owner_id = owner, oe_offset = off, oe_refcnt = 0,
     oe_destroyed = False, oe_max_lease_tp = 0, oe_lease_tp_map = []\<rparr>"

definition create_object_by_msg ::
  "mem_env \<Rightarrow> object_body \<Rightarrow> u32 \<Rightarrow> dlock_server \<Rightarrow> dlock_server \<times> object_body \<times> ptr option" where
  "create_object_by_msg me g c s =
    (let no_resource = g\<lparr>ob_obj_id := NO_RESOURCE_ID\<rparr> in
     if \<not> new_desc me then (s, no_resource, None)
     else case descriptor_init me (ob_desc_len g) (ob_body_desc g) of
       Inl r \<Rightarrow> (s, if r = DLOCK_ENOMEM then no_resource else g, None)
     | Inr desc \<Rightarrow>
        if sv_is_primary s then
          (case find_available_object_id (ob_obj_id g) s of
             (s1, None) \<Rightarrow> (s1, no_resource, None)
           | (s1, Some object_id) \<Rightarrow>
               if \<not> new_entry me then (s1, no_resource, None)
               else (let (mem, off) = alloc_object_memory (sv_object_memory s1) in
                 if off \<ge> INVALID_OFFSET then (s1\<lparr>sv_object_memory := mem\<rparr>, no_resource, None)
                 else (add_object object_id (new_object desc object_id c off) (ob_init_value g) (s1\<lparr>sv_object_memory := mem\<rparr>),
                   g\<lparr>ob_obj_id := object_id, ob_body_offset := of_nat off\<rparr>, Some (sv_next_ptr s1))))
        else if \<not> new_entry me then (s, no_resource, None)
        else (add_object (ob_obj_id g) (new_object desc (ob_obj_id g) c (unat (ob_body_offset g))) (ob_init_value g) s, g,
          Some (sv_next_ptr s)))"

definition object_reply :: "env \<Rightarrow> ptr option \<Rightarrow> u8 \<Rightarrow> nat \<Rightarrow> bmem \<Rightarrow> dlock_server \<Rightarrow> ctl_res" where
  "object_reply E conn ty n b = send_reply E conn conn ty (load_bytes b 0 n)"

text \<open>The loop over all clients that removes an object from their maps.\<close>

definition drop_object_all :: "u32 \<Rightarrow> dlock_server \<Rightarrow> dlock_server" where
  "drop_object_all i s = s\<lparr>sv_client_map :=
     map (\<lambda>(k, c). (k, c\<lparr>ce_object_map := um_erase i (ce_object_map c)\<rparr>)) (sv_client_map s)\<rparr>"

definition upd_object :: "ptr \<Rightarrow> (object_entry_s \<Rightarrow> object_entry_s) \<Rightarrow> dlock_server \<Rightarrow> dlock_server" where
  "upd_object p f s = s\<lparr>sv_objects := (sv_objects s)(p := map_option f (sv_objects s p))\<rparr>"

definition refresh_object_entry :: "env \<Rightarrow> ptr \<Rightarrow> object_entry_s \<Rightarrow> u32 \<Rightarrow> u32 \<Rightarrow> dlock_server \<Rightarrow> dlock_server" where
  "refresh_object_entry E p e c lease_time s = drop_object_all (oe_id e)
    (upd_object p (\<lambda>e. e\<lparr>oe_owner_id := c, oe_refcnt := 0, oe_destroyed := False, oe_max_lease_tp := lease_end E lease_time,
       oe_lease_tp_map := [(c, lease_end E lease_time)]\<rparr>) s)"

text \<open>\<open>m[c] = std::max(m[c], t)\<close> with the zero time point for an absent key, and the same for the maximum.\<close>

definition extend_lease :: "u32 \<Rightarrow> nat \<Rightarrow> object_entry_s \<Rightarrow> object_entry_s" where
  "extend_lease c t e = e\<lparr>oe_max_lease_tp := max (oe_max_lease_tp e) t,
     oe_lease_tp_map := um_insert c (max (case map_of (oe_lease_tp_map e) c of None \<Rightarrow> 0 | Some u \<Rightarrow> u) t) (oe_lease_tp_map e)\<rparr>"

definition create_object_do :: "env \<Rightarrow> ptr \<Rightarrow> dlock_control_hdr \<Rightarrow> bmem option \<Rightarrow> dlock_server \<Rightarrow> ctl_res" where
  "create_object_do E p_conn h body s =
    do { b \<leftarrow> body;
         let g = object_create_body_at b;
         let c = h_client_id h;
         if check_msg_body_len_invalid h (of_nat DLOCK_OBJECT_CREATE_BODY_LEN + ucast (ob_desc_len g))
         then fail (R_status DLOCK_EINVAL) s
         else (case map_of (sv_client_map s) c of
           None \<Rightarrow> fail (R_status DLOCK_CLIENT_NOT_INIT) s
         | Some ce \<Rightarrow>
            if \<not> new_desc (e_mem E 0) then fail (R_status DLOCK_SERVER_NO_RESOURCE) s
            else (case descriptor_init (e_mem E 0) (ob_desc_len g) (ob_body_desc g) of
              Inl r \<Rightarrow> fail (R_status r) s
            | Inr desc \<Rightarrow>
               (case map_of (sv_object_desc_map s) desc of
                  Some p \<Rightarrow>
                    do { e \<leftarrow> sv_objects s p;
                         if oe_destroyed e then
                           (if oe_refcnt e \<noteq> 0 \<and> \<not> check_lease_expired (e_now E) e
                            then fail (R_status DLOCK_OBJECT_ALREADY_DESTROYED) s
                            else object_reply E (ce_p_conn ce) OBJECT_CREATE_RESPONSE DLOCK_OBJECT_CREATE_BODY_LEN
                              (store32 b 0 (oe_id e)) (refresh_object_entry E p e c (ob_lease_time g) s))
                         else if c = oe_owner_id e \<or> oe_owner_id e = 0
                         then fail (R_status DLOCK_OBJECT_ALREADY_CREATED) (upd_object p (extend_lease c (lease_end E (ob_lease_time g))) s)
                         else fail (R_status DLOCK_OBJECT_ALREADY_EXISTED) s }
                | None \<Rightarrow>
                    if sv_curr_object_num s = MAX_OBJECT_SIZE then fail (R_status DLOCK_OBJECT_TOO_MANY) s
                    else (case create_object_by_msg (e_mem E 1) g c s of
                      (s1, g1, None) \<Rightarrow>
                        fail (if ob_obj_id g1 = NO_RESOURCE_ID then R_status DLOCK_SERVER_NO_RESOURCE else R_err) s1
                    | (s1, g1, Some p) \<Rightarrow>
                        object_reply E (ce_p_conn ce) OBJECT_CREATE_RESPONSE DLOCK_OBJECT_CREATE_BODY_LEN (put_object_body b g1)
                          ((upd_object p (\<lambda>e. e\<lparr>oe_max_lease_tp := lease_end E (ob_lease_time g),
                             oe_lease_tp_map := [(c, lease_end E (ob_lease_time g))]\<rparr>) s1)
                           \<lparr>sv_curr_object_num := sv_curr_object_num s1 + 1\<rparr>))))) }"

definition destroy_object_entry :: "ptr \<Rightarrow> object_entry_s \<Rightarrow> dlock_server \<Rightarrow> dlock_server" where
  "destroy_object_entry p e s =
    (if sv_curr_object_num s \<le> 0 then s
     else drop_object_all (oe_id e)
       (s\<lparr>sv_object_memory := free_object_memory (oe_offset e) (sv_object_memory s),
          sv_object_desc_map := um_erase (oe_desc e) (sv_object_desc_map s),
          sv_object_map := um_erase (oe_id e) (sv_object_map s),
          sv_objects := (sv_objects s)(p := None),
          sv_curr_object_num := sv_curr_object_num s - 1\<rparr>))"

definition destroy_object_do :: "env \<Rightarrow> ptr \<Rightarrow> dlock_control_hdr \<Rightarrow> bmem option \<Rightarrow> dlock_server \<Rightarrow> ctl_res" where
  "destroy_object_do E p_conn h body s =
    (if check_msg_body_len_invalid h (of_nat DLOCK_OBJECT_DESTROY_BODY_LEN) then fail (R_status DLOCK_EINVAL) s
     else let c = h_client_id h in
       case map_of (sv_client_map s) c of
         None \<Rightarrow> fail (R_status DLOCK_CLIENT_NOT_INIT) s
       | Some ce \<Rightarrow>
           do { b \<leftarrow> body;
                (case map_of (sv_object_map s) (load32 b 0) of
                   None \<Rightarrow> fail (R_status DLOCK_OBJECT_NOT_CREATE) s
                 | Some p \<Rightarrow>
                     do { e \<leftarrow> sv_objects s p;
                          if oe_owner_id e \<noteq> c \<and> oe_owner_id e \<noteq> 0 then fail (R_status DLOCK_OBJECT_INVALID_OWNER) s
                          else if oe_destroyed e then fail (R_status DLOCK_OBJECT_ALREADY_DESTROYED) s
                          else (let e1 = e\<lparr>oe_destroyed := True\<rparr>;
                                    s1 = s\<lparr>sv_objects := (sv_objects s)(p \<mapsto> e1)\<rparr> in
                            object_reply E (ce_p_conn ce) OBJECT_DESTROY_RESPONSE DLOCK_OBJECT_DESTROY_BODY_LEN b
                              (if oe_refcnt e1 = 0 \<or> check_lease_expired (e_now E) e1
                               then destroy_object_entry p e1 s1 else s1)) }) })"

definition get_object_do :: "env \<Rightarrow> ptr \<Rightarrow> dlock_control_hdr \<Rightarrow> bmem option \<Rightarrow> dlock_server \<Rightarrow> ctl_res" where
  "get_object_do E p_conn h body s =
    do { b \<leftarrow> body;
         let g = object_get_body_at b;
         let c = h_client_id h;
         if check_msg_body_len_invalid h (of_nat DLOCK_OBJECT_GET_BODY_LEN + ucast (ob_desc_len g))
         then fail (R_status DLOCK_EINVAL) s
         else (case map_of (sv_client_map s) c of
           None \<Rightarrow> fail (R_status DLOCK_CLIENT_NOT_INIT) s
         | Some ce \<Rightarrow>
            if \<not> new_desc (e_mem E 0) then fail (R_status DLOCK_SERVER_NO_RESOURCE) s
            else (case descriptor_init (e_mem E 0) (ob_desc_len g) (ob_body_desc g) of
              Inl r \<Rightarrow> fail (R_status r) s
            | Inr desc \<Rightarrow>
               (case map_of (sv_object_desc_map s) desc of
                  None \<Rightarrow> fail (R_status DLOCK_OBJECT_NOT_CREATE) s
                | Some p \<Rightarrow>
                    do { e \<leftarrow> sv_objects s p;
                         if oe_destroyed e then fail (R_status DLOCK_OBJECT_ALREADY_DESTROYED) s
                         else (let s1 = (if map_of (ce_object_map ce) (oe_id e) = None
                                         then upd_client c (\<lambda>x. x\<lparr>ce_object_map := um_insert (oe_id e) p (ce_object_map x)\<rparr>)
                                           (upd_object p (\<lambda>e. e\<lparr>oe_refcnt := oe_refcnt e + 1\<rparr>) s)
                                         else s) in
                           object_reply E (ce_p_conn ce) OBJECT_GET_RESPONSE DLOCK_OBJECT_GET_BODY_LEN
                             (put_object_body b (g\<lparr>ob_obj_id := oe_id e, ob_body_offset := of_nat (oe_offset e)\<rparr>))
                             (upd_object p (extend_lease c (lease_end E (ob_lease_time g))) s1)) }))) }"

text \<open>A client gives up its reference: \<open>release_object_do\<close> and \<open>clear_object_client_relation\<close>.\<close>

definition drop_object_ref :: "u32 \<Rightarrow> object_entry_s \<Rightarrow> object_entry_s" where
  "drop_object_ref c e = e\<lparr>oe_refcnt := oe_refcnt e - 1, oe_lease_tp_map := um_erase c (oe_lease_tp_map e)\<rparr>"

definition drop_client_object :: "u32 \<Rightarrow> u32 \<Rightarrow> dlock_server \<Rightarrow> dlock_server" where
  "drop_client_object c i = upd_client c (\<lambda>e. e\<lparr>ce_object_map := um_erase i (ce_object_map e)\<rparr>)"

definition release_object_do :: "env \<Rightarrow> ptr \<Rightarrow> dlock_control_hdr \<Rightarrow> bmem option \<Rightarrow> dlock_server \<Rightarrow> ctl_res" where
  "release_object_do E p_conn h body s =
    (if check_msg_body_len_invalid h (of_nat DLOCK_OBJECT_RELEASE_BODY_LEN) then fail (R_status DLOCK_EINVAL) s
     else let c = h_client_id h in
       case map_of (sv_client_map s) c of
         None \<Rightarrow> fail (R_status DLOCK_CLIENT_NOT_INIT) s
       | Some ce \<Rightarrow>
           do { b \<leftarrow> body;
                (case map_of (ce_object_map ce) (load32 b 0) of
                   None \<Rightarrow> fail (R_status DLOCK_OBJECT_NOT_GET) s
                 | Some p \<Rightarrow>
                     do { e \<leftarrow> sv_objects s p;
                          let e1 = drop_object_ref c e;
                          let s1 = drop_client_object c (load32 b 0) (s\<lparr>sv_objects := (sv_objects s)(p \<mapsto> e1)\<rparr>);
                          object_reply E (ce_p_conn ce) OBJECT_RELEASE_RESPONSE DLOCK_OBJECT_RELEASE_BODY_LEN b
                            (if oe_destroyed e1 \<and> (oe_refcnt e1 = 0 \<or> check_lease_expired (e_now E) e1)
                             then destroy_object_entry p e1 s1 else s1) }) })"

subsection \<open>Clients\<close>

text \<open>The two loops that undo a client's references before its entry is deleted.\<close>

fun clear_lock_client_relation :: "u32 \<Rightarrow> (u32, ptr) umap \<Rightarrow> dlock_server \<Rightarrow> dlock_server option" where
  "clear_lock_client_relation c [] s = Some s"
| "clear_lock_client_relation c ((i, p) # xs) s =
    do { e \<leftarrow> sv_locks s p;
         let e1 = e\<lparr>le_lease_time_map := um_erase c (le_lease_time_map e)\<rparr>;
         clear_lock_client_relation c xs
           (if le_lease_time_map e1 = []
            then drop_client_lock c i (lock_entry_release (es_lock_id (le_base e1)) p e1 s)
            else s\<lparr>sv_locks := (sv_locks s)(p \<mapsto> e1)\<rparr>) }"

fun clear_object_client_relation :: "env \<Rightarrow> u32 \<Rightarrow> (u32, ptr) umap \<Rightarrow> dlock_server \<Rightarrow> dlock_server option" where
  "clear_object_client_relation E c [] s = Some s"
| "clear_object_client_relation E c ((i, p) # xs) s =
    do { e \<leftarrow> sv_objects s p;
         let e1 = drop_object_ref c e;
         let s1 = drop_client_object c i (s\<lparr>sv_objects := (sv_objects s)(p \<mapsto> e1)\<rparr>);
         let expired = check_lease_expired (e_now E) e1;
         clear_object_client_relation E c xs
           (if oe_owner_id e1 \<noteq> c then
              (if oe_destroyed e1 \<and> (oe_refcnt e1 = 0 \<or> expired) then destroy_object_entry p e1 s1 else s1)
            else if oe_refcnt e1 \<noteq> 0 \<and> \<not> expired then upd_object p (\<lambda>e. e\<lparr>oe_owner_id := 0\<rparr>) s1
            else destroy_object_entry p e1 s1) }"

text \<open>
  \<open>modify_jetty_mgr_to_invalid\<close>: \<open>e_idle\<close> is the outcome of its retry loop on the state of the
  jetty manager.
\<close>

definition modify_jetty_mgr_to_invalid :: "env \<Rightarrow> ptr option \<Rightarrow> dlock_server \<Rightarrow> (dlock_server \<times> bool) option" where
  "modify_jetty_mgr_to_invalid E jetty s =
    do { j \<leftarrow> jetty;
         if j \<notin> set (sv_jettys s) then None
         else if e_idle E j then Some (s\<lparr>sv_invalid_queue := sv_invalid_queue s @ [(j, e_now E)]\<rparr>, True)
         else Some (s, False) }"

text \<open>Deleting a client entry deletes the jetty manager it still owns.\<close>

definition delete_jetty :: "ptr option \<Rightarrow> dlock_server \<Rightarrow> dlock_server" where
  "delete_jetty jetty s = (case jetty of None \<Rightarrow> s | Some j \<Rightarrow> s\<lparr>sv_jettys := removeAll j (sv_jettys s)\<rparr>)"

definition erase_client :: "u32 \<Rightarrow> dlock_server \<Rightarrow> dlock_server" where
  "erase_client c s = s\<lparr>sv_client_map := um_erase c (sv_client_map s)\<rparr>"

fun delete_except_client_loop :: "env \<Rightarrow> u32 list \<Rightarrow> dlock_server \<Rightarrow> (dlock_server \<times> ctl_ret) option" where
  "delete_except_client_loop E [] s = Some (s, R_err)"
| "delete_except_client_loop E (c # cs) s =
    (case map_of (sv_client_map s) c of
       None \<Rightarrow> Some (s, R_err)
     | Some ce \<Rightarrow>
         do { (s1, ok) \<leftarrow> modify_jetty_mgr_to_invalid E (ce_p_jetty_mgr ce) s;
              if \<not> ok then delete_except_client_loop E cs s1
              else do { s2 \<leftarrow> clear_lock_client_relation c (ce_lock_map ce) s1;
                        s3 \<leftarrow> clear_object_client_relation E c (ce_object_map ce) s2;
                        Some ((erase_client c s3)\<lparr>sv_client_num := sv_client_num s3 - 1,
                          sv_except_client_set := removeAll c (sv_except_client_set s3)\<rparr>, R_done) } })"

definition delete_except_client_entry :: "env \<Rightarrow> dlock_server \<Rightarrow> (dlock_server \<times> ctl_ret) option" where
  "delete_except_client_entry E s =
    (if sv_except_client_set s = [] then Some (s, R_status DLOCK_SERVER_NO_RESOURCE)
     else delete_except_client_loop E (sv_except_client_set s) s)"

definition client_num_count_down :: "dlock_server \<Rightarrow> dlock_server option" where
  "client_num_count_down s = (if 0 < sv_client_num s then Some (s\<lparr>sv_client_num := sv_client_num s - 1\<rparr>) else None)"

fun alloc_client_id :: "nat \<Rightarrow> u32 option list \<Rightarrow> dlock_server \<Rightarrow> u32 option" where
  "alloc_client_id 0 rs s = None"
| "alloc_client_id (Suc n) [] s = None"
| "alloc_client_id (Suc n) (None # rs) s = None"
| "alloc_client_id (Suc n) (Some r # rs) s =
    (let c = r AND CLIENT_ID_MASK in
     if c = 0 \<or> map_of (sv_client_map s) c \<noteq> None then alloc_client_id n rs s else Some c)"

definition get_client_id :: "env \<Rightarrow> dlock_server \<Rightarrow> ctl_ret + u32" where
  "get_client_id E s =
    (if int (length (sv_client_map s)) > MAX_NUM_CLIENT then Inl (R_status DLOCK_SERVER_NO_RESOURCE)
     else case alloc_client_id MAX_TRY_ALLOC_CLIENT_ID_TIME (e_rand E) s of None \<Rightarrow> Inl R_err | Some c \<Rightarrow> Inr c)"

fun delete_invalid_jetty_mgr :: "nat \<Rightarrow> (ptr \<times> nat) list \<Rightarrow> ptr list \<Rightarrow> (ptr \<times> nat) list \<times> ptr list" where
  "delete_invalid_jetty_mgr now [] js = ([], js)"
| "delete_invalid_jetty_mgr now ((j, t) # q) js =
    (if (now - t) div 1000 < JETTY_MGR_INVALID_TIMEOUT \<and> length ((j, t) # q) < JETTY_MGR_INVALID_QUEUE_WARNING_SIZE
     then ((j, t) # q, js) else delete_invalid_jetty_mgr now q (removeAll j js))"

definition init_client_primary :: "env \<Rightarrow> dlock_server \<Rightarrow> dlock_server \<times> ptr option" where
  "init_client_primary E s =
    (let (q, js) = delete_invalid_jetty_mgr (e_now E) (sv_invalid_queue s) (sv_jettys s);
         s1 = s\<lparr>sv_invalid_queue := q, sv_jettys := js\<rparr> in
     case e_jetty E of None \<Rightarrow> (s1, None) | Some j \<Rightarrow> (s1\<lparr>sv_jettys := j # sv_jettys s1\<rparr>, Some j))"

definition set_peer :: "ptr \<Rightarrow> u32 \<Rightarrow> dlock_server \<Rightarrow> dlock_server" where
  "set_peer p c s = s\<lparr>sv_conns := um_update p (\<lambda>k. k\<lparr>cn_peer := Some c\<rparr>) (sv_conns s)\<rparr>"

definition new_client :: "u32 \<Rightarrow> ptr \<Rightarrow> ptr \<Rightarrow> bool \<Rightarrow> client_entry_s" where
  "new_client c p j reinit_flag = \<lparr>ce_client_id = c, ce_p_conn = Some p, ce_p_jetty_mgr = Some j, ce_lock_map = [],
     ce_object_map = [], ce_reinit_flag = reinit_flag, ce_client_lock_updated = False\<rparr>"

definition update_client :: "env \<Rightarrow> u32 \<Rightarrow> ptr \<Rightarrow> ptr \<Rightarrow> bool \<Rightarrow> dlock_server \<Rightarrow> dlock_server \<times> ctl_ret" where
  "update_client E c p j reinit_flag s =
    (case map_of (sv_client_map s) c of
       Some ce \<Rightarrow>
         (let s1 = (if ce_p_conn ce = Some p then s
                    else upd_client c (\<lambda>e. e\<lparr>ce_p_conn := Some p, ce_p_jetty_mgr := Some j, ce_reinit_flag := reinit_flag\<rparr>)
                      (set_peer p c s))
          in (s1\<lparr>sv_except_client_set := removeAll c (sv_except_client_set s1)\<rparr>, R_done))
     | None \<Rightarrow>
         if reinit_flag \<and> sv_recovery_client_num s = 0 then (s, R_status DLOCK_CLIENT_REMOVED_BY_SERVER)
         else if \<not> e_new_client E then (s, R_status DLOCK_SERVER_NO_RESOURCE)
         else ((set_peer p c s)\<lparr>sv_client_map := um_insert c (new_client c p j reinit_flag) (sv_client_map s)\<rparr>, R_done))"

text \<open>The part of the response that does not come from the transport layer: client id and server state.\<close>

fun server_state_val :: "dlock_server_state \<Rightarrow> u8" where
  "server_state_val SERVER_INIT = 0"
| "server_state_val SERVER_WAIT_REPLICA = 1"
| "server_state_val SERVER_WAIT_CLIENT_REINIT = 2"
| "server_state_val SERVER_READY = 3"

definition init_client_response :: "env \<Rightarrow> ptr \<Rightarrow> u32 \<Rightarrow> bool \<Rightarrow> dlock_server \<Rightarrow> ctl_res" where
  "init_client_response E p c reinit_flag s =
    send_reply E (Some p) (Some p) (if reinit_flag then CLIENT_REINIT_RESPONSE else CLIENT_INIT_RESPONSE)
      (load_bytes (store32 (\<lambda>_. 0) 0 c) 0 4 @ [server_state_val (sv_server_state s)]) s"

definition negotiate_proto_version :: "env \<Rightarrow> bool" where
  "negotiate_proto_version E \<longleftrightarrow> \<not> e_min_version E > DLOCK_PROTO_VERSION"

text \<open>
  \<open>init_client_do\<close> on a primary server, from the choice of the client id on.  \<open>ret\<close> is the
  variable of the code: the value of the last call that assigned it.
\<close>

definition init_client_enter :: "env \<Rightarrow> ptr \<Rightarrow> ctl_ret \<Rightarrow> dlock_server \<Rightarrow> ctl_res" where
  "init_client_enter E p_conn ret s =
    (case get_client_id E s of
       Inl r \<Rightarrow> fail (if r = R_status DLOCK_SERVER_NO_RESOURCE then r else ret) s
     | Inr c \<Rightarrow>
        (case init_client_primary E s of
           (s2, None) \<Rightarrow> fail ret s2
         | (s2, Some j) \<Rightarrow>
            (case update_client E c p_conn j False s2 of
               (s3, r) \<Rightarrow>
                 if r \<noteq> R_done then fail r (delete_jetty (Some j) s3)
                 else do { (s4, rs, r4) \<leftarrow> init_client_response E p_conn c False s3;
                   if r4 \<noteq> R_done then Some (erase_client c (delete_jetty (Some j) s4), rs, r4)
                   else Some (s4\<lparr>sv_client_num := sv_client_num s4 + 1\<rparr>, rs, R_done) })))"

definition init_client_do :: "env \<Rightarrow> ptr \<Rightarrow> dlock_control_hdr \<Rightarrow> bmem option \<Rightarrow> dlock_server \<Rightarrow> ctl_res" where
  "init_client_do E p_conn h body s =
    (if check_msg_body_len_invalid h (e_init_req_body_len E) then fail R_err s
     else if \<not> negotiate_proto_version E then fail (R_status DLOCK_PROTO_VERSION_NEGOTIATION_FAIL) s
     else do { (s1, ret) \<leftarrow> (if sv_client_num s = MAX_NUM_CLIENT then delete_except_client_entry E s else Some (s, R_err));
       if sv_client_num s = MAX_NUM_CLIENT \<and> ret \<noteq> R_done then fail ret s1
       else if sv_is_primary s1 then init_client_enter E p_conn ret s1
       else do { (s4, rs, r) \<leftarrow> init_client_response E p_conn (h_client_id h) False s1;
         if r \<noteq> R_done then Some (erase_client (h_client_id h) s4, rs, r)
         else Some (s4\<lparr>sv_client_num := sv_client_num s4 + 1\<rparr>, rs, R_done) } })"

text \<open>The part of \<open>reinit_client_do\<close> that clears the old jetty manager and connection of a known client.\<close>

definition reinit_clear :: "u32 \<Rightarrow> ptr \<Rightarrow> client_entry_s \<Rightarrow> dlock_server \<Rightarrow> dlock_server option" where
  "reinit_clear c p_conn ce s =
    do { j \<leftarrow> ce_p_jetty_mgr ce;
         if j \<notin> set (sv_jettys s) then None
         else (let s1 = upd_client c (\<lambda>e. e\<lparr>ce_p_jetty_mgr := None\<rparr>) (delete_jetty (Some j) s) in
           (case ce_p_conn ce of
              None \<Rightarrow> Some s1
            | Some q \<Rightarrow>
                if q = p_conn then Some s1
                else if map_of (sv_conns s1) q = None then None
                else Some (upd_client c (\<lambda>e. e\<lparr>ce_p_conn := None\<rparr>) (delete_dlock_connection q s1)))) }"

text \<open>Its tail, from the increment of the client count on.\<close>

definition reinit_enter :: "env \<Rightarrow> ptr \<Rightarrow> u32 \<Rightarrow> ptr \<Rightarrow> dlock_server \<Rightarrow> ctl_res" where
  "reinit_enter E p_conn c j s =
    (if sv_client_num s + 1 > MAX_NUM_CLIENT then fail (R_status DLOCK_SERVER_NO_RESOURCE) (delete_jetty (Some j) s)
     else case update_client E c p_conn j True s of
       (s3, r) \<Rightarrow>
         if r \<noteq> R_done then fail r (delete_jetty (Some j) s3)
         else do { (s4, rs, r4) \<leftarrow> init_client_response E p_conn c True s3;
              if r4 \<noteq> R_done then Some (delete_jetty (Some j) s4, rs, r4)
              else Some (s4\<lparr>sv_client_num := sv_client_num s4 + 1\<rparr>, rs, R_done) })"

definition reinit_client_do :: "env \<Rightarrow> ptr \<Rightarrow> dlock_control_hdr \<Rightarrow> bmem option \<Rightarrow> dlock_server \<Rightarrow> ctl_res" where
  "reinit_client_do E p_conn h body s =
    (if \<not> sv_is_primary s then fail R_err s
     else if check_msg_body_len_invalid h (e_init_req_body_len E) then fail R_err s
     else if \<not> negotiate_proto_version E then fail (R_status DLOCK_PROTO_VERSION_NEGOTIATION_FAIL) s
     else let c = h_client_id h in
       (case init_client_primary E s of
          (s1, None) \<Rightarrow> fail R_err s1
        | (s1, Some j) \<Rightarrow>
           (case map_of (sv_client_map s1) c of
              None \<Rightarrow> reinit_enter E p_conn c j s1
            | Some ce \<Rightarrow>
                if sv_recovery_client_num s1 \<noteq> 0 \<and> ce_client_lock_updated ce then fail R_err (delete_jetty (Some j) s1)
                else (case client_num_count_down s1 of
                    None \<Rightarrow> fail R_err (delete_jetty (Some j) s1)
                  | Some s2 \<Rightarrow> do { s3 \<leftarrow> reinit_clear c p_conn ce s2; reinit_enter E p_conn c j s3 }))))"

definition reinit_client_done :: "env \<Rightarrow> ptr \<Rightarrow> dlock_control_hdr \<Rightarrow> bmem option \<Rightarrow> dlock_server \<Rightarrow> ctl_res" where
  "reinit_client_done E p_conn h body s =
    (if \<not> sv_is_primary s then fail R_err s
     else let c = h_client_id h in
       case map_of (sv_client_map s) c of
         None \<Rightarrow> fail R_err s
       | Some ce \<Rightarrow>
           if \<not> ce_reinit_flag ce then fail R_err s
           else do { (s1, rs, r) \<leftarrow> send_reply E (Some p_conn) (Some p_conn) CLIENT_REINIT_DONE_RESPONSE [] s;
             if r \<noteq> R_done then Some (s1, rs, r)
             else (let s2 = upd_client c (\<lambda>e. e\<lparr>ce_reinit_flag := False\<rparr>) s1; n = sv_recovery_client_num s2 in
               Some (if n = 0 then s2
                     else if n = 1 then s2\<lparr>sv_recovery_client_num := 0, sv_server_state := SERVER_READY\<rparr>
                     else s2\<lparr>sv_recovery_client_num := n - 1\<rparr>, rs, R_done)) })"

definition deinit_client_do :: "env \<Rightarrow> ptr \<Rightarrow> dlock_control_hdr \<Rightarrow> bmem option \<Rightarrow> dlock_server \<Rightarrow> ctl_res" where
  "deinit_client_do E p_conn h body s =
    (if check_msg_body_len_invalid h 0 then fail R_err s
     else let c = h_client_id h in
       case map_of (sv_client_map s) c of
         None \<Rightarrow> fail R_err s
       | Some ce \<Rightarrow>
           do { (s1, ok) \<leftarrow> modify_jetty_mgr_to_invalid E (ce_p_jetty_mgr ce) s;
                if \<not> ok then fail R_err s1
                else (case client_num_count_down (erase_client c s1) of
                    None \<Rightarrow> fail R_err (erase_client c s1)
                  | Some s2 \<Rightarrow>
                      do { (s3, rs, r) \<leftarrow> send_reply E (Some p_conn) (Some p_conn) CLIENT_DEINIT_RESPONSE [] s2;
                           if r \<noteq> R_done then Some (s3, rs, r)
                           else Some (if sv_is_primary s3 then delete_dlock_connection p_conn s3 else s3, rs, R_done) }) })"

definition client_heartbeat_do :: "env \<Rightarrow> ptr \<Rightarrow> dlock_control_hdr \<Rightarrow> bmem option \<Rightarrow> dlock_server \<Rightarrow> ctl_res" where
  "client_heartbeat_do E p_conn h body s =
    (if \<not> sv_is_primary s then fail R_err s
     else if check_msg_body_len_invalid h 0 then fail R_err s
     else case map_of (sv_client_map s) (h_client_id h) of
         None \<Rightarrow> fail R_err s
       | Some ce \<Rightarrow> send_reply E (Some p_conn) (Some p_conn) CLIENT_HEARTBEAT_RESPONSE [] s)"

subsection \<open>Receiving a message\<close>

definition g_control_do :: "u8 \<Rightarrow> (env \<Rightarrow> ptr \<Rightarrow> dlock_control_hdr \<Rightarrow> bmem option \<Rightarrow> dlock_server \<Rightarrow> ctl_res) option" where
  "g_control_do ty =
    (if ty = CLIENT_INIT_REQUEST then Some init_client_do
     else if ty = CLIENT_DEINIT_REQUEST then Some deinit_client_do
     else if ty = CLIENT_HEARTBEAT_REQUEST then Some client_heartbeat_do
     else if ty = GET_LOCK_REQUEST then Some get_lock_do
     else if ty = RELEASE_LOCK_REQUEST then Some release_lock_do
     else if ty = BATCH_GET_LOCK_REQUEST then Some batch_get_lock_do
     else if ty = BATCH_RELEASE_LOCK_REQUEST then Some batch_release_lock_do
     else if ty = OBJECT_CREATE_REQUEST then Some create_object_do
     else if ty = OBJECT_GET_REQUEST then Some get_object_do
     else if ty = OBJECT_RELEASE_REQUEST then Some release_object_do
     else if ty = OBJECT_DESTROY_REQUEST then Some destroy_object_do
     else if ty = CLIENT_REINIT_REQUEST then Some reinit_client_do
     else if ty = CLIENT_REINIT_DONE_REQUEST then Some reinit_client_done
     else if ty = BATCH_UPDATE_LOCKS_REQUEST then Some batch_update_locks_do
     else None)"

definition get_process_control_msg_range :: "dlock_server \<Rightarrow> u8 \<times> u8" where
  "get_process_control_msg_range s =
    (if sv_server_state s = SERVER_WAIT_CLIENT_REINIT then (CLIENT_REINIT_REQUEST, BATCH_UPDATE_LOCKS_RESPONSE)
     else (CLIENT_INIT_REQUEST, CLIENT_REINIT_DONE_RESPONSE))"

definition check_control_msg_hdr :: "dlock_control_hdr \<Rightarrow> bool" where
  "check_control_msg_hdr h \<longleftrightarrow>
    h_magic_no h = DLOCK_CP_MAGIC_NO \<and>
    (if h_type h = CLIENT_INIT_REQUEST \<or> h_type h = CLIENT_REINIT_REQUEST
     then h_version h \<ge> DLOCK_MIN_PROTO_VERSION \<and> unat (h_hdr_len h) \<ge> DLOCK_FIXED_CTRL_MSG_HDR_LEN
     else h_version h = DLOCK_PROTO_VERSION \<and> unat (h_hdr_len h) = DLOCK_FIXED_CTRL_MSG_HDR_LEN) \<and>
    unat (h_total_len h) \<ge> unat (h_hdr_len h) \<and> unat (h_total_len h) \<le> DLOCK_MAX_CTRL_MSG_SIZE"

definition check_msg_type_range :: "dlock_control_hdr \<Rightarrow> u8 \<times> u8 \<Rightarrow> dlock_server \<Rightarrow> ctl_ret" where
  "check_msg_type_range h rng s =
    (if h_type h < fst rng \<or> h_type h > snd rng
     then (if sv_server_state s \<noteq> SERVER_READY then R_status DLOCK_NOT_READY else R_err)
     else R_done)"

definition check_control_msg_client_id :: "dlock_control_hdr \<Rightarrow> dlock_connection \<Rightarrow> bool" where
  "check_control_msg_client_id h k \<longleftrightarrow> (case cn_peer k of None \<Rightarrow> True | Some c \<Rightarrow> h_client_id h = c)"

text \<open>The final comparison of the code is with the request types, after the type was incremented.\<close>

definition process_control_msg_err ::
  "env \<Rightarrow> dlock_control_hdr \<Rightarrow> ptr \<Rightarrow> ctl_ret \<Rightarrow> dlock_server \<Rightarrow> (dlock_server \<times> reply list) option" where
  "process_control_msg_err E h p_conn ret_status s =
    do { _ \<leftarrow> map_of (sv_conns s) p_conn;
         if odd (unat (h_type h)) then Some (s, [])
         else (let ty = h_type h + 1;
                   rs = (if e_send E then [\<lparr>rp_conn = p_conn, rp_type = ty, rp_message_id = h_message_id h,
                           rp_status = ret_status, rp_body = []\<rparr>] else []) in
           Some (if sv_is_primary s \<and> (ty = CLIENT_INIT_REQUEST \<or> ty = CLIENT_DEINIT_REQUEST \<or> ty = 0 \<or> ty = 10)
                 then delete_dlock_connection p_conn s else s, rs)) }"

text \<open>
  \<open>process_control_msg\<close> after the header arrived: \<open>body\<close> is what follows it on the connection
  (\<open>None\<close> when receiving or buffering it fails).
\<close>

definition process_control_msg :: "env \<Rightarrow> ptr \<Rightarrow> dlock_control_hdr \<Rightarrow> bmem option \<Rightarrow> dlock_server \<Rightarrow> ctl_res" where
  "process_control_msg E p_conn h body s =
    do { k \<leftarrow> map_of (sv_conns s) p_conn;
         let err = (\<lambda>s rs r. map_option (\<lambda>(s1, rs1). (s1, rs @ rs1, R_err)) (process_control_msg_err E h p_conn r s));
         if \<not> check_control_msg_hdr h then fail R_err s
         else (case check_msg_type_range h (get_process_control_msg_range s) s of
           R_done \<Rightarrow>
             if \<not> check_control_msg_client_id h k
             then fail R_err (mark_client_exception (the (cn_peer k)) p_conn s)
             else if unat (h_total_len h) > DLOCK_FIXED_CTRL_MSG_HDR_LEN \<and> body = None then err s [] R_err
             else (case g_control_do (h_type h) of
               None \<Rightarrow> err s [] R_err
             | Some f \<Rightarrow>
                 do { (s1, rs, r) \<leftarrow> f E p_conn h (if unat (h_total_len h) > DLOCK_FIXED_CTRL_MSG_HDR_LEN then body else None)
                        (s\<lparr>sv_conns := um_update p_conn (\<lambda>k. k\<lparr>cn_next_message_id := h_message_id h\<rparr>) (sv_conns s)\<rparr>);
                      if r = R_done then Some (s1, rs, R_done) else err s1 rs r })
         | r \<Rightarrow> err s [] r) }"

end
