(* ===== verification/DLock_ControlLaws.thy ===== *)
theory DLock_ControlLaws
  imports DLock_Control
begin

section \<open>Invariants of the control plane\<close>

text \<open>
  The tables of the lock server agree with each other in every reachable state: the maps by id
  and by descriptor and the maps of the clients only hold pointers to live entries, live locks
  partition the lock memory with its free list, live objects and the free list of the object
  memory partition its cells, counters are what they count, and the reference count of an object
  covers the clients that hold it.  \<open>lock_ok\<close> and \<open>object_ok\<close> state the two halves; a
  frame relation for each half says which changes it is insensitive to, so that a handler
  is only examined for the half it works on.
\<close>

subsection \<open>Locks\<close>

text \<open>The locks in \<open>X\<close> may still be without a user: a handler creates the entry before it links the client.\<close>

definition lock_ok :: "ptr set \<Rightarrow> dlock_server \<Rightarrow> bool" where
  "lock_ok X s \<longleftrightarrow> um_ok (sv_lock_map s) \<and> sv_is_primary s \<and> m_is_primary (sv_lock_memory s) \<and>
     (\<forall>i p. map_of (sv_lock_map s) i = Some p \<longrightarrow> (\<exists>e. sv_locks s p = Some e \<and> es_lock_id (le_base e) = i)) \<and>
     (\<forall>p e. sv_locks s p = Some e \<longrightarrow> map_of (sv_lock_map s) (es_lock_id (le_base e)) = Some p \<and>
        map_of (sv_lock_desc_map s) (le_lock_dec e) = Some p \<and> p < sv_next_ptr s \<and>
        es_lock_offset (le_base e) \<noteq> UINT_MAX \<and> (le_lease_time_map e \<noteq> [] \<or> p \<in> X)) \<and>
     (\<forall>d p. map_of (sv_lock_desc_map s) d = Some p \<longrightarrow> (\<exists>e. sv_locks s p = Some e \<and> le_lock_dec e = d)) \<and>
     (\<forall>c ce. map_of (sv_client_map s) c = Some ce \<longrightarrow> um_ok (ce_lock_map ce) \<and>
        (\<forall>i p. map_of (ce_lock_map ce) i = Some p \<longrightarrow>
          (\<exists>e. sv_locks s p = Some e \<and> es_lock_id (le_base e) = i \<and> map_of (le_lease_time_map e) c \<noteq> None))) \<and>
     sv_lock_num s = int (length (sv_lock_map s)) \<and>
     heap_ok LOCK_MEMORY_SIZE (sv_lock_memory s, map (\<lambda>x. le_base (the (sv_locks s (snd x)))) (sv_lock_map s))"

lemma lock_okD:
  assumes "lock_ok X s"
  shows "um_ok (sv_lock_map s)" "sv_is_primary s" "m_is_primary (sv_lock_memory s)"
    "sv_lock_num s = int (length (sv_lock_map s))"
    "heap_ok LOCK_MEMORY_SIZE (sv_lock_memory s, map (\<lambda>x. le_base (the (sv_locks s (snd x)))) (sv_lock_map s))"
    and "map_of (sv_lock_map s) i = Some p \<Longrightarrow> \<exists>e. sv_locks s p = Some e \<and> es_lock_id (le_base e) = i"
    and "sv_locks s p = Some e \<Longrightarrow> map_of (sv_lock_map s) (es_lock_id (le_base e)) = Some p"
    and "sv_locks s p = Some e \<Longrightarrow> map_of (sv_lock_desc_map s) (le_lock_dec e) = Some p"
    and "sv_locks s p = Some e \<Longrightarrow> p < sv_next_ptr s"
    and "sv_locks s p = Some e \<Longrightarrow> es_lock_offset (le_base e) \<noteq> UINT_MAX"
    and "sv_locks s p = Some e \<Longrightarrow> le_lease_time_map e \<noteq> [] \<or> p \<in> X"
    and "map_of (sv_lock_desc_map s) d = Some p \<Longrightarrow> \<exists>e. sv_locks s p = Some e \<and> le_lock_dec e = d"
    and "map_of (sv_client_map s) c = Some ce \<Longrightarrow> um_ok (ce_lock_map ce)"
    and "map_of (sv_client_map s) c = Some ce \<Longrightarrow> map_of (ce_lock_map ce) i = Some p \<Longrightarrow>
      \<exists>e. sv_locks s p = Some e \<and> es_lock_id (le_base e) = i \<and> map_of (le_lease_time_map e) c \<noteq> None"
  using assms unfolding lock_ok_def by blast+

text \<open>The entries of one map of the clients may only shrink.\<close>

definition clients_le :: "(client_entry_s \<Rightarrow> (u32, ptr) umap) \<Rightarrow> dlock_server \<Rightarrow> dlock_server \<Rightarrow> bool" where
  "clients_le f s t \<longleftrightarrow> (\<forall>c ce. map_of (sv_client_map t) c = Some ce \<longrightarrow>
     (um_ok (f ce) \<or> (\<exists>ce'. map_of (sv_client_map s) c = Some ce' \<and> f ce = f ce')) \<and>
     (\<forall>i p. map_of (f ce) i = Some p \<longrightarrow> (\<exists>ce'. map_of (sv_client_map s) c = Some ce' \<and> map_of (f ce') i = Some p)))"

lemma clients_le_refl [simp]: "clients_le f s s"
  by (auto simp: clients_le_def)

lemma clients_le_same: "sv_client_map t = sv_client_map s \<Longrightarrow> clients_le f s t"
  by (auto simp: clients_le_def)

lemma clients_le_upd: "(\<And>ce. f (g ce) = f ce) \<Longrightarrow> sv_client_map t = um_update c g (sv_client_map s) \<Longrightarrow> clients_le f s t"
  by (auto simp: clients_le_def fun_upd_apply split: if_splits)

lemma clients_le_erase: "sv_client_map t = um_erase c (sv_client_map s) \<Longrightarrow> clients_le f s t"
  by (auto simp: clients_le_def fun_upd_apply split: if_splits)

lemma clients_le_insert: "f ce = [] \<Longrightarrow> sv_client_map t = um_insert c ce (sv_client_map s) \<Longrightarrow> clients_le f s t"
  by (auto simp: clients_le_def fun_upd_apply split: if_splits)

lemma clients_le_trans:
  assumes st: "clients_le f s t" and tu: "clients_le f t u"
  shows "clients_le f s u"
  unfolding clients_le_def
proof (intro allI impI conjI)
  fix c ce assume u: "map_of (sv_client_map u) c = Some ce"
  show "um_ok (f ce) \<or> (\<exists>ce'. map_of (sv_client_map s) c = Some ce' \<and> f ce = f ce')"
  proof (cases "um_ok (f ce)")
    case False
    with tu u obtain cf where "map_of (sv_client_map t) c = Some cf" "f ce = f cf" unfolding clients_le_def by blast
    with st False show ?thesis unfolding clients_le_def by auto
  qed simp
  fix i p assume "map_of (f ce) i = Some p"
  with tu u obtain cf where "map_of (sv_client_map t) c = Some cf" "map_of (f cf) i = Some p" unfolding clients_le_def by blast
  with st show "\<exists>ce'. map_of (sv_client_map s) c = Some ce' \<and> map_of (f ce') i = Some p" unfolding clients_le_def by blast
qed

definition lock_same :: "dlock_server \<Rightarrow> dlock_server \<Rightarrow> bool" where
  "lock_same s t \<longleftrightarrow> sv_lock_map t = sv_lock_map s \<and> sv_lock_desc_map t = sv_lock_desc_map s \<and> sv_locks t = sv_locks s \<and>
     sv_is_primary t = sv_is_primary s \<and> sv_lock_num t = sv_lock_num s \<and>
     m_free_memory_map (sv_lock_memory t) = m_free_memory_map (sv_lock_memory s) \<and>
     m_is_primary (sv_lock_memory t) = m_is_primary (sv_lock_memory s) \<and>
     sv_next_ptr s \<le> sv_next_ptr t \<and> clients_le ce_lock_map s t"

lemma lock_same_refl [simp]: "lock_same s s"
  by (simp add: lock_same_def)

lemma lock_same_trans: "lock_same s t \<Longrightarrow> lock_same t u \<Longrightarrow> lock_same s u"
  unfolding lock_same_def using clients_le_trans by auto

lemma lock_same_upd_client: "(\<And>ce. ce_lock_map (g ce) = ce_lock_map ce) \<Longrightarrow> lock_same s (upd_client c g s)"
  using clients_le_upd[of ce_lock_map g "upd_client c g s" c s] by (simp add: lock_same_def upd_client_def)

lemma heap_ok_free: "m_free_memory_map m' = m_free_memory_map m \<Longrightarrow> heap_ok n (m', es) = heap_ok n (m, es)"
  by (simp add: heap_ok_def lm_ok_def lm_free_def)

lemma lock_ok_same:
  assumes "lock_ok X s" "lock_same s t"
  shows "lock_ok X t"
proof -
  have "map_of (sv_client_map t) c = Some ce \<Longrightarrow> um_ok (ce_lock_map ce) \<and>
      (\<forall>i p. map_of (ce_lock_map ce) i = Some p \<longrightarrow>
        (\<exists>e. sv_locks s p = Some e \<and> es_lock_id (le_base e) = i \<and> map_of (le_lease_time_map e) c \<noteq> None))" for c ce
    using assms(2) lock_okD(13,14)[OF assms(1)] unfolding lock_same_def clients_le_def by metis
  with assms show ?thesis
    unfolding lock_ok_def lock_same_def by (simp add: heap_ok_free[of "sv_lock_memory t" "sv_lock_memory s"]) (meson less_le_trans)
qed

lemma lock_ok_mono: "lock_ok X s \<Longrightarrow> X \<subseteq> Y \<Longrightarrow> lock_ok Y s"
  unfolding lock_ok_def by blast

lemma lock_ok_shrink:
  assumes "lock_ok (insert p X) s" "\<And>e. sv_locks s p = Some e \<Longrightarrow> le_lease_time_map e \<noteq> []"
  shows "lock_ok X s"
proof -
  have "sv_locks s q = Some f \<Longrightarrow> le_lease_time_map f \<noteq> [] \<or> q \<in> X" for q f
    using lock_okD(11)[OF assms(1), of q f] assms(2) by blast
  with assms(1) show ?thesis unfolding lock_ok_def by blast
qed

lemma lock_id_inj:
  assumes "lock_ok X s" "sv_locks s p = Some e" "sv_locks s q = Some f" "es_lock_id (le_base e) = es_lock_id (le_base f)"
  shows "p = q"
  using lock_okD(7)[OF assms(1)] assms(2-4) by (metis option.inject)

lemma lock_dec_inj:
  assumes "lock_ok X s" "sv_locks s p = Some e" "sv_locks s q = Some f" "le_lock_dec e = le_lock_dec f"
  shows "p = q"
  using lock_okD(8)[OF assms(1)] assms(2-4) by (metis option.inject)

text \<open>The list of lock structures that the allocator invariant speaks about.\<close>

abbreviation bases :: "dlock_server \<Rightarrow> lock_entry_s list" where
  "bases s \<equiv> map (\<lambda>x. le_base (the (sv_locks s (snd x)))) (sv_lock_map s)"

lemma bases_cong:
  assumes "lock_ok X s" "\<And>q e. sv_locks s q = Some e \<Longrightarrow> q \<noteq> p \<Longrightarrow> sv_locks t q = Some e" "x \<in> set (sv_lock_map s)" "snd x \<noteq> p"
  shows "sv_locks t (snd x) = sv_locks s (snd x)"
proof -
  have "map_of (sv_lock_map s) (fst x) = Some (snd x)" using lock_okD(1)[OF assms(1)] assms(3) by (simp add: um_ok_def)
  then obtain e where "sv_locks s (snd x) = Some e" using lock_okD(6)[OF assms(1)] by blast
  with assms(2,4) show ?thesis by auto
qed

subsubsection \<open>Finding a free id\<close>

lemma find_id_free:
  "find_id used cur loop_flag = (c, Some i) \<Longrightarrow> \<not> used i \<and> 0 < sint i"
proof (induction used cur loop_flag rule: find_id.induct)
  case (1 used cur loop_flag)
  from "1.prems" show ?case
    by (subst (asm) find_id.simps)
      (auto simp: Let_def split: if_splits dest: "1.IH"(1)[OF refl] "1.IH"(2)[OF refl])
qed

lemma find_available_lock_id_spec:
  assumes "find_available_lock_id i s = (s1, r)"
  shows "\<exists>c. s1 = s\<lparr>sv_curr_lock_id := c\<rparr>" "r = Some j \<Longrightarrow> map_of (sv_lock_map s) j = None \<and> 0 < sint j"
proof -
  show "\<exists>c. s1 = s\<lparr>sv_curr_lock_id := c\<rparr>"
    using assms by (auto simp: find_available_lock_id_def split: if_splits prod.splits intro: exI[of _ "sv_curr_lock_id s"])
  show "r = Some j \<Longrightarrow> map_of (sv_lock_map s) j = None \<and> 0 < sint j"
    using assms by (auto simp: find_available_lock_id_def split: if_splits prod.splits dest: find_id_free)
qed

lemma lock_ok_curr [simp]: "lock_ok X (s\<lparr>sv_curr_lock_id := c\<rparr>) = lock_ok X s"
  by (simp add: lock_ok_def)


subsubsection \<open>Creating, linking and releasing\<close>

lemma entry_new_props:
  assumes "lock_entry_s_new i t m = (m', e)"
  shows "es_lock_id e = i" "es_lock_type e = t" "m_is_primary m' = m_is_primary m"
  using assms by (auto simp: lock_entry_s_new_def get_lock_memory_def Let_def split: prod.splits if_splits option.splits)

lemma release_lock_memory_primary [simp]: "m_is_primary (lock_entry_s_delete e m) = m_is_primary m"
  by (simp add: lock_entry_s_delete_def release_lock_memory_def Let_def split: option.splits prod.splits)

lemma lock_ok_fresh: "lock_ok X s \<Longrightarrow> sv_locks s (sv_next_ptr s) = None"
  by (metis lock_okD(9) less_irrefl not_Some_eq)

lemma lock_ok_add:
  assumes ok: "lock_ok X s" and i: "map_of (sv_lock_map s) i = None" and d: "map_of (sv_lock_desc_map s) d = None"
    and new: "lock_entry_s_new i t (sv_lock_memory s) = (mem, e)" and off: "es_lock_offset e \<noteq> UINT_MAX"
  shows "lock_ok (insert (sv_next_ptr s) X) (add_lock i d e (s\<lparr>sv_lock_memory := mem\<rparr>))"
proof -
  let ?p = "sv_next_ptr s" and ?t = "add_lock i d e (s\<lparr>sv_lock_memory := mem\<rparr>)"
  note fresh = lock_ok_fresh[OF ok] and N = entry_new_props[OF new]
  have L: "sv_lock_map ?t = (i, ?p) # sv_lock_map s" using i by (simp add: add_lock_def um_insert_def)
  have "sv_locks ?t (snd x) = sv_locks s (snd x)" if "x \<in> set (sv_lock_map s)" for x
  proof -
    have "map_of (sv_lock_map s) (fst x) = Some (snd x)" using lock_okD(1)[OF ok] that by (simp add: um_ok_def)
    then have "snd x \<noteq> ?p" using lock_okD(6)[OF ok] fresh by fastforce
    then show ?thesis by (simp add: add_lock_def)
  qed
  then have B: "bases ?t = e # bases s" unfolding L by (simp add: add_lock_def)
  have "entry_step (sv_lock_memory s, bases s) (mem, e # bases s)" using new by (auto intro: entry_step.create)
  from entry_step_ok[OF lock_okD(5)[OF ok] this] have H: "heap_ok LOCK_MEMORY_SIZE (sv_lock_memory ?t, bases ?t)"
    unfolding B by (simp add: add_lock_def)
  have U: "um_ok (sv_lock_map ?t)" "sv_lock_num ?t = int (length (sv_lock_map ?t))"
    using lock_okD(1,4)[OF ok] i unfolding L by (auto simp: um_ok_def add_lock_def map_of_eq_None_iff)
  have F: "sv_is_primary ?t" "m_is_primary (sv_lock_memory ?t)" "sv_client_map ?t = sv_client_map s"
    "sv_locks ?t = (sv_locks s)(?p \<mapsto> \<lparr>le_base = e, le_lock_dec = d, le_lease_time_map = []\<rparr>)"
    "map_of (sv_lock_map ?t) = (map_of (sv_lock_map s))(i \<mapsto> ?p)"
    "map_of (sv_lock_desc_map ?t) = (map_of (sv_lock_desc_map s))(d \<mapsto> ?p)" "sv_next_ptr ?t = Suc ?p"
    using lock_okD(2,3)[OF ok] N by (simp_all add: add_lock_def)
  have K: "sv_locks s p = Some f \<Longrightarrow> p \<noteq> ?p \<and> es_lock_id (le_base f) \<noteq> i \<and> le_lock_dec f \<noteq> d" for p f
    using lock_okD(7,8)[OF ok, of p f] fresh i d by auto
  have M: "map_of (sv_lock_map s) j = Some p \<Longrightarrow> p \<noteq> ?p" "map_of (sv_lock_desc_map s) d' = Some p \<Longrightarrow> p \<noteq> ?p" for j d' p
    using lock_okD(6,12)[OF ok] fresh by fastforce+
  show ?thesis
    unfolding lock_ok_def F(3)
  proof (intro conjI allI impI, goal_cases)
    case (4 j p)
    then show ?case using lock_okD(6)[OF ok, of j p] M(1)[of j p] N(1) F(4,5) by (auto split: if_splits)
  next
    case (5 p f)
    then show ?case using lock_okD(7)[OF ok, of p f] K[of p f] N(1) F(4,5) by (auto split: if_splits)
  next
    case (6 p f)
    then show ?case using lock_okD(8)[OF ok, of p f] K[of p f] F(4,6) by (auto split: if_splits)
  next
    case (7 p f)
    then show ?case using lock_okD(9)[OF ok, of p f] F(4,7) by (auto split: if_splits)
  next
    case (8 p f)
    then show ?case using lock_okD(10)[OF ok, of p f] off F(4) by (auto split: if_splits)
  next
    case (9 p f)
    then show ?case using lock_okD(11)[OF ok, of p f] F(4) by (auto split: if_splits)
  next
    case (10 d' p)
    then show ?case using lock_okD(12)[OF ok, of d' p] M(2)[of d' p] F(4,6) by (auto split: if_splits)
  next
    case (11 c ce)
    then show ?case using lock_okD(13)[OF ok] by blast
  next
    case (12 c ce j p)
    then obtain f where f: "sv_locks s p = Some f" "es_lock_id (le_base f) = j" "map_of (le_lease_time_map f) c \<noteq> None"
      using lock_okD(14)[OF ok, of c ce j p] by blast
    moreover have "p \<noteq> ?p" using f fresh by auto
    ultimately show ?case using F(4) by auto
  qed (use U F H in auto)
qed

text \<open>One client leaves a lock; the last one deletes it.\<close>

definition unlease :: "u32 \<Rightarrow> ptr \<Rightarrow> u32 \<Rightarrow> lock_entry \<Rightarrow> dlock_server \<Rightarrow> dlock_server" where
  "unlease i p c e s =
    (let e1 = e\<lparr>le_lease_time_map := um_erase c (le_lease_time_map e)\<rparr> in
     if le_lease_time_map e1 = [] then lock_entry_release i p e1 s else s\<lparr>sv_locks := (sv_locks s)(p \<mapsto> e1)\<rparr>)"

lemma lock_ok_release:
  assumes ok: "lock_ok X s" and p: "sv_locks s p = Some e" and i: "i = es_lock_id (le_base e)"
    and e1: "le_base e1 = le_base e" "le_lock_dec e1 = le_lock_dec e"
    and free: "\<And>c ce. map_of (sv_client_map s) c = Some ce \<Longrightarrow> map_of (ce_lock_map ce) i = None"
  shows "lock_ok X (lock_entry_release i p e1 s)"
proof -
  let ?t = "lock_entry_release i p e1 s"
  have ip: "map_of (sv_lock_map s) i = Some p" using lock_okD(7)[OF ok p] i by simp
  obtain xs ys where S: "sv_lock_map s = xs @ (i, p) # ys" "um_erase i (sv_lock_map s) = xs @ ys"
    using um_split[OF lock_okD(1)[OF ok] ip] by blast
  have m: "map_of (sv_lock_map ?t) = (map_of (sv_lock_map s))(i := None)" by (simp add: lock_entry_release_def)
  have F: "sv_is_primary ?t" "m_is_primary (sv_lock_memory ?t)" "sv_client_map ?t = sv_client_map s" "sv_locks ?t = (sv_locks s)(p := None)"
    "True" "sv_lock_map ?t = xs @ ys" "sv_next_ptr ?t = sv_next_ptr s"
    "map_of (sv_lock_desc_map ?t) = (map_of (sv_lock_desc_map s))(le_lock_dec e := None)"
    using lock_okD(2,3)[OF ok] S e1 by (simp_all add: lock_entry_release_def)
  have E: "sv_locks ?t (snd x) = sv_locks s (snd x)" if "x \<in> set (xs @ ys)" for x
  proof -
    have "x \<in> set (um_erase i (sv_lock_map s))" using that S by simp
    then have x: "x \<in> set (sv_lock_map s)" "fst x \<noteq> i" by (auto simp: um_erase_def)
    then have "map_of (sv_lock_map s) (fst x) = Some (snd x)" using lock_okD(1)[OF ok] by (simp add: um_ok_def)
    with x(2) have "snd x \<noteq> p" using lock_okD(6)[OF ok, of "fst x" "snd x"] p i by auto
    then show ?thesis by (simp add: F)
  qed
  let ?b = "map (\<lambda>x. le_base (the (sv_locks s (snd x))))"
  have B: "bases s = ?b xs @ le_base e # ?b ys" "bases ?t = ?b xs @ ?b ys" using E unfolding F(6) by (simp_all add: S(1) p)
  have "entry_step (sv_lock_memory s, bases s) (lock_entry_s_delete (le_base e) (sv_lock_memory s), bases ?t)"
    unfolding B by (rule entry_step.destroy)
  from entry_step_ok[OF lock_okD(5)[OF ok] this] have H: "heap_ok LOCK_MEMORY_SIZE (sv_lock_memory ?t, bases ?t)"
    using e1 by (simp add: lock_entry_release_def)
  have U: "um_ok (sv_lock_map ?t)" "sv_lock_num ?t = int (length (sv_lock_map ?t))"
    using lock_okD(1,4)[OF ok] S by (auto simp: lock_entry_release_def um_ok_def)
  have K: "sv_locks s q = Some f \<Longrightarrow> q \<noteq> p \<Longrightarrow> es_lock_id (le_base f) \<noteq> i \<and> le_lock_dec f \<noteq> le_lock_dec e" for q f
    using lock_id_inj[OF ok _ p] lock_dec_inj[OF ok _ p] i by blast
  show ?thesis
    unfolding lock_ok_def F(3)
  proof (intro conjI allI impI, goal_cases)
    case (4 j q)
    then show ?case using lock_okD(6)[OF ok, of j q] p i F(4) m by (auto split: if_splits)
  next
    case (5 q f)
    then show ?case using lock_okD(7)[OF ok, of q f] K[of q f] F(4) m by (auto split: if_splits)
  next
    case (6 q f)
    then show ?case using lock_okD(8)[OF ok, of q f] K[of q f] F(4,8) by (auto split: if_splits)
  next
    case (10 d q)
    then show ?case using lock_okD(12)[OF ok, of d q] p F(4,8) by (auto split: if_splits)
  next
    case (12 c ce j q)
    then obtain f where f: "sv_locks s q = Some f" "es_lock_id (le_base f) = j" "map_of (le_lease_time_map f) c \<noteq> None"
      using lock_okD(14)[OF ok, of c ce j q] by blast
    moreover have "q \<noteq> p" using f(1,2) p i free[OF 12(1)] 12(2) by auto
    ultimately show ?case using F(4) by auto
  qed (use lock_okD(9,10,11,13)[OF ok] U F H in \<open>auto split: if_splits\<close>)
qed

lemma lock_ok_upd:
  assumes ok: "lock_ok X s" and p: "sv_locks s p = Some e" and e1: "le_base e1 = le_base e" "le_lock_dec e1 = le_lock_dec e"
    and l: "le_lease_time_map e1 \<noteq> []"
    and h: "\<And>c ce. map_of (sv_client_map s) c = Some ce \<Longrightarrow> map_of (ce_lock_map ce) (es_lock_id (le_base e)) = Some p \<Longrightarrow>
      map_of (le_lease_time_map e1) c \<noteq> None"
    and X: "X - {p} \<subseteq> Y"
  shows "lock_ok Y (s\<lparr>sv_locks := (sv_locks s)(p \<mapsto> e1)\<rparr>)"
proof -
  let ?t = "s\<lparr>sv_locks := (sv_locks s)(p \<mapsto> e1)\<rparr>"
  have B: "bases ?t = bases s" using p e1(1) by (intro map_cong) auto
  show ?thesis
    unfolding lock_ok_def
  proof (intro conjI allI impI, goal_cases)
    case (4 j q)
    then show ?case using lock_okD(6)[OF ok, of j q] p e1 by (auto split: if_splits)
  next
    case (5 q f)
    then show ?case using lock_okD(7)[OF ok, of q] p e1 by (auto split: if_splits)
  next
    case (6 q f)
    then show ?case using lock_okD(8)[OF ok, of q] p e1 by (auto split: if_splits)
  next
    case (7 q f)
    then show ?case using lock_okD(9)[OF ok, of q] p by (auto split: if_splits)
  next
    case (8 q f)
    then show ?case using lock_okD(10)[OF ok, of q] p e1 by (auto split: if_splits)
  next
    case (9 q f)
    then show ?case using lock_okD(11)[OF ok, of q] p l X by (auto split: if_splits)
  next
    case (10 d q)
    then show ?case using lock_okD(12)[OF ok, of d q] p e1 by (auto split: if_splits)
  next
    case (11 c ce)
    then show ?case using lock_okD(13)[OF ok, of c ce] by simp
  next
    case (12 c ce j q)
    then have q: "map_of (sv_client_map s) c = Some ce" "map_of (ce_lock_map ce) j = Some q" by simp_all
    then obtain f where f: "sv_locks s q = Some f" "es_lock_id (le_base f) = j" "map_of (le_lease_time_map f) c \<noteq> None"
      using lock_okD(14)[OF ok] by blast
    show ?case
    proof (cases "q = p")
      case True
      with f p h[OF q(1)] q(2) e1 show ?thesis by auto
    qed (use f in auto)
  next
    case 14
    show ?case unfolding B using lock_okD(5)[OF ok] by simp
  qed (use lock_okD(1-4)[OF ok] in simp_all)
qed

lemma lock_ok_unlease:
  assumes ok: "lock_ok X s" and p: "sv_locks s p = Some e" and i: "i = es_lock_id (le_base e)"
    and c: "\<And>ce. map_of (sv_client_map s) c = Some ce \<Longrightarrow> map_of (ce_lock_map ce) i = None"
  shows "lock_ok X (unlease i p c e s)"
proof -
  have holder: "map_of (um_erase c (le_lease_time_map e)) c' \<noteq> None"
    if "map_of (sv_client_map s) c' = Some ce" "map_of (ce_lock_map ce) i = Some p" for c' ce
    using lock_okD(14)[OF ok that] p c[of ce] that by (cases "c' = c") auto
  have point: "map_of (ce_lock_map ce) i = Some q \<Longrightarrow> map_of (sv_client_map s) c' = Some ce \<Longrightarrow> q = p" for c' ce q
    using lock_okD(14)[OF ok] lock_id_inj[OF ok _ p] i by blast
  show ?thesis
  proof (cases "um_erase c (le_lease_time_map e) = []")
    case True
    have "map_of (ce_lock_map ce) i = None" if "map_of (sv_client_map s) c' = Some ce" for c' ce
      using holder[OF that] point[OF _ that] True by (cases "map_of (ce_lock_map ce) i") auto
    with True lock_ok_release[OF ok p i] show ?thesis by (simp add: unlease_def)
  next
    case False
    then show ?thesis using holder i by (auto simp: unlease_def intro!: lock_ok_upd[OF ok p])
  qed
qed

lemma lock_same_drop: "lock_ok X s \<Longrightarrow> lock_same s (drop_client_lock c i s)"
  using lock_okD(13)[of X s]
  by (auto simp: lock_same_def clients_le_def drop_client_lock_def upd_client_def fun_upd_apply split: if_splits)

lemma drop_unlease: "drop_client_lock c i (unlease j p c e s) = unlease j p c e (drop_client_lock c i s)"
  by (simp add: drop_client_lock_def unlease_def upd_client_def lock_entry_release_def Let_def)

text \<open>The body that \<open>release_lock_do\<close> and \<open>batch_release_lock_do\<close> share.\<close>

lemma release_ok:
  assumes ok: "lock_ok X s" and c: "map_of (sv_client_map s) c = Some ce" and i: "map_of (ce_lock_map ce) i = Some p"
  obtains e where "sv_locks s p = Some e" "release_lock_map_entry i p c s = Some (unlease i p c e s)"
    "lock_ok X (drop_client_lock c i (unlease i p c e s))"
proof -
  obtain e where e: "sv_locks s p = Some e" "es_lock_id (le_base e) = i" using lock_okD(14)[OF ok c i] by blast
  have "lock_ok X (unlease i p c e (drop_client_lock c i s))"
    by (rule lock_ok_unlease[OF lock_ok_same[OF ok lock_same_drop[OF ok]]])
      (use e in \<open>auto simp: drop_client_lock_def upd_client_def\<close>)
  then have "lock_ok X (drop_client_lock c i (unlease i p c e s))" by (simp only: drop_unlease)
  moreover have "release_lock_map_entry i p c s = Some (unlease i p c e s)"
    using e by (simp add: release_lock_map_entry_def unlease_def Let_def)
  ultimately show thesis using that e(1) by blast
qed

lemma link_ok:
  assumes ok: "lock_ok (insert p X) s" and c: "map_of (sv_client_map s) c = Some ce"
    and p: "sv_locks s p = Some e" "es_lock_id (le_base e) = i"
  shows "lock_ok X (if map_of (ce_lock_map ce) i \<noteq> None then s else link_lock c i p lease s)"
proof (cases "map_of (ce_lock_map ce) i")
  case (Some q)
  with lock_okD(14)[OF ok c Some] lock_id_inj[OF ok _ p(1)] p have "q = p" "le_lease_time_map e \<noteq> []" by force+
  with lock_ok_shrink[OF ok] p(1) Some show ?thesis by auto
next
  case None
  let ?e1 = "e\<lparr>le_lease_time_map := um_insert c lease (le_lease_time_map e)\<rparr>"
  let ?u = "s\<lparr>sv_locks := (sv_locks s)(p \<mapsto> ?e1)\<rparr>"
  have u: "lock_ok X ?u"
  proof (rule lock_ok_upd[OF ok p(1)])
    show "map_of (le_lease_time_map ?e1) d \<noteq> None"
      if "map_of (sv_client_map s) d = Some cx" "map_of (ce_lock_map cx) (es_lock_id (le_base e)) = Some p" for d cx
      using lock_okD(14)[OF ok that] p(1) by auto
  qed (auto simp: um_insert_def)
  have t: "link_lock c i p lease s = upd_client c (\<lambda>e. e\<lparr>ce_lock_map := um_insert i p (ce_lock_map e)\<rparr>) ?u"
    using p by (simp add: link_lock_def upd_client_def)
  let ?t = "upd_client c (\<lambda>e. e\<lparr>ce_lock_map := um_insert i p (ce_lock_map e)\<rparr>) ?u"
  have F: "sv_locks ?t = sv_locks ?u" "sv_lock_map ?t = sv_lock_map ?u" "sv_lock_desc_map ?t = sv_lock_desc_map ?u"
    "sv_lock_memory ?t = sv_lock_memory ?u" "sv_is_primary ?t = sv_is_primary ?u" "sv_next_ptr ?t = sv_next_ptr ?u"
    "sv_lock_num ?t = sv_lock_num ?u" by (simp_all add: upd_client_def)
  have "um_ok (ce_lock_map cx) \<and> (\<forall>j q. map_of (ce_lock_map cx) j = Some q \<longrightarrow>
      (\<exists>e. sv_locks ?t q = Some e \<and> es_lock_id (le_base e) = j \<and> map_of (le_lease_time_map e) d \<noteq> None))"
    if "map_of (sv_client_map ?t) d = Some cx" for d cx
  proof (cases "d = c")
    case True
    with that c have cx: "cx = ce\<lparr>ce_lock_map := um_insert i p (ce_lock_map ce)\<rparr>" by (simp add: upd_client_def)
    have "map_of (sv_client_map ?u) c = Some ce" using c by simp
    with lock_okD(13,14)[OF u this] True cx p show ?thesis by (auto simp: F fun_upd_apply)
  next
    case False
    with that have "map_of (sv_client_map ?u) d = Some cx" by (simp add: upd_client_def)
    with lock_okD(13,14)[OF u this] show ?thesis unfolding F by blast
  qed
  then have "lock_ok X ?t" using u unfolding lock_ok_def F by blast
  with None t show ?thesis by simp
qed

text \<open>What creating or finding a lock entry leaves for the caller to link.\<close>

definition lock_found :: "ptr set \<Rightarrow> dlock_server \<Rightarrow> dlock_server \<Rightarrow> u32 \<Rightarrow> ptr option \<Rightarrow> bool" where
  "lock_found X s s1 i r \<longleftrightarrow> sv_client_map s1 = sv_client_map s \<and>
     (case r of None \<Rightarrow> lock_ok X s1
      | Some p \<Rightarrow> lock_ok (insert p X) s1 \<and> (\<exists>e. sv_locks s1 p = Some e \<and> es_lock_id (le_base e) = i))"

lemma new_lock_found:
  assumes ok: "lock_ok X s" and d: "map_of (sv_lock_desc_map s) d = None"
    and f: "find_available_lock_id i s = (s1, Some j)" and n: "lock_entry_s_new j t (sv_lock_memory s1) = (mem, e)"
  shows "if es_lock_offset e = UINT_MAX then lock_found X s (s1\<lparr>sv_lock_memory := lock_entry_s_delete e mem\<rparr>) k None
    else lock_found X s (add_lock j d e (s1\<lparr>sv_lock_memory := mem\<rparr>)) j (Some (sv_next_ptr s1))"
proof -
  obtain c where s1: "s1 = s\<lparr>sv_curr_lock_id := c\<rparr>" using find_available_lock_id_spec(1)[OF f] by blast
  have j: "map_of (sv_lock_map s1) j = None" "map_of (sv_lock_desc_map s1) d = None"
    using find_available_lock_id_spec(2)[OF f refl] d s1 by simp_all
  have ok1: "lock_ok X s1" using ok s1 by simp
  show ?thesis
  proof (cases "es_lock_offset e = UINT_MAX")
    case True
    have "lm_ok LOCK_MEMORY_SIZE (sv_lock_memory s1)" using lock_okD(5)[OF ok1] by (simp add: heap_ok_def)
    moreover have "get_lock_memory t (sv_lock_memory s1) = (mem, UINT_MAX)"
      using n True by (auto simp: lock_entry_s_new_def split: prod.splits)
    ultimately have "mem = sv_lock_memory s1" using get_lock_memory_fail by blast
    with True ok1 s1 show ?thesis by (simp add: lock_found_def lock_entry_s_delete_def)
  next
    case False
    with lock_ok_add[OF ok1 j n False] entry_new_props(1)[OF n] show ?thesis
      by (simp add: lock_found_def add_lock_def) (simp add: s1)
  qed
qed

lemma old_lock_found:
  assumes "lock_ok X s" "map_of (sv_lock_desc_map s) d = Some p"
  obtains e where "sv_locks s p = Some e" "lock_found X s s (es_lock_id (le_base e)) (Some p)" "lock_ok X s"
proof -
  from lock_okD(12)[OF assms] obtain e where e: "sv_locks s p = Some e" by blast
  with lock_ok_mono[OF assms(1), of "insert p X"] assms(1) show thesis by (intro that[of e]) (auto simp: lock_found_def)
qed

lemma no_lock_found: "lock_ok X s \<Longrightarrow> find_available_lock_id i s = (s1, r) \<Longrightarrow> lock_found X s s1 j None"
  using find_available_lock_id_spec(1)[of i s s1 r] by (auto simp: lock_found_def)

lemma get_lock_by_msg_ok:
  assumes ok: "lock_ok X s"
  obtains s1 g1 r where "get_lock_by_msg me g s = Some (s1, g1, r)" "lock_found X s s1 (gl_lock_id g1) r"
proof -
  have same: "lock_found X s s i None" for i using ok by (simp add: lock_found_def)
  have "\<exists>s1 g1 r. get_lock_by_msg me g s = Some (s1, g1, r) \<and> lock_found X s s1 (gl_lock_id g1) r"
  proof (cases "lock_type_of_u32 (gl_lock_type g)")
    case t: (Some t)
    show ?thesis
    proof (cases "new_desc me \<and> (\<exists>d. descriptor_init me (gl_desc_len g) (gl_desc g) = Inr d)")
      case True
      then obtain d where d: "new_desc me" "descriptor_init me (gl_desc_len g) (gl_desc g) = Inr d" by blast
      show ?thesis
      proof (cases "map_of (sv_lock_desc_map s) d")
        case None
        obtain s1 f where f: "find_available_lock_id (gl_lock_id g) s = (s1, f)" by fastforce
        show ?thesis
        proof (cases f)
          case j: (Some j)
          obtain mem e where n: "lock_entry_s_new j t (sv_lock_memory s1) = (mem, e)" by fastforce
          from new_lock_found[OF ok None _ n] f j no_lock_found[OF ok f] same show ?thesis
            using t d None n lock_okD(2)[OF ok] by (auto simp: get_lock_by_msg_def Let_def split: if_splits)
        qed (use no_lock_found[OF ok f] t d None f lock_okD(2)[OF ok] same in \<open>auto simp: get_lock_by_msg_def Let_def\<close>)
      next
        case (Some p)
        obtain e where "sv_locks s p = Some e" "lock_found X s s (es_lock_id (le_base e)) (Some p)"
          using old_lock_found[OF ok Some] by metis
        with Some t d same show ?thesis by (auto simp: get_lock_by_msg_def Let_def)
      qed
    qed (use t same in \<open>auto simp: get_lock_by_msg_def Let_def split: sum.splits\<close>)
  qed (use same in \<open>simp add: get_lock_by_msg_def\<close>)
  then show thesis using that by blast
qed


lemma sync_lock_state_same [simp]:
  "m_free_memory_map (sync_lock_state t off v m) = m_free_memory_map m"
  "m_is_primary (sync_lock_state t off v m) = m_is_primary m"
  by (simp_all add: sync_lock_state_def split: option.splits dlock_type.splits)

lemma lock_same_mem:
  assumes "m_free_memory_map m = m_free_memory_map (sv_lock_memory s)" "m_is_primary m = m_is_primary (sv_lock_memory s)"
  shows "lock_same s (s\<lparr>sv_lock_memory := m\<rparr>)"
  using assms by (simp add: lock_same_def clients_le_same)

lemma lock_found_same:
  assumes "lock_found X s s1 i r" "lock_same s1 s2" "sv_client_map s2 = sv_client_map s1"
  shows "lock_found X s s2 i r"
  using assms lock_ok_same[OF _ assms(2)] by (auto simp: lock_found_def lock_same_def split: option.splits)

lemma update_lock_by_msg_ok:
  assumes ok: "lock_ok X s"
  obtains s1 g1 r where "update_lock_by_msg me g s = Some (s1, g1, r)" "lock_found X s s1 (ul_lock_id g1) r"
proof -
  have same: "lock_found X s s i None" for i using ok by (simp add: lock_found_def)
  have sync: "lock_found X s s1 i r \<Longrightarrow>
    lock_found X s (s1\<lparr>sv_lock_memory := sync_lock_state t off v (sv_lock_memory s1)\<rparr>) i r" for s1 i r t off v
    by (erule lock_found_same) (simp_all add: lock_same_mem)
  have "\<exists>s1 g1 r. update_lock_by_msg me g s = Some (s1, g1, r) \<and> lock_found X s s1 (ul_lock_id g1) r"
  proof (cases "lock_type_of_u32 (ul_lock_type g)")
    case t: (Some t)
    show ?thesis
    proof (cases "new_desc me \<and> (\<exists>d. descriptor_init me (of_nat (ul_desc_len g)) (ul_desc g) = Inr d)")
      case True
      then obtain d where d: "new_desc me" "descriptor_init me (of_nat (ul_desc_len g)) (ul_desc g) = Inr d" by blast
      show ?thesis
      proof (cases "map_of (sv_lock_desc_map s) d")
        case None
        obtain s1 f where f: "find_available_lock_id (ul_lock_id g) s = (s1, f)" by fastforce
        show ?thesis
        proof (cases f)
          case j: (Some j)
          obtain mem e where n: "lock_entry_s_new j t (sv_lock_memory s1) = (mem, e)" by fastforce
          from new_lock_found[OF ok None _ n] f j no_lock_found[OF ok f] same show ?thesis
            using t d None n by (auto simp: update_lock_by_msg_def Let_def split: if_splits intro: sync)
        qed (use no_lock_found[OF ok f] t d None f same in \<open>auto simp: update_lock_by_msg_def Let_def\<close>)
      next
        case (Some p)
        obtain e where "sv_locks s p = Some e" "lock_found X s s (es_lock_id (le_base e)) (Some p)"
          using old_lock_found[OF ok Some] by metis
        with Some t d show ?thesis by (auto simp: update_lock_by_msg_def Let_def intro: sync)
      qed
    qed (use t same in \<open>auto simp: update_lock_by_msg_def Let_def split: sum.splits\<close>)
  qed (use same in \<open>simp add: update_lock_by_msg_def\<close>)
  then show thesis using that by blast
qed

lemma found_link_ok:
  assumes "lock_found X s s1 i r" "map_of (sv_client_map s) c = Some ce"
  shows "lock_ok X (case r of None \<Rightarrow> s1 | Some p \<Rightarrow>
      if map_of (ce_lock_map ce) i \<noteq> None then s1 else link_lock c i p lease s1)"
proof (cases r)
  case (Some p)
  with assms obtain e where "lock_ok (insert p X) s1" "sv_locks s1 p = Some e" "es_lock_id (le_base e) = i"
    by (auto simp: lock_found_def)
  from link_ok[OF this(1) _ this(2,3), of c ce lease] assms Some show ?thesis by (simp add: lock_found_def)
qed (use assms in \<open>simp add: lock_found_def\<close>)

lemma batch_get_loop_ok:
  assumes "lock_ok X s" "map_of (sv_client_map s) c = Some ce"
  obtains s1 b1 ok where "batch_get_loop E c len n i off b s = Some (s1, b1, ok)" "lock_ok X s1" "map_of (sv_client_map s1) c \<noteq> None"
  using assms
proof (induction n arbitrary: i off b s ce thesis)
  case (Suc n)
  let ?g = "get_lock_body_at b off"
  obtain s1 g1 r where g: "get_lock_by_msg (e_mem E i) ?g s = Some (s1, g1, r)" "lock_found X s s1 (gl_lock_id g1) r"
    using get_lock_by_msg_ok[OF Suc.prems(2)] by blast
  have c1: "map_of (sv_client_map s1) c = Some ce" using g(2) Suc.prems(3) by (simp add: lock_found_def)
  let ?s2 = "case r of None \<Rightarrow> s1 | Some p \<Rightarrow> if map_of (ce_lock_map ce) (gl_lock_id g1) \<noteq> None then s1
    else link_lock c (gl_lock_id g1) p (gl_lease_time g1) s1"
  have ok2: "lock_ok X ?s2" by (rule found_link_ok[OF g(2) Suc.prems(3)])
  have "map_of (sv_client_map ?s2) c \<noteq> None" using c1 by (auto simp: link_lock_def upd_client_def split: option.splits)
  then obtain ce2 where c2: "map_of (sv_client_map ?s2) c = Some ce2" by blast
  show ?case
  proof (cases "off + DLOCK_GET_LOCK_BODY_LEN + unat (gl_desc_len ?g) > len")
    case True
    show ?thesis by (rule Suc.prems(1)[of s b False]) (use True Suc.prems(2,3) in \<open>simp_all add: Let_def\<close>)
  next
    case False
    let ?off = "off + DLOCK_GET_LOCK_BODY_LEN + unat (gl_desc_len ?g)" and ?b = "put_get_lock_body b off g1"
    have "batch_get_loop E c len (Suc n) i off b s = batch_get_loop E c len n (i + 1) ?off ?b ?s2"
      using False g(1) c1 by (cases r) (simp_all add: Let_def)
    moreover obtain t b1 ok where "batch_get_loop E c len n (i + 1) ?off ?b ?s2 = Some (t, b1, ok)" "lock_ok X t"
        "map_of (sv_client_map t) c \<noteq> None"
      by (rule Suc.IH[OF _ ok2 c2])
    ultimately show ?thesis using Suc.prems(1) by simp
  qed
qed simp

lemma batch_update_loop_ok:
  assumes "lock_ok X s" "map_of (sv_client_map s) c = Some ce"
  obtains s1 b1 where "batch_update_loop E c len n i off b s = Some (s1, b1)" "lock_ok X s1" "map_of (sv_client_map s1) c \<noteq> None"
  using assms
proof (induction n arbitrary: i off b s ce thesis)
  case (Suc n)
  let ?g = "update_lock_body_at b off" and ?f = "\<lambda>e. e\<lparr>ce_client_lock_updated := True\<rparr>"
  obtain s1 g1 r where g: "update_lock_by_msg (e_mem E i) ?g s = Some (s1, g1, r)" "lock_found X s s1 (ul_lock_id g1) r"
    using update_lock_by_msg_ok[OF Suc.prems(2)] by blast
  have c1: "map_of (sv_client_map s1) c = Some ce" using g(2) Suc.prems(3) by (simp add: lock_found_def)
  let ?s2 = "case r of None \<Rightarrow> s1 | Some p \<Rightarrow> if map_of (ce_lock_map ce) (ul_lock_id g1) \<noteq> None then s1
    else upd_client c ?f (link_lock c (ul_lock_id g1) p (ul_lease_time g1) s1)"
  have u: "lock_same t (upd_client c ?f t)" for t
    by (rule lock_same_upd_client) simp
  have ok2: "lock_ok X ?s2" using found_link_ok[OF g(2) Suc.prems(3), of "ul_lease_time g1"] lock_ok_same[OF _ u]
    by (auto split: option.splits if_splits)
  have "map_of (sv_client_map ?s2) c \<noteq> None" using c1 by (auto simp: link_lock_def upd_client_def split: option.splits)
  then obtain ce2 where c2: "map_of (sv_client_map ?s2) c = Some ce2" by blast
  show ?case
  proof (cases "off + DLOCK_UPDATE_LOCK_BODY_LEN + ul_desc_len ?g > len")
    case True
    show ?thesis by (rule Suc.prems(1)[of s b]) (use True Suc.prems(2,3) in \<open>simp_all add: Let_def\<close>)
  next
    case False
    let ?off = "off + DLOCK_UPDATE_LOCK_BODY_LEN + ul_desc_len ?g" and ?b = "put_update_lock_body b off g1"
    have "batch_update_loop E c len (Suc n) i off b s = batch_update_loop E c len n (i + 1) ?off ?b ?s2"
      using False g(1) c1 by (cases r) (simp_all add: Let_def)
    moreover obtain t b1 where "batch_update_loop E c len n (i + 1) ?off ?b ?s2 = Some (t, b1)" "lock_ok X t"
        "map_of (sv_client_map t) c \<noteq> None"
      by (rule Suc.IH[OF _ ok2 c2])
    ultimately show ?thesis using Suc.prems(1) by simp
  qed
qed simp

lemma client_after_release: "map_of (sv_client_map (drop_client_lock c i (unlease j p d e s))) c' = None \<longleftrightarrow> map_of (sv_client_map s) c' = None"
  by (simp add: drop_client_lock_def upd_client_def unlease_def lock_entry_release_def Let_def)

lemma batch_release_loop_ok:
  assumes "lock_ok X s"
  obtains s1 where "batch_release_loop c n off b s = Some s1" "lock_ok X s1"
  using assms
proof (induction n arbitrary: off s thesis)
  case (Suc n)
  show ?case
  proof (cases "Option.bind (map_of (sv_client_map s) c) (\<lambda>ce. map_of (ce_lock_map ce) (load32 b off))")
    case None
    with Suc.IH[OF Suc.prems] show ?thesis by (simp add: Let_def)
  next
    case (Some p)
    then obtain ce where c: "map_of (sv_client_map s) c = Some ce" "map_of (ce_lock_map ce) (load32 b off) = Some p"
      by (auto simp: bind_eq_Some_conv)
    obtain e where e: "release_lock_map_entry (load32 b off) p c s = Some (unlease (load32 b off) p c e s)"
      "lock_ok X (drop_client_lock c (load32 b off) (unlease (load32 b off) p c e s))"
      using release_ok[OF Suc.prems(2) c] by metis
    have "batch_release_loop c (Suc n) off b s = batch_release_loop c n (off + DLOCK_RELEASE_LOCK_BODY_LEN) b
        (drop_client_lock c (load32 b off) (unlease (load32 b off) p c e s))"
      using Some e(1) by (simp add: Let_def)
    moreover obtain t where "batch_release_loop c n (off + DLOCK_RELEASE_LOCK_BODY_LEN) b
        (drop_client_lock c (load32 b off) (unlease (load32 b off) p c e s)) = Some t" "lock_ok X t"
      by (rule Suc.IH[OF _ e(2)])
    ultimately show ?thesis using Suc.prems(1) by simp
  qed
qed simp

lemma um_erase_update [simp]: "um_erase k (um_update k f m) = um_erase k m"
  by (induction m) (auto simp: um_erase_def um_update_def)

lemma erase_drop: "erase_client c (drop_client_lock c i s) = erase_client c s"
  by (simp add: erase_client_def drop_client_lock_def upd_client_def)

lemma erase_unlease: "erase_client c (unlease i p d e s) = unlease i p d e (erase_client c s)"
  by (simp add: erase_client_def unlease_def lock_entry_release_def Let_def)

lemma clear_lock_ok:
  assumes "lock_ok X (erase_client c s)" "um_ok xs"
    and "\<And>i p. (i, p) \<in> set xs \<Longrightarrow> \<exists>e. sv_locks s p = Some e \<and> es_lock_id (le_base e) = i"
  obtains s1 where "clear_lock_client_relation c xs s = Some s1" "lock_ok X (erase_client c s1)"
  using assms
proof (induction xs arbitrary: s thesis)
  case (Cons x xs)
  obtain i p where x: "x = (i, p)" by fastforce
  obtain e where e: "sv_locks s p = Some e" "es_lock_id (le_base e) = i" using Cons.prems(4)[of i p] x by auto
  let ?t = "if um_erase c (le_lease_time_map e) = [] then drop_client_lock c i (unlease i p c e s) else unlease i p c e s"
  have ok: "lock_ok X (erase_client c ?t)"
    using lock_ok_unlease[OF Cons.prems(2), of p e i c] e
    by (simp add: erase_drop erase_unlease) (simp add: erase_client_def)
  have "\<exists>f. sv_locks ?t q = Some f \<and> es_lock_id (le_base f) = j" if "(j, q) \<in> set xs" for j q
  proof -
    from that Cons.prems(4)[of j q] obtain f where f: "sv_locks s q = Some f" "es_lock_id (le_base f) = j" by auto
    have "j \<noteq> i" using that Cons.prems(3) by (force simp: x um_ok_def)
    then have "q \<noteq> p" using f e by auto
    with f show ?thesis by (simp add: unlease_def drop_client_lock_def upd_client_def lock_entry_release_def Let_def)
  qed
  moreover have "um_ok xs" using Cons.prems(3) by (simp add: um_ok_def)
  ultimately obtain s1 where "clear_lock_client_relation c xs ?t = Some s1" "lock_ok X (erase_client c s1)"
    using Cons.IH[OF _ ok] by metis
  moreover have "clear_lock_client_relation c (x # xs) s = clear_lock_client_relation c xs ?t"
    using e by (cases "um_erase c (le_lease_time_map e) = []") (simp_all add: x unlease_def Let_def)
  ultimately show ?case using Cons.prems(1)[of s1] by simp
qed simp


subsection \<open>Objects\<close>

text \<open>The free list of the object memory as a list of cells.\<close>

fun free_chain :: "(nat \<Rightarrow> nat) \<Rightarrow> nat \<Rightarrow> nat list \<Rightarrow> bool" where
  "free_chain nxt a [] \<longleftrightarrow> a = NO_OBJECT"
| "free_chain nxt a (x # xs) \<longleftrightarrow> a = x \<and> free_chain nxt (nxt x) xs"

definition cells :: "dlock_server \<Rightarrow> nat set" where
  "cells s = {k. \<exists>p e. sv_objects s p = Some e \<and> oe_offset e = k * 8}"

definition memory_ok :: "dlock_server \<Rightarrow> bool" where
  "memory_ok s \<longleftrightarrow> (\<exists>xs. free_chain (om_ctrl (sv_object_memory s)) (om_next_free (sv_object_memory s)) xs \<and> distinct xs \<and>
     set xs \<inter> cells s = {} \<and> set xs \<union> cells s = {0 ..< om_total (sv_object_memory s)}) \<and>
     om_total (sv_object_memory s) = OBJECT_MAX_NUMBER \<and>
     (\<forall>p e. sv_objects s p = Some e \<longrightarrow> 8 dvd oe_offset e) \<and>
     (\<forall>p e q f. sv_objects s p = Some e \<longrightarrow> sv_objects s q = Some f \<longrightarrow> oe_offset e = oe_offset f \<longrightarrow> p = q)"

definition holders :: "dlock_server \<Rightarrow> u32 \<Rightarrow> u32 set" where
  "holders s i = {c. \<exists>ce. map_of (sv_client_map s) c = Some ce \<and> map_of (ce_object_map ce) i \<noteq> None}"

definition object_ok :: "dlock_server \<Rightarrow> bool" where
  "object_ok s \<longleftrightarrow> um_ok (sv_object_map s) \<and> sv_is_primary s \<and>
     (\<forall>i p. map_of (sv_object_map s) i = Some p \<longrightarrow> (\<exists>e. sv_objects s p = Some e \<and> oe_id e = i)) \<and>
     (\<forall>p e. sv_objects s p = Some e \<longrightarrow> map_of (sv_object_map s) (oe_id e) = Some p \<and>
        map_of (sv_object_desc_map s) (oe_desc e) = Some p \<and> p < sv_next_ptr s \<and> int (card (holders s (oe_id e))) \<le> oe_refcnt e) \<and>
     (\<forall>d p. map_of (sv_object_desc_map s) d = Some p \<longrightarrow> (\<exists>e. sv_objects s p = Some e \<and> oe_desc e = d)) \<and>
     (\<forall>c ce. map_of (sv_client_map s) c = Some ce \<longrightarrow> um_ok (ce_object_map ce) \<and>
        (\<forall>i p. map_of (ce_object_map ce) i = Some p \<longrightarrow> map_of (sv_object_map s) i = Some p)) \<and>
     sv_curr_object_num s = int (length (sv_object_map s)) \<and> memory_ok s"

lemma object_okD:
  assumes "object_ok s"
  shows "um_ok (sv_object_map s)" "sv_is_primary s" "sv_curr_object_num s = int (length (sv_object_map s))" "memory_ok s"
    and "map_of (sv_object_map s) i = Some p \<Longrightarrow> \<exists>e. sv_objects s p = Some e \<and> oe_id e = i"
    and "sv_objects s p = Some e \<Longrightarrow> map_of (sv_object_map s) (oe_id e) = Some p"
    and "sv_objects s p = Some e \<Longrightarrow> map_of (sv_object_desc_map s) (oe_desc e) = Some p"
    and "sv_objects s p = Some e \<Longrightarrow> p < sv_next_ptr s"
    and "sv_objects s p = Some e \<Longrightarrow> int (card (holders s (oe_id e))) \<le> oe_refcnt e"
    and "map_of (sv_object_desc_map s) d = Some p \<Longrightarrow> \<exists>e. sv_objects s p = Some e \<and> oe_desc e = d"
    and "map_of (sv_client_map s) c = Some ce \<Longrightarrow> um_ok (ce_object_map ce)"
    and "map_of (sv_client_map s) c = Some ce \<Longrightarrow> map_of (ce_object_map ce) i = Some p \<Longrightarrow> map_of (sv_object_map s) i = Some p"
  using assms unfolding object_ok_def by blast+

lemma finite_holders [simp]: "finite (holders s i)"
  by (rule finite_subset[of _ "dom (map_of (sv_client_map s))"]) (auto simp: holders_def finite_dom_map_of)

definition object_same :: "dlock_server \<Rightarrow> dlock_server \<Rightarrow> bool" where
  "object_same s t \<longleftrightarrow> sv_object_map t = sv_object_map s \<and> sv_object_desc_map t = sv_object_desc_map s \<and>
     sv_objects t = sv_objects s \<and> sv_is_primary t = sv_is_primary s \<and> sv_curr_object_num t = sv_curr_object_num s \<and>
     sv_object_memory t = sv_object_memory s \<and> sv_next_ptr s \<le> sv_next_ptr t \<and> clients_le ce_object_map s t"

lemma object_same_refl [simp]: "object_same s s"
  by (simp add: object_same_def)

lemma object_same_trans: "object_same s t \<Longrightarrow> object_same t u \<Longrightarrow> object_same s u"
  unfolding object_same_def using clients_le_trans by auto

lemma object_same_upd_client: "(\<And>ce. ce_object_map (g ce) = ce_object_map ce) \<Longrightarrow> object_same s (upd_client c g s)"
  using clients_le_upd[of ce_object_map g "upd_client c g s" c s] by (simp add: object_same_def upd_client_def)

lemma holders_le: "clients_le ce_object_map s t \<Longrightarrow> holders t i \<subseteq> holders s i"
  unfolding clients_le_def holders_def by blast

lemma clients_le_objects:
  assumes "object_ok s" "clients_le ce_object_map s t" "map_of (sv_client_map t) c = Some ce"
  shows "um_ok (ce_object_map ce)" "map_of (ce_object_map ce) i = Some p \<Longrightarrow> map_of (sv_object_map s) i = Some p"
  using assms object_okD(11,12)[OF assms(1)] unfolding clients_le_def by metis+

lemma object_ok_same:
  assumes ok: "object_ok s" and st: "object_same s t"
  shows "object_ok t"
proof -
  have cl: "clients_le ce_object_map s t" and F: "sv_object_map t = sv_object_map s" "sv_object_desc_map t = sv_object_desc_map s"
    "sv_objects t = sv_objects s" "sv_is_primary t = sv_is_primary s" "sv_curr_object_num t = sv_curr_object_num s"
    "sv_object_memory t = sv_object_memory s" "sv_next_ptr s \<le> sv_next_ptr t"
    using st by (auto simp: object_same_def)
  have "card (holders t i) \<le> card (holders s i)" for i using holders_le[OF cl] by (simp add: card_mono)
  then have "sv_objects s p = Some e \<Longrightarrow> int (card (holders t (oe_id e))) \<le> oe_refcnt e" for p e
    using object_okD(9)[OF ok] by (meson of_nat_mono order_trans)
  moreover have "sv_objects s p = Some e \<Longrightarrow> p < sv_next_ptr t" for p e using object_okD(8)[OF ok] F(7) by (meson less_le_trans)
  moreover have "memory_ok t = memory_ok s" by (simp add: memory_ok_def cells_def F)
  ultimately show ?thesis
    unfolding object_ok_def F using object_okD(1-7,10)[OF ok] clients_le_objects[OF ok cl] by blast
qed

lemma object_inj:
  assumes "object_ok s" "sv_objects s p = Some e" "sv_objects s q = Some f"
  shows "oe_id e = oe_id f \<Longrightarrow> p = q" "oe_desc e = oe_desc f \<Longrightarrow> p = q"
  using object_okD(6,7)[OF assms(1)] assms(2,3) by (metis option.inject)+

lemma client_object:
  assumes "object_ok s" "map_of (sv_client_map s) c = Some ce" "map_of (ce_object_map ce) i = Some p"
  obtains e where "sv_objects s p = Some e" "oe_id e = i"
  using object_okD(5)[OF assms(1) object_okD(12)[OF assms]] by blast

text \<open>Changing an entry and the clients' maps together.\<close>

lemma object_ok_upd:
  assumes ok: "object_ok s" and p: "sv_objects s p = Some e"
    and e1: "oe_id e1 = oe_id e" "oe_desc e1 = oe_desc e" "oe_offset e1 = oe_offset e"
    and cl: "\<And>c ce. map_of (sv_client_map t) c = Some ce \<Longrightarrow> um_ok (ce_object_map ce) \<and>
        (\<forall>i q. map_of (ce_object_map ce) i = Some q \<longrightarrow> map_of (sv_object_map s) i = Some q)"
    and h: "int (card (holders t (oe_id e))) \<le> oe_refcnt e1"
    and hs: "\<And>j. j \<noteq> oe_id e \<Longrightarrow> holders t j \<subseteq> holders s j"
    and t: "sv_objects t = (sv_objects s)(p \<mapsto> e1)" "sv_object_map t = sv_object_map s"
      "sv_object_desc_map t = sv_object_desc_map s" "sv_is_primary t = sv_is_primary s"
      "sv_curr_object_num t = sv_curr_object_num s" "sv_object_memory t = sv_object_memory s" "sv_next_ptr t = sv_next_ptr s"
  shows "object_ok t"
proof -
  have off: "sv_objects t q = Some f \<Longrightarrow> \<exists>f'. sv_objects s q = Some f' \<and> oe_offset f' = oe_offset f"
    "sv_objects s q = Some f \<Longrightarrow> \<exists>f'. sv_objects t q = Some f' \<and> oe_offset f' = oe_offset f" for q f
    using p e1(3) by (auto simp: t fun_upd_apply split: if_splits)
  have cells: "cells t = cells s" unfolding cells_def by (intro Collect_cong) (metis off)
  have mem: "memory_ok t"
    using object_okD(4)[OF ok] unfolding memory_ok_def cells t(6) by (metis off)
  have hc: "sv_objects s q = Some f \<Longrightarrow> q \<noteq> p \<Longrightarrow> int (card (holders t (oe_id f))) \<le> oe_refcnt f" for q f
  proof -
    assume f: "sv_objects s q = Some f" "q \<noteq> p"
    then have "oe_id f \<noteq> oe_id e" using object_inj(1)[OF ok f(1) p] by blast
    then have "card (holders t (oe_id f)) \<le> card (holders s (oe_id f))" using hs by (simp add: card_mono)
    with object_okD(9)[OF ok f(1)] show ?thesis by linarith
  qed
  show ?thesis
    unfolding object_ok_def t(2-5,7)
  proof (intro conjI allI impI, goal_cases)
    case (3 i q)
    then show ?case using object_okD(5)[OF ok, of i q] p e1 t(1) by (auto split: if_splits)
  next
    case (4 q f)
    then show ?case using object_okD(6)[OF ok, of q] p e1 t(1) by (auto split: if_splits)
  next
    case (5 q f)
    then show ?case using object_okD(7)[OF ok, of q] p e1 t(1) by (auto split: if_splits)
  next
    case (6 q f)
    then show ?case using object_okD(8)[OF ok, of q] p t(1) by (auto split: if_splits)
  next
    case (7 q f)
    then show ?case using hc[of q f] h e1 t(1) by (auto split: if_splits)
  next
    case (8 d q)
    then show ?case using object_okD(10)[OF ok, of d q] p e1 t(1) by (auto split: if_splits)
  next
    case (9 c ce)
    then show ?case using cl by blast
  next
    case (10 c ce i q)
    then show ?case using cl by blast
  qed (use object_okD(1-3)[OF ok] mem in auto)
qed

lemma object_ok_upd_object:
  assumes ok: "object_ok s"
    and f: "\<And>e. oe_id (f e) = oe_id e" "\<And>e. oe_desc (f e) = oe_desc e" "\<And>e. oe_offset (f e) = oe_offset e" "\<And>e. oe_refcnt e \<le> oe_refcnt (f e)"
  shows "object_ok (upd_object p f s)"
proof (cases "sv_objects s p")
  case None
  then have "upd_object p f s = s" by (simp add: upd_object_def fun_upd_idem)
  with ok show ?thesis by simp
next
  case (Some e)
  have h: "holders (upd_object p f s) i = holders s i" for i by (simp add: upd_object_def holders_def)
  show ?thesis
    by (rule object_ok_upd[OF ok Some, of "f e"])
      (use f Some object_okD(11,12)[OF ok] object_okD(9)[OF ok Some] h order_trans[OF _ f(4)] in \<open>auto simp: upd_object_def\<close>)
qed

lemma drop_ref_ok:
  assumes ok: "object_ok s" and c: "map_of (sv_client_map s) c = Some ce" and i: "map_of (ce_object_map ce) i = Some p"
    and p: "sv_objects s p = Some e"
  shows "object_ok (drop_client_object c i (s\<lparr>sv_objects := (sv_objects s)(p \<mapsto> drop_object_ref c e)\<rparr>))"
    (is "object_ok ?t")
proof -
  have id: "oe_id e = i" using client_object[OF ok c i] p by (metis option.inject)
  have cm: "map_of (sv_client_map ?t) = (map_of (sv_client_map s))(c \<mapsto> ce\<lparr>ce_object_map := um_erase i (ce_object_map ce)\<rparr>)"
    using c by (simp add: drop_client_object_def upd_client_def)
  have H: "holders ?t i = holders s i - {c}" using cm by (auto simp: holders_def split: if_splits)
  have "c \<in> holders s i" using c i by (auto simp: holders_def)
  then have "int (card (holders ?t i)) = int (card (holders s i)) - 1"
    unfolding H by (simp add: card_gt_0_iff of_nat_diff) (metis One_nat_def Suc_leI card_gt_0_iff empty_iff finite_holders of_nat_1 of_nat_diff)
  moreover have "int (card (holders s i)) \<le> oe_refcnt e" using object_okD(9)[OF ok p] id by simp
  ultimately have h: "int (card (holders ?t (oe_id e))) \<le> oe_refcnt (drop_object_ref c e)" using id by (simp add: drop_object_ref_def)
  have hs: "holders ?t j \<subseteq> holders s j" for j using cm c by (auto simp: holders_def fun_upd_apply split: if_splits)
  have cl: "um_ok (ce_object_map cx) \<and> (\<forall>j q. map_of (ce_object_map cx) j = Some q \<longrightarrow> map_of (sv_object_map s) j = Some q)"
    if "map_of (sv_client_map ?t) d = Some cx" for d cx
    using that object_okD(11,12)[OF ok] c unfolding cm by (auto split: if_splits)
  show ?thesis
    by (rule object_ok_upd[OF ok p _ _ _ cl h hs]) (simp_all add: drop_client_object_def upd_client_def drop_object_ref_def)
qed


lemma drop_object_all_client:
  "map_of (sv_client_map (drop_object_all i s)) c =
    map_option (\<lambda>ce. ce\<lparr>ce_object_map := um_erase i (ce_object_map ce)\<rparr>) (map_of (sv_client_map s) c)"
  by (simp add: drop_object_all_def map_of_map)

lemma holders_drop_all: "holders (drop_object_all i s) j = (if j = i then {} else holders s j)"
  by (auto simp: holders_def drop_object_all_client)

lemma free_chain_upd: "k \<notin> set xs \<Longrightarrow> free_chain (nxt(k := v)) a xs = free_chain nxt a xs"
  by (induction xs arbitrary: a) auto

lemma cells_insert:
  assumes t: "sv_objects t = (sv_objects s)(p \<mapsto> e)" and p: "sv_objects s p = None" and k: "oe_offset e = k * 8"
  shows "cells t = insert k (cells s)"
proof (intro set_eqI iffI)
  fix x assume "x \<in> cells t"
  then obtain q f where "sv_objects t q = Some f" "oe_offset f = x * 8" unfolding cells_def by blast
  then show "x \<in> insert k (cells s)" using t k by (cases "q = p") (auto simp: cells_def)
next
  fix x assume "x \<in> insert k (cells s)"
  then consider "x = k" | q f where "sv_objects s q = Some f" "oe_offset f = x * 8" unfolding cells_def by blast
  then show "x \<in> cells t"
  proof cases
    case 1
    with t k show ?thesis unfolding cells_def by (intro CollectI exI[of _ p] exI[of _ e]) simp
  next
    case 2
    with t p show ?thesis unfolding cells_def by (intro CollectI exI[of _ q] exI[of _ f]) auto
  qed
qed

lemma destroy_ok:
  assumes ok: "object_ok s" and p: "sv_objects s p = Some e"
  shows "object_ok (destroy_object_entry p e s)"
proof -
  let ?t = "destroy_object_entry p e s"
  have ip: "map_of (sv_object_map s) (oe_id e) = Some p" by (rule object_okD(6)[OF ok p])
  have len: "length (sv_object_map s) = Suc (length (um_erase (oe_id e) (sv_object_map s)))"
    by (rule length_um_erase[OF object_okD(1)[OF ok] ip])
  then have pos: "0 < sv_curr_object_num s" using object_okD(3)[OF ok] by simp
  have F: "sv_objects ?t = (sv_objects s)(p := None)" "sv_object_map ?t = um_erase (oe_id e) (sv_object_map s)"
    "sv_object_desc_map ?t = um_erase (oe_desc e) (sv_object_desc_map s)" "sv_is_primary ?t = sv_is_primary s"
    "sv_curr_object_num ?t = sv_curr_object_num s - 1" "sv_object_memory ?t = free_object_memory (oe_offset e) (sv_object_memory s)"
    "sv_next_ptr ?t = sv_next_ptr s"
    using pos by (simp_all add: destroy_object_entry_def drop_object_all_def)
  have C: "map_of (sv_client_map ?t) c = map_option (\<lambda>ce. ce\<lparr>ce_object_map := um_erase (oe_id e) (ce_object_map ce)\<rparr>) (map_of (sv_client_map s) c)" for c
    using pos by (simp add: destroy_object_entry_def drop_object_all_client)
  have hs: "holders ?t j \<subseteq> holders s j" for j by (auto simp: holders_def C split: if_splits)
  have K: "sv_objects s q = Some f \<Longrightarrow> q \<noteq> p \<Longrightarrow> oe_id f \<noteq> oe_id e \<and> oe_desc f \<noteq> oe_desc e" for q f
    using object_inj[OF ok _ p] by blast
  let ?m = "sv_object_memory s"
  obtain xs where xs: "free_chain (om_ctrl ?m) (om_next_free ?m) xs" "distinct xs" "set xs \<inter> cells s = {}"
      "set xs \<union> cells s = {0 ..< om_total ?m}" and tot: "om_total ?m = OBJECT_MAX_NUMBER"
    using object_okD(4)[OF ok] unfolding memory_ok_def by blast
  obtain k where k: "oe_offset e = k * 8" using object_okD(4)[OF ok] p unfolding memory_ok_def by (metis dvd_def mult.commute)
  have kc: "k \<in> cells s" using p k by (auto simp: cells_def)
  have kt: "k < om_total ?m" "k \<notin> set xs" using kc xs(3,4) by auto
  have inj: "sv_objects s q = Some f \<Longrightarrow> oe_offset f = oe_offset e \<Longrightarrow> q = p" for q f
    using object_okD(4)[OF ok] p unfolding memory_ok_def by blast
  have "cells s = insert k (cells ?t)" by (rule cells_insert[where p = p, OF _ _ k]) (simp_all add: F p fun_upd_idem)
  moreover have "k \<notin> cells ?t" using inj k F(1) by (auto simp: cells_def split: if_splits)
  ultimately have cells: "cells ?t = cells s - {k}" by simp
  have "free_chain (om_ctrl (sv_object_memory ?t)) (om_next_free (sv_object_memory ?t)) (k # xs)"
    using xs(1) kt tot free_chain_upd[OF kt(2)] by (simp add: F free_object_memory_def k INVALID_OFFSET_def NO_OBJECT_def OBJECT_MAX_NUMBER_def)
  moreover have "om_total (sv_object_memory ?t) = om_total ?m" by (simp add: F free_object_memory_def Let_def)
  moreover have "distinct (k # xs)" "set (k # xs) \<inter> cells ?t = {}" "set (k # xs) \<union> cells ?t = {0 ..< om_total ?m}"
    using xs kt kc unfolding cells by auto
  ultimately have mem: "memory_ok ?t"
    unfolding memory_ok_def using tot object_okD(4)[OF ok] unfolding memory_ok_def F(1)
    by (intro conjI exI[of _ "k # xs"]) (auto split: if_splits)
  show ?thesis
    unfolding object_ok_def
  proof (intro conjI allI impI, goal_cases)
    case (3 i q)
    then show ?case using object_okD(5)[OF ok, of i q] p F by (auto split: if_splits)
  next
    case (4 q f)
    then show ?case using object_okD(6)[OF ok, of q] K[of q f] F by (auto split: if_splits)
  next
    case (5 q f)
    then show ?case using object_okD(7)[OF ok, of q] K[of q f] F by (auto split: if_splits)
  next
    case (7 q f)
    then have f: "sv_objects s q = Some f" by (auto simp: F split: if_splits)
    have "card (holders ?t (oe_id f)) \<le> card (holders s (oe_id f))" using hs by (simp add: card_mono)
    with object_okD(9)[OF ok f] show ?case by linarith
  next
    case (8 d q)
    then show ?case using object_okD(10)[OF ok, of d q] p F by (auto split: if_splits)
  next
    case (10 c ce i q)
    then show ?case using object_okD(12)[OF ok, of c _ i q] F C[of c] by (auto split: if_splits)
  qed (use object_okD(1-3,8,11)[OF ok] len mem F C in \<open>auto split: if_splits\<close>)
qed

lemma object_ok_curr [simp]: "object_ok (s\<lparr>sv_curr_object_id := c\<rparr>) = object_ok s"
  by (simp add: object_ok_def memory_ok_def cells_def holders_def)

lemma find_available_object_id_spec:
  assumes "find_available_object_id i s = (s1, r)"
  shows "\<exists>c. s1 = s\<lparr>sv_curr_object_id := c\<rparr>" "r = Some j \<Longrightarrow> map_of (sv_object_map s) j = None \<and> 0 < sint j"
proof -
  show "\<exists>c. s1 = s\<lparr>sv_curr_object_id := c\<rparr>"
    using assms by (auto simp: find_available_object_id_def split: if_splits prod.splits intro: exI[of _ "sv_curr_object_id s"])
  show "r = Some j \<Longrightarrow> map_of (sv_object_map s) j = None \<and> 0 < sint j"
    using assms by (auto simp: find_available_object_id_def split: if_splits prod.splits dest: find_id_free)
qed

lemma object_add_ok:
  assumes ok: "object_ok s" and i: "map_of (sv_object_map s) i = None" and d: "map_of (sv_object_desc_map s) d = None"
    and a: "alloc_object_memory (sv_object_memory s) = (mem, off)" and off: "off < INVALID_OFFSET"
    and e: "oe_desc e = d" "oe_id e = i" "oe_offset e = off" "0 \<le> oe_refcnt e"
  shows "object_ok ((add_object i e v (s\<lparr>sv_object_memory := mem\<rparr>))\<lparr>sv_curr_object_num := sv_curr_object_num s + 1\<rparr>)" (is "object_ok ?t")
proof -
  let ?p = "sv_next_ptr s" and ?m = "sv_object_memory s"
  have fresh: "sv_objects s ?p = None" using object_okD(8)[OF ok] by (metis less_irrefl not_Some_eq)
  have F: "sv_objects ?t = (sv_objects s)(?p \<mapsto> e)" "sv_object_map ?t = (i, ?p) # sv_object_map s" "sv_is_primary ?t = sv_is_primary s"
    "map_of (sv_object_desc_map ?t) = (map_of (sv_object_desc_map s))(d \<mapsto> ?p)"
    "sv_curr_object_num ?t = sv_curr_object_num s + 1" "sv_next_ptr ?t = Suc ?p" "sv_client_map ?t = sv_client_map s"
    "sv_object_memory ?t = object_memory_set off v mem"
    using i e by (simp_all add: add_object_def um_insert_def)
  have hs: "holders ?t j = holders s j" for j by (simp add: holders_def F)
  have hi: "holders s i = {}" using object_okD(12)[OF ok] i by (fastforce simp: holders_def)
  have K: "sv_objects s q = Some f \<Longrightarrow> q \<noteq> ?p \<and> oe_id f \<noteq> i \<and> oe_desc f \<noteq> d" for q f
    using object_okD(6,7)[OF ok, of q f] fresh i d by auto
  have M: "map_of (sv_object_map s) j = Some q \<Longrightarrow> q \<noteq> ?p" "map_of (sv_object_desc_map s) d' = Some q \<Longrightarrow> q \<noteq> ?p" for j d' q
    using object_okD(5,10)[OF ok] fresh by fastforce+
  obtain xs where xs: "free_chain (om_ctrl ?m) (om_next_free ?m) xs" "distinct xs" "set xs \<inter> cells s = {}"
      "set xs \<union> cells s = {0 ..< om_total ?m}" and tot: "om_total ?m = OBJECT_MAX_NUMBER"
    using object_okD(4)[OF ok] unfolding memory_ok_def by blast
  let ?k = "om_next_free ?m"
  from a off have k: "?k \<noteq> NO_OBJECT" "mem = ?m\<lparr>om_next_free := om_ctrl ?m ?k\<rparr>" "off = ?k * 8"
    by (auto simp: alloc_object_memory_def Let_def split: if_splits)
  then obtain ys where ys: "xs = ?k # ys" "free_chain (om_ctrl ?m) (om_ctrl ?m ?k) ys" using xs(1) by (cases xs) auto
  have cells: "cells ?t = insert ?k (cells s)" by (rule cells_insert[OF F(1) fresh]) (simp add: e(3) k(3))
  have offs: "sv_objects s q = Some f \<Longrightarrow> oe_offset f \<noteq> off" for q f
    using k(3) ys(1) xs(3) by (auto simp: cells_def)
  have m: "om_ctrl (sv_object_memory ?t) = om_ctrl ?m" "om_next_free (sv_object_memory ?t) = om_ctrl ?m ?k"
    "om_total (sv_object_memory ?t) = om_total ?m" unfolding F(8) by (simp_all add: object_memory_set_def k(2))
  have mem: "memory_ok ?t"
    unfolding memory_ok_def m cells
  proof (intro conjI allI impI)
    show "\<exists>zs. free_chain (om_ctrl ?m) (om_ctrl ?m ?k) zs \<and> distinct zs \<and> set zs \<inter> insert ?k (cells s) = {} \<and>
        set zs \<union> insert ?k (cells s) = {0 ..< om_total ?m}"
      using xs ys by (intro exI[of _ ys]) auto
    show "8 dvd oe_offset f" if "sv_objects ?t q = Some f" for q f
      using that object_okD(4)[OF ok] e(3) k(3) unfolding memory_ok_def F by (auto split: if_splits)
    show "q = r" if "sv_objects ?t q = Some f" "sv_objects ?t r = Some g" "oe_offset f = oe_offset g" for q f r g
      using that object_okD(4)[OF ok] e(3) offs[of q f] offs[of r g] unfolding memory_ok_def F by (auto split: if_splits)
  qed (rule tot)
  show ?thesis
    unfolding object_ok_def F(7) hs
  proof (intro conjI allI impI, goal_cases)
    case (3 j q)
    then show ?case using object_okD(5)[OF ok, of j q] M(1)[of j q] e F by (auto split: if_splits)
  next
    case (4 q f)
    then show ?case using object_okD(6)[OF ok, of q] K[of q f] e F by (auto split: if_splits)
  next
    case (5 q f)
    then show ?case using object_okD(7)[OF ok, of q] K[of q f] e F by (auto split: if_splits)
  next
    case (6 q f)
    then show ?case using object_okD(8)[OF ok, of q f] F by (auto split: if_splits)
  next
    case (7 q f)
    then show ?case using object_okD(9)[OF ok, of q f] hi e F by (auto split: if_splits)
  next
    case (8 d' q)
    then show ?case using object_okD(10)[OF ok, of d' q] M(2)[of d' q] e F by (auto split: if_splits)
  next
    case (10 c ce j q)
    then show ?case using object_okD(12)[OF ok, of c ce j q] i F by (auto split: if_splits)
  next
    case 1
    then show ?case using object_okD(1)[OF ok] i F by (auto simp: um_ok_def map_of_eq_None_iff)
  qed (use object_okD(2,3,11)[OF ok] mem F in auto)
qed

lemma refresh_ok:
  assumes ok: "object_ok s" and p: "sv_objects s p = Some e"
  shows "object_ok (refresh_object_entry E p e c l s)" (is "object_ok ?t")
proof (rule object_ok_upd[OF ok p])
  show "um_ok (ce_object_map ce) \<and> (\<forall>i q. map_of (ce_object_map ce) i = Some q \<longrightarrow> map_of (sv_object_map s) i = Some q)"
    if "map_of (sv_client_map ?t) d = Some ce" for d ce
    using that object_okD(11,12)[OF ok, of d]
    by (auto simp: refresh_object_entry_def drop_object_all_client upd_object_def split: if_splits)
  have H: "holders ?t j = (if j = oe_id e then {} else holders s j)" for j
    unfolding refresh_object_entry_def holders_drop_all by (simp add: holders_def upd_object_def)
  show "int (card (holders ?t (oe_id e))) \<le> oe_refcnt (e\<lparr>oe_owner_id := c, oe_refcnt := 0, oe_destroyed := False,
      oe_max_lease_tp := lease_end E l, oe_lease_tp_map := [(c, lease_end E l)]\<rparr>)" by (simp add: H)
  show "holders ?t j \<subseteq> holders s j" for j by (simp add: H)
qed (use p in \<open>simp_all add: refresh_object_entry_def drop_object_all_def upd_object_def\<close>)

lemma get_ref_ok:
  assumes ok: "object_ok s" and p: "sv_objects s p = Some e" and c: "map_of (sv_client_map s) c = Some ce"
  shows "object_ok (upd_client c (\<lambda>x. x\<lparr>ce_object_map := um_insert (oe_id e) p (ce_object_map x)\<rparr>)
    (upd_object p (\<lambda>e. e\<lparr>oe_refcnt := oe_refcnt e + 1\<rparr>) s))" (is "object_ok ?t")
proof (rule object_ok_upd[OF ok p])
  have C: "map_of (sv_client_map ?t) = (map_of (sv_client_map s))(c \<mapsto> ce\<lparr>ce_object_map := um_insert (oe_id e) p (ce_object_map ce)\<rparr>)"
    using c by (simp add: upd_client_def upd_object_def)
  show "um_ok (ce_object_map cx) \<and> (\<forall>i q. map_of (ce_object_map cx) i = Some q \<longrightarrow> map_of (sv_object_map s) i = Some q)"
    if "map_of (sv_client_map ?t) d = Some cx" for d cx
    using that object_okD(11,12)[OF ok] c object_okD(6)[OF ok p] unfolding C by (auto split: if_splits)
  have "holders ?t (oe_id e) \<subseteq> insert c (holders s (oe_id e))" by (auto simp: holders_def C split: if_splits)
  then have "card (holders ?t (oe_id e)) \<le> card (insert c (holders s (oe_id e)))" by (simp add: card_mono)
  also have "\<dots> \<le> card (holders s (oe_id e)) + 1" by (simp add: card_insert_if)
  finally show "int (card (holders ?t (oe_id e))) \<le> oe_refcnt (e\<lparr>oe_refcnt := oe_refcnt e + 1\<rparr>)"
    using object_okD(9)[OF ok p] by simp
  show "holders ?t j \<subseteq> holders s j" if "j \<noteq> oe_id e" for j using that c by (auto simp: holders_def C split: if_splits)
qed (use p in \<open>simp_all add: upd_client_def upd_object_def\<close>)

text \<open>One round of the loop that gives up a client's objects.\<close>

definition clear_object_one :: "env \<Rightarrow> u32 \<Rightarrow> u32 \<Rightarrow> ptr \<Rightarrow> object_entry_s \<Rightarrow> dlock_server \<Rightarrow> dlock_server" where
  "clear_object_one E c i p e s =
    (let e1 = drop_object_ref c e;
         s1 = drop_client_object c i (s\<lparr>sv_objects := (sv_objects s)(p \<mapsto> e1)\<rparr>);
         expired = check_lease_expired (e_now E) e1 in
     if oe_owner_id e1 \<noteq> c then
       (if oe_destroyed e1 \<and> (oe_refcnt e1 = 0 \<or> expired) then destroy_object_entry p e1 s1 else s1)
     else if oe_refcnt e1 \<noteq> 0 \<and> \<not> expired then upd_object p (\<lambda>e. e\<lparr>oe_owner_id := 0\<rparr>) s1
     else destroy_object_entry p e1 s1)"

lemma clear_object_one:
  assumes ok: "object_ok s" and c: "map_of (sv_client_map s) c = Some ce" and ip: "map_of (ce_object_map ce) i = Some p"
  obtains e cf where "sv_objects s p = Some e" "oe_id e = i"
    "\<And>xs. clear_object_client_relation E c ((i, p) # xs) s = clear_object_client_relation E c xs (clear_object_one E c i p e s)"
    "object_ok (clear_object_one E c i p e s)" "map_of (sv_client_map (clear_object_one E c i p e s)) c = Some cf"
    "\<And>j. j \<noteq> i \<Longrightarrow> map_of (ce_object_map cf) j = map_of (ce_object_map ce) j"
proof -
  obtain e where e: "sv_objects s p = Some e" "oe_id e = i" using client_object[OF ok c ip] by blast
  let ?e = "drop_object_ref c e"
  let ?s1 = "drop_client_object c i (s\<lparr>sv_objects := (sv_objects s)(p \<mapsto> ?e)\<rparr>)"
  let ?t = "clear_object_one E c i p e s"
  have ok1: "object_ok ?s1" by (rule drop_ref_ok[OF ok c ip e(1)])
  have p1: "sv_objects ?s1 p = Some ?e" by (simp add: drop_client_object_def upd_client_def)
  have okt: "object_ok ?t" using ok1 destroy_ok[OF ok1 p1] object_ok_upd_object[OF ok1] by (simp add: clear_object_one_def Let_def)
  have D: "map_of (sv_client_map (destroy_object_entry q f u)) c \<in>
      {map_of (sv_client_map u) c, map_option (\<lambda>ce. ce\<lparr>ce_object_map := um_erase (oe_id f) (ce_object_map ce)\<rparr>) (map_of (sv_client_map u) c)}" for q f u
    by (simp add: destroy_object_entry_def drop_object_all_client)
  have s1c: "map_of (sv_client_map ?s1) c = Some (ce\<lparr>ce_object_map := um_erase i (ce_object_map ce)\<rparr>)"
    using c by (simp add: drop_client_object_def upd_client_def)
  have "\<exists>cf. map_of (sv_client_map ?t) c = Some cf \<and> (\<forall>j. j \<noteq> i \<longrightarrow> map_of (ce_object_map cf) j = map_of (ce_object_map ce) j)"
    using D[of p ?e ?s1] s1c e(2) by (auto simp: clear_object_one_def Let_def upd_object_def drop_object_ref_def)
  then obtain cf where cf: "map_of (sv_client_map ?t) c = Some cf"
      "\<And>j. j \<noteq> i \<Longrightarrow> map_of (ce_object_map cf) j = map_of (ce_object_map ce) j" by blast
  have "clear_object_client_relation E c ((i, p) # xs) s = clear_object_client_relation E c xs ?t" for xs
    using e by (simp add: clear_object_one_def Let_def)
  with e okt cf show thesis by (intro that)
qed

lemma clear_object_ok:
  assumes "object_ok s" "map_of (sv_client_map s) c = Some ce" "um_ok xs"
    and "\<And>i p. (i, p) \<in> set xs \<Longrightarrow> map_of (ce_object_map ce) i = Some p"
  obtains s1 where "clear_object_client_relation E c xs s = Some s1" "object_ok s1"
  using assms
proof (induction xs arbitrary: s ce thesis)
  case (Cons x xs)
  obtain i p where x: "x = (i, p)" by fastforce
  have ip: "map_of (ce_object_map ce) i = Some p" using Cons.prems(5)[of i p] x by simp
  show ?case
  proof (rule clear_object_one[OF Cons.prems(2,3) ip, of E])
    fix e cf
    let ?t = "clear_object_one E c i p e s"
    assume S: "\<And>xs. clear_object_client_relation E c ((i, p) # xs) s = clear_object_client_relation E c xs ?t"
      "object_ok ?t" "map_of (sv_client_map ?t) c = Some cf" "\<And>j. j \<noteq> i \<Longrightarrow> map_of (ce_object_map cf) j = map_of (ce_object_map ce) j"
    have "map_of (ce_object_map cf) j = Some q" if "(j, q) \<in> set xs" for j q
    proof -
      have "j \<noteq> i" using that Cons.prems(4) by (force simp: x um_ok_def)
      with S(4) Cons.prems(5)[of j q] that show ?thesis by simp
    qed
    moreover have "um_ok xs" using Cons.prems(4) by (simp add: um_ok_def)
    ultimately obtain s1 where "clear_object_client_relation E c xs ?t = Some s1" "object_ok s1" using Cons.IH[OF _ S(2,3)] by metis
    then show ?case using Cons.prems(1)[of s1] S(1) by (simp only: x)
  qed
qed simp

end
