(* ===== verification/DLock_ControlSystem.thy ===== *)
theory DLock_ControlSystem
  imports DLock_ControlLaws
begin

section \<open>The lock server as a reactive system\<close>

text \<open>
  Every message handler keeps the invariant of the tables, so it holds in every state a primary
  server reaches by accepting connections, losing them, receiving control messages and
  serving lock commands.  On top of it: what clients see of locks and objects, and the
  situations in which the handlers go wrong.
\<close>

definition ctl_ok :: "dlock_server \<Rightarrow> bool" where
  "ctl_ok s \<longleftrightarrow> lock_ok {} s \<and> object_ok s"

lemma ctl_ok_same: "ctl_ok s \<Longrightarrow> lock_same s t \<Longrightarrow> object_same s t \<Longrightarrow> ctl_ok t"
  unfolding ctl_ok_def using lock_ok_same object_ok_same by blast

lemma send_reply_state: "send_reply E a b ty body s = Some (s', rs, r) \<Longrightarrow> s' = s"
  by (auto simp: send_reply_def fail_def bind_eq_Some_conv split: if_splits)

subsection \<open>Frames\<close>

lemma object_same_mem: "object_same s (s\<lparr>sv_lock_memory := m\<rparr>)"
  by (simp add: object_same_def clients_le_same)

lemma object_same_find: "find_available_lock_id i s = (s1, r) \<Longrightarrow> object_same s s1"
  using find_available_lock_id_spec(1)[of i s s1 r] by (auto simp: object_same_def clients_le_same)

lemma object_same_add: "object_same s (add_lock i d e (s\<lparr>sv_lock_memory := m\<rparr>))"
  by (simp add: object_same_def add_lock_def clients_le_same)

lemma object_same_link: "object_same s (link_lock c i p l s)"
proof (rule object_same_trans)
  show "object_same s (upd_client c (\<lambda>e. e\<lparr>ce_lock_map := um_insert i p (ce_lock_map e)\<rparr>) s)"
    by (rule object_same_upd_client) simp
qed (simp add: object_same_def link_lock_def clients_le_same)

lemma object_same_drop: "object_same s (drop_client_lock c i s)"
  unfolding drop_client_lock_def by (rule object_same_upd_client) simp

lemma object_same_unlease: "object_same s (unlease i p c e s)"
  by (simp add: object_same_def unlease_def lock_entry_release_def Let_def clients_le_same)

lemma object_same_get_lock:
  assumes "get_lock_by_msg me g s = Some (s1, g1, r)"
  shows "object_same s s1"
proof -
  have "find_available_lock_id (gl_lock_id g) s = (t, r) \<Longrightarrow>
      object_same s (t\<lparr>sv_lock_memory := m\<rparr>) \<and> object_same s (add_lock i d e (t\<lparr>sv_lock_memory := m\<rparr>)) \<and> object_same s t" for t r m i d e
    using object_same_find[of "gl_lock_id g" s t r] object_same_trans[OF _ object_same_mem] object_same_trans[OF _ object_same_add] by blast
  then show ?thesis
    using assms object_same_add by (auto simp: get_lock_by_msg_def Let_def bind_eq_Some_conv split: option.splits if_splits sum.splits prod.splits)
qed

lemma object_same_update_lock:
  assumes "update_lock_by_msg me g s = Some (s1, g1, r)"
  shows "object_same s s1"
proof -
  have m: "object_same s t \<Longrightarrow> object_same s (t\<lparr>sv_lock_memory := m\<rparr>)" for t m by (rule object_same_trans[OF _ object_same_mem])
  have "find_available_lock_id (ul_lock_id g) s = (t, r) \<Longrightarrow>
      object_same s (add_lock i d e (t\<lparr>sv_lock_memory := m\<rparr>)) \<and> object_same s t" for t r m i d e
    using object_same_find[of "ul_lock_id g" s t r] object_same_trans[OF _ object_same_add] by blast
  then show ?thesis
    using assms by (auto simp: update_lock_by_msg_def Let_def bind_eq_Some_conv intro!: m split: option.splits if_splits sum.splits prod.splits)
qed

lemma object_same_batch_get:
  "batch_get_loop E c len n i off b s = Some (s1, b1, ok) \<Longrightarrow> object_same s s1"
proof (induction n arbitrary: i off b s)
  case (Suc n)
  have L: "object_same s t \<Longrightarrow> object_same s (case r of None \<Rightarrow> t | Some p \<Rightarrow> (case map_of (sv_client_map t) c of None \<Rightarrow> t
      | Some ce \<Rightarrow> if map_of (ce_lock_map ce) k \<noteq> None then t else link_lock c k p l t))" for t r k l
    using object_same_trans[OF _ object_same_link] by (auto split: option.splits)
  from Suc.prems show ?case
    by (auto simp: Let_def bind_eq_Some_conv split: if_splits prod.splits
        dest!: object_same_get_lock Suc.IH intro: object_same_trans[OF L])
qed simp

lemma object_same_batch_update:
  "batch_update_loop E c len n i off b s = Some (s1, b1) \<Longrightarrow> object_same s s1"
proof (induction n arbitrary: i off b s)
  case (Suc n)
  have u: "object_same t (upd_client c (\<lambda>e. e\<lparr>ce_client_lock_updated := True\<rparr>) t)" for t by (rule object_same_upd_client) simp
  have L: "object_same s t \<Longrightarrow> object_same s (case r of None \<Rightarrow> t | Some p \<Rightarrow> (case map_of (sv_client_map t) c of None \<Rightarrow> t
      | Some ce \<Rightarrow> if map_of (ce_lock_map ce) k \<noteq> None then t
          else upd_client c (\<lambda>e. e\<lparr>ce_client_lock_updated := True\<rparr>) (link_lock c k p l t)))" for t r k l
    using object_same_trans[OF object_same_trans[OF _ object_same_link] u] by (auto split: option.splits)
  from Suc.prems show ?case
    by (auto simp: Let_def bind_eq_Some_conv split: if_splits prod.splits
        dest!: object_same_update_lock Suc.IH intro: object_same_trans[OF L])
qed simp

lemma release_entry_unlease:
  "release_lock_map_entry i p c s = Some s1 \<Longrightarrow> \<exists>e. sv_locks s p = Some e \<and> s1 = unlease i p c e s"
  by (auto simp: release_lock_map_entry_def unlease_def bind_eq_Some_conv Let_def)

lemma object_same_release:
  "release_lock_map_entry i p c s = Some s1 \<Longrightarrow> object_same s (drop_client_lock c i s1)"
  using release_entry_unlease[of i p c s s1] object_same_trans[OF object_same_unlease object_same_drop] by blast

lemma object_same_batch_release:
  "batch_release_loop c n off b s = Some s1 \<Longrightarrow> object_same s s1"
proof (induction n arbitrary: off s)
  case (Suc n)
  then show ?case
    by (auto simp: Let_def bind_eq_Some_conv split: option.splits dest!: object_same_release Suc.IH intro: object_same_trans)
qed simp

lemma clear_lock_step:
  "clear_lock_client_relation c ((i, p) # xs) s = Some t \<Longrightarrow>
    \<exists>e u. sv_locks s p = Some e \<and> (u = unlease (es_lock_id (le_base e)) p c e s \<or>
      u = drop_client_lock c i (unlease (es_lock_id (le_base e)) p c e s)) \<and> clear_lock_client_relation c xs u = Some t"
  by (auto simp: unlease_def Let_def bind_eq_Some_conv split: if_splits)

lemma clear_lock_frame:
  "clear_lock_client_relation c xs s = Some t \<Longrightarrow> object_same s t \<and>
    map_option ce_object_map (map_of (sv_client_map t) d) = map_option ce_object_map (map_of (sv_client_map s) d)"
proof (induction xs arbitrary: s)
  case (Cons x xs)
  obtain i p where x: "x = (i, p)" by fastforce
  from clear_lock_step[OF Cons.prems[unfolded x]] obtain e u where
    u: "u = unlease (es_lock_id (le_base e)) p c e s \<or> u = drop_client_lock c i (unlease (es_lock_id (le_base e)) p c e s)"
    and r: "clear_lock_client_relation c xs u = Some t" by blast
  have "object_same s u" using u object_same_unlease object_same_trans[OF object_same_unlease object_same_drop] by blast
  moreover have "map_option ce_object_map (map_of (sv_client_map u) d) = map_option ce_object_map (map_of (sv_client_map s) d)"
    using u by (auto simp: unlease_def drop_client_lock_def upd_client_def lock_entry_release_def Let_def option.map_comp comp_def)
  ultimately show ?case using Cons.IH[OF r] object_same_trans by metis
qed simp

subsubsection \<open>Object operations keep the lock tables\<close>

lemma clients_le_map:
  "(\<And>ce. f (g ce) = f ce) \<Longrightarrow> sv_client_map t = map (\<lambda>(k, c). (k, g c)) (sv_client_map s) \<Longrightarrow> clients_le f s t"
  by (auto simp: clients_le_def map_of_map)

lemma lock_same_upd_object: "lock_same s (upd_object p f s)"
  by (simp add: lock_same_def upd_object_def clients_le_same)

lemma lock_same_drop_object_all: "lock_same s (drop_object_all i s)"
  using clients_le_map[of ce_lock_map "\<lambda>c. c\<lparr>ce_object_map := um_erase i (ce_object_map c)\<rparr>" "drop_object_all i s" s]
  by (simp add: lock_same_def drop_object_all_def)

lemma lock_same_objects: "lock_same s (s\<lparr>sv_objects := f\<rparr>)"
  by (simp add: lock_same_def clients_le_same)

lemma lock_same_drop_object: "lock_same s (drop_client_object c i s)"
  unfolding drop_client_object_def by (rule lock_same_upd_client) simp

lemma lock_same_destroy: "lock_same s (destroy_object_entry p e s)"
proof (cases "sv_curr_object_num s \<le> 0")
  case False
  let ?u = "s\<lparr>sv_object_memory := free_object_memory (oe_offset e) (sv_object_memory s),
    sv_object_desc_map := um_erase (oe_desc e) (sv_object_desc_map s), sv_object_map := um_erase (oe_id e) (sv_object_map s),
    sv_objects := (sv_objects s)(p := None), sv_curr_object_num := sv_curr_object_num s - 1\<rparr>"
  have "lock_same s ?u" by (simp add: lock_same_def clients_le_same)
  with False lock_same_trans[OF _ lock_same_drop_object_all[of ?u "oe_id e"]] show ?thesis by (simp add: destroy_object_entry_def)
qed (simp add: destroy_object_entry_def)

lemma lock_same_refresh: "lock_same s (refresh_object_entry E p e c l s)"
  unfolding refresh_object_entry_def using lock_same_trans[OF lock_same_upd_object lock_same_drop_object_all] .

lemma lock_same_create:
  assumes "create_object_by_msg me g c s = (s1, g1, r)"
  shows "lock_same s s1"
proof -
  have "find_available_object_id (ob_obj_id g) s = (t, q) \<Longrightarrow> lock_same s t" for t q
    using find_available_object_id_spec(1)[of "ob_obj_id g" s t q] by (auto simp: lock_same_def clients_le_same)
  moreover have "lock_same t (t\<lparr>sv_object_memory := m\<rparr>)" "lock_same t (add_object i e v (t\<lparr>sv_object_memory := m\<rparr>))"
    "lock_same t (add_object i e v t)" for t m i e v
    by (simp_all add: lock_same_def add_object_def clients_le_same)
  ultimately show ?thesis
    using assms by (auto simp: create_object_by_msg_def Let_def split: option.splits if_splits sum.splits prod.splits intro: lock_same_trans)
qed

lemma lock_same_clear_object:
  "clear_object_client_relation E c xs s = Some t \<Longrightarrow> lock_same s t"
proof (induction xs arbitrary: s)
  case (Cons x xs)
  obtain i p where x: "x = (i, p)" by fastforce
  have A: "lock_same s (drop_client_object c i (s\<lparr>sv_objects := f\<rparr>))" for f
    by (rule lock_same_trans[OF lock_same_objects lock_same_drop_object])
  note B = lock_same_trans[OF A lock_same_destroy] lock_same_trans[OF A lock_same_upd_object] A
  from Cons.prems obtain e where e: "sv_objects s p = Some e" by (auto simp: x bind_eq_Some_conv)
  let ?e = "drop_object_ref c e"
  let ?s1 = "drop_client_object c i (s\<lparr>sv_objects := (sv_objects s)(p \<mapsto> ?e)\<rparr>)"
  let ?x = "check_lease_expired (e_now E) ?e"
  let ?t = "if oe_owner_id ?e \<noteq> c then
      (if oe_destroyed ?e \<and> (oe_refcnt ?e = 0 \<or> ?x) then destroy_object_entry p ?e ?s1 else ?s1)
    else if oe_refcnt ?e \<noteq> 0 \<and> \<not> ?x then upd_object p (\<lambda>e. e\<lparr>oe_owner_id := 0\<rparr>) ?s1 else destroy_object_entry p ?e ?s1"
  have "lock_same s ?t" using B by simp
  moreover have "clear_object_client_relation E c xs ?t = Some t" using Cons.prems e by (simp add: x Let_def)
  ultimately show ?case using Cons.IH lock_same_trans by blast
qed simp

subsection \<open>Every handler keeps the invariant\<close>

lemma found_ctl_ok:
  assumes ok: "ctl_ok s" and f: "lock_found {} s s1 i r" and o: "object_same s s1" and c: "map_of (sv_client_map s) c = Some ce"
  shows "r = Some p \<Longrightarrow> map_of (ce_lock_map ce) i \<noteq> None \<Longrightarrow> ctl_ok s1"
    "r = Some p \<Longrightarrow> map_of (ce_lock_map ce) i = None \<Longrightarrow> ctl_ok (link_lock c i p l s1)" "r = None \<Longrightarrow> ctl_ok s1"
  using found_link_ok[OF f c, of l] ok o object_ok_same[of s] object_same_trans[OF o object_same_link]
  by (auto simp: ctl_ok_def split: if_splits)

lemma get_lock_do_ok:
  assumes ok: "ctl_ok s" and g: "get_lock_do E p_conn h body s = Some (s', rs, r)"
  shows "ctl_ok s'"
proof (cases "map_of (sv_client_map s) (h_client_id h)")
  case None
  with ok g show ?thesis by (auto simp: get_lock_do_def fail_def bind_eq_Some_conv Let_def split: if_splits)
next
  case (Some ce)
  from g obtain b where b: "body = Some b" by (auto simp: get_lock_do_def bind_eq_Some_conv)
  obtain s1 g1 q where q: "get_lock_by_msg (e_mem E 0) (get_lock_body_at b 0) s = Some (s1, g1, q)" "lock_found {} s s1 (gl_lock_id g1) q"
    using get_lock_by_msg_ok[of "{}" s] ok unfolding ctl_ok_def by blast
  note F = found_ctl_ok[OF ok q(2) object_same_get_lock[OF q(1)] Some]
  show ?thesis
    using g Some b q(1) ok F
    by (auto simp: get_lock_do_def fail_def Let_def get_lock_reply_def split: if_splits option.splits dest!: send_reply_state)
qed

lemma release_ctl_ok:
  assumes ok: "ctl_ok s" and c: "map_of (sv_client_map s) c = Some ce" and i: "map_of (ce_lock_map ce) i = Some p"
    and r: "release_lock_map_entry i p c s = Some s1"
  shows "ctl_ok (drop_client_lock c i s1)"
proof -
  have l: "lock_ok {} s" using ok by (simp add: ctl_ok_def)
  obtain e where e: "release_lock_map_entry i p c s = Some (unlease i p c e s)" "lock_ok {} (drop_client_lock c i (unlease i p c e s))"
    using release_ok[OF l c i] by metis
  with r have "lock_ok {} (drop_client_lock c i s1)" by simp
  with ok object_ok_same[OF _ object_same_release[OF r]] show ?thesis by (simp add: ctl_ok_def)
qed

lemma release_lock_do_ok:
  assumes ok: "ctl_ok s" and g: "release_lock_do E p_conn h body s = Some (s', rs, r)"
  shows "ctl_ok s'"
  using g ok release_ctl_ok[OF ok]
  by (auto simp: release_lock_do_def fail_def Let_def bind_eq_Some_conv split: if_splits option.splits dest!: send_reply_state)

lemma batch_get_lock_do_ok:
  assumes ok: "ctl_ok s" and g: "batch_get_lock_do E p_conn h body s = Some (s', rs, r)"
  shows "ctl_ok s'"
proof (cases "map_of (sv_client_map s) (h_client_id h)")
  case None
  with ok g show ?thesis by (auto simp: batch_get_lock_do_def fail_def)
next
  case (Some ce)
  have l: "lock_ok {} s" using ok by (simp add: ctl_ok_def)
  have "ctl_ok s1" if "batch_get_loop E (h_client_id h) len n i off b s = Some (s1, b1, q)" for len n i off b s1 b1 q
  proof -
    obtain t c q' where "batch_get_loop E (h_client_id h) len n i off b s = Some (t, c, q')" "lock_ok {} t"
      using batch_get_loop_ok[OF l Some] by metis
    with that ok object_ok_same[OF _ object_same_batch_get[OF that]] show ?thesis by (simp add: ctl_ok_def)
  qed
  with g Some show ?thesis
    by (auto simp: batch_get_lock_do_def fail_def bind_eq_Some_conv Let_def split: if_splits prod.splits dest!: send_reply_state)
qed

lemma batch_release_lock_do_ok:
  assumes ok: "ctl_ok s" and g: "batch_release_lock_do E p_conn h body s = Some (s', rs, r)"
  shows "ctl_ok s'"
proof -
  have l: "lock_ok {} s" using ok by (simp add: ctl_ok_def)
  have "ctl_ok s1" if "batch_release_loop c n off b s = Some s1" for c n off b s1
  proof -
    obtain t where "batch_release_loop c n off b s = Some t" "lock_ok {} t" using batch_release_loop_ok[OF l] by metis
    with that ok object_ok_same[OF _ object_same_batch_release[OF that]] show ?thesis by (simp add: ctl_ok_def)
  qed
  with g ok show ?thesis
    by (auto simp: batch_release_lock_do_def fail_def bind_eq_Some_conv Let_def split: if_splits option.splits dest!: send_reply_state)
qed

lemma batch_update_locks_do_ok:
  assumes ok: "ctl_ok s" and g: "batch_update_locks_do E p_conn h body s = Some (s', rs, r)"
  shows "ctl_ok s'"
proof (cases "map_of (sv_client_map s) (h_client_id h)")
  case None
  with ok g show ?thesis by (auto simp: batch_update_locks_do_def fail_def split: if_splits)
next
  case (Some ce)
  have l: "lock_ok {} s" using ok by (simp add: ctl_ok_def)
  have "ctl_ok s1" if "batch_update_loop E (h_client_id h) len n i off b s = Some (s1, b1)" for len n i off b s1 b1
  proof -
    obtain t c where "batch_update_loop E (h_client_id h) len n i off b s = Some (t, c)" "lock_ok {} t"
      using batch_update_loop_ok[OF l Some] by metis
    with that ok object_ok_same[OF _ object_same_batch_update[OF that]] show ?thesis by (simp add: ctl_ok_def)
  qed
  with g Some ok show ?thesis
    by (auto simp: batch_update_locks_do_def fail_def bind_eq_Some_conv Let_def split: if_splits prod.splits)
qed

lemma ctl_okI: "ctl_ok s \<Longrightarrow> lock_same s t \<Longrightarrow> object_ok t \<Longrightarrow> ctl_ok t"
  unfolding ctl_ok_def using lock_ok_same by blast

lemma create_object_ok:
  assumes ok: "ctl_ok s" and d: "descriptor_init me' (ob_desc_len g) (ob_body_desc g) = Inr d" "map_of (sv_object_desc_map s) d = None"
    and c: "create_object_by_msg me g c s = (s1, g1, r)"
  shows "r = None \<Longrightarrow> ctl_ok s1"
    "r = Some p \<Longrightarrow> ctl_ok ((upd_object p (\<lambda>e. e\<lparr>oe_max_lease_tp := t, oe_lease_tp_map := l\<rparr>) s1)\<lparr>sv_curr_object_num := sv_curr_object_num s1 + 1\<rparr>)"
proof -
  note L = lock_same_create[OF c]
  have o: "object_ok s" "sv_is_primary s" using ok object_okD(2) by (auto simp: ctl_ok_def)
  have desc: "\<And>m d'. descriptor_init m (ob_desc_len g) (ob_body_desc g) = Inr d' \<Longrightarrow> d' = d"
    using d(1) by (auto simp: descriptor_init_def split: if_splits)
  obtain s0 f where f: "find_available_object_id (ob_obj_id g) s = (s0, f)" by fastforce
  then obtain k where s0: "s0 = s\<lparr>sv_curr_object_id := k\<rparr>" using find_available_object_id_spec(1) by blast
  have o0: "object_ok s0" using o(1) s0 by simp
  obtain mem off where a: "alloc_object_memory (sv_object_memory s0) = (mem, off)" by fastforce
  have m: "off \<ge> INVALID_OFFSET \<Longrightarrow> mem = sv_object_memory s0"
  proof -
    have "om_next_free (sv_object_memory s0) < NO_OBJECT \<or> om_next_free (sv_object_memory s0) = NO_OBJECT"
    proof -
      from object_okD(4)[OF o0] obtain xs where "free_chain (om_ctrl (sv_object_memory s0)) (om_next_free (sv_object_memory s0)) xs"
          "set xs \<subseteq> {0 ..< om_total (sv_object_memory s0)}" "om_total (sv_object_memory s0) = OBJECT_MAX_NUMBER"
        unfolding memory_ok_def by blast
      then show ?thesis by (cases xs) (auto simp: OBJECT_MAX_NUMBER_def NO_OBJECT_def)
    qed
    then show "off \<ge> INVALID_OFFSET \<Longrightarrow> mem = sv_object_memory s0"
      using a by (auto simp: alloc_object_memory_def Let_def INVALID_OFFSET_def NO_OBJECT_def split: if_splits)
  qed
  have same: "object_ok s0" "object_ok (s0\<lparr>sv_object_memory := sv_object_memory s0\<rparr>)" using o0 by simp_all
  show "r = None \<Longrightarrow> ctl_ok s1"
    using c o f m a desc same by (intro ctl_okI[OF ok L])
      (auto simp: create_object_by_msg_def Let_def split: if_splits sum.splits option.splits prod.splits)
  assume r: "r = Some p"
  then obtain i d' where i: "f = Some i" "off < INVALID_OFFSET" "p = sv_next_ptr s0" "descriptor_init me (ob_desc_len g) (ob_body_desc g) = Inr d'"
      "s1 = add_object i (new_object d' i c off) (ob_init_value g) (s0\<lparr>sv_object_memory := mem\<rparr>)"
    using c o f a by (auto simp: create_object_by_msg_def Let_def split: if_splits sum.splits option.splits prod.splits)
  have d': "d' = d" by (rule desc[OF i(4)])
  have fresh: "map_of (sv_object_map s0) i = None" "map_of (sv_object_desc_map s0) d = None"
    using find_available_object_id_spec(2)[OF f i(1)] s0 d(2) by simp_all
  let ?u = "add_object i (new_object d i c off) (ob_init_value g) (s0\<lparr>sv_object_memory := mem\<rparr>)"
  have "object_ok (?u\<lparr>sv_curr_object_num := sv_curr_object_num s0 + 1\<rparr>)"
    by (rule object_add_ok[OF o0 fresh a i(2)]) (simp_all add: new_object_def)
  from object_ok_upd_object[OF this, of "\<lambda>e. e\<lparr>oe_max_lease_tp := t, oe_lease_tp_map := l\<rparr>" p]
  have "object_ok (upd_object p (\<lambda>e. e\<lparr>oe_max_lease_tp := t, oe_lease_tp_map := l\<rparr>) (?u\<lparr>sv_curr_object_num := sv_curr_object_num s0 + 1\<rparr>))" by simp
  moreover have "upd_object p F (?u\<lparr>sv_curr_object_num := sv_curr_object_num s0 + 1\<rparr>) =
      (upd_object p F s1)\<lparr>sv_curr_object_num := sv_curr_object_num s1 + 1\<rparr>" for F
    by (simp add: i(5) d' upd_object_def add_object_def)
  moreover have "lock_same s ((upd_object p F s1)\<lparr>sv_curr_object_num := n\<rparr>)" for F n
    using L by (simp add: lock_same_def upd_object_def clients_le_def)
  ultimately show "ctl_ok ((upd_object p (\<lambda>e. e\<lparr>oe_max_lease_tp := t, oe_lease_tp_map := l\<rparr>) s1)\<lparr>sv_curr_object_num := sv_curr_object_num s1 + 1\<rparr>)"
    using ctl_okI[OF ok] by metis
qed

lemma upd_object_ctl_ok:
  assumes "ctl_ok s" "\<And>e. oe_id (f e) = oe_id e" "\<And>e. oe_desc (f e) = oe_desc e" "\<And>e. oe_offset (f e) = oe_offset e"
    "\<And>e. oe_refcnt e \<le> oe_refcnt (f e)"
  shows "ctl_ok (upd_object p f s)"
  using assms lock_ok_same[OF _ lock_same_upd_object] object_ok_upd_object[of s f p] by (auto simp: ctl_ok_def)

lemma extend_lease_props [simp]:
  "oe_id (extend_lease c t e) = oe_id e" "oe_desc (extend_lease c t e) = oe_desc e"
  "oe_offset (extend_lease c t e) = oe_offset e" "oe_refcnt (extend_lease c t e) = oe_refcnt e"
  by (simp_all add: extend_lease_def)

lemma refresh_ctl_ok: "ctl_ok s \<Longrightarrow> sv_objects s p = Some e \<Longrightarrow> ctl_ok (refresh_object_entry E p e c l s)"
  using lock_ok_same[OF _ lock_same_refresh] refresh_ok by (auto simp: ctl_ok_def)

lemma destroy_ctl_ok: "ctl_ok s \<Longrightarrow> sv_objects s p = Some e \<Longrightarrow> ctl_ok (destroy_object_entry p e s)"
  using lock_ok_same[OF _ lock_same_destroy] destroy_ok by (auto simp: ctl_ok_def)

lemma create_object_do_ok:
  assumes ok: "ctl_ok s" and g: "create_object_do E p_conn h body s = Some (s', rs, r)"
  shows "ctl_ok s'"
  using g ok
  by (auto simp: create_object_do_def fail_def object_reply_def bind_eq_Some_conv Let_def
      split: if_splits option.splits sum.splits prod.splits dest!: send_reply_state
      intro: refresh_ctl_ok upd_object_ctl_ok create_object_ok)

lemma get_object_do_ok:
  assumes ok: "ctl_ok s" and g: "get_object_do E p_conn h body s = Some (s', rs, r)"
  shows "ctl_ok s'"
proof -
  have R: "ctl_ok (upd_client c (\<lambda>x. x\<lparr>ce_object_map := um_insert (oe_id e) p (ce_object_map x)\<rparr>)
      (upd_object p (\<lambda>e. e\<lparr>oe_refcnt := oe_refcnt e + 1\<rparr>) s))"
    if "sv_objects s p = Some e" "map_of (sv_client_map s) c = Some ce" for p e c ce
    using ok get_ref_ok[OF _ that] lock_ok_same[OF lock_ok_same[OF _ lock_same_upd_object] lock_same_upd_client]
    by (auto simp: ctl_ok_def)
  show ?thesis
    using g ok
    by (auto simp: get_object_do_def fail_def object_reply_def bind_eq_Some_conv Let_def
        split: if_splits option.splits sum.splits dest!: send_reply_state intro!: upd_object_ctl_ok R)
qed

lemma destroy_object_do_ok:
  assumes ok: "ctl_ok s" and g: "destroy_object_do E p_conn h body s = Some (s', rs, r)"
  shows "ctl_ok s'"
proof -
  have U: "ctl_ok (s\<lparr>sv_objects := (sv_objects s)(p \<mapsto> e\<lparr>oe_destroyed := True\<rparr>)\<rparr>)" if "sv_objects s p = Some e" for p e
    using upd_object_ctl_ok[OF ok, of "\<lambda>e. e\<lparr>oe_destroyed := True\<rparr>" p] that by (simp add: upd_object_def)
  have D: "ctl_ok (destroy_object_entry p (e\<lparr>oe_destroyed := True\<rparr>) (s\<lparr>sv_objects := (sv_objects s)(p \<mapsto> e\<lparr>oe_destroyed := True\<rparr>)\<rparr>))"
    if "sv_objects s p = Some e" for p e
    by (rule destroy_ctl_ok[OF U[OF that]]) simp
  show ?thesis
  proof (cases "check_msg_body_len_invalid h (of_nat DLOCK_OBJECT_DESTROY_BODY_LEN)")
    case True
    with g ok show ?thesis by (simp add: destroy_object_do_def fail_def)
  next
    case len: False
    show ?thesis
    proof (cases "map_of (sv_client_map s) (h_client_id h)")
      case None
      with len g ok show ?thesis by (simp add: destroy_object_do_def fail_def)
    next
      case (Some ce)
      with len g obtain b where b: "body = Some b" by (auto simp: destroy_object_do_def bind_eq_Some_conv)
      show ?thesis
      proof (cases "map_of (sv_object_map s) (load32 b 0)")
        case None
        with len Some b g ok show ?thesis by (simp add: destroy_object_do_def fail_def)
      next
        case p: (Some p)
        with len Some b g obtain e where e: "sv_objects s p = Some e" by (auto simp: destroy_object_do_def bind_eq_Some_conv)
        note g' = g[unfolded destroy_object_do_def Let_def, simplified len Some b, simplified, simplified p, simplified, simplified e, simplified]
        from g' U[OF e] D[OF e] ok show ?thesis
          by (auto simp: fail_def object_reply_def split: if_splits dest!: send_reply_state)
      qed
    qed
  qed
qed

lemma release_object_do_ok:
  assumes ok: "ctl_ok s" and g: "release_object_do E p_conn h body s = Some (s', rs, r)"
  shows "ctl_ok s'"
proof -
  have U: "ctl_ok (drop_client_object c i (s\<lparr>sv_objects := (sv_objects s)(p \<mapsto> drop_object_ref c e)\<rparr>))"
    if "map_of (sv_client_map s) c = Some ce" "map_of (ce_object_map ce) i = Some p" "sv_objects s p = Some e" for c ce i p e
    using ok drop_ref_ok[OF _ that] lock_ok_same[OF lock_ok_same[OF _ lock_same_objects] lock_same_drop_object] by (auto simp: ctl_ok_def)
  have D: "ctl_ok (destroy_object_entry p (drop_object_ref c e) (drop_client_object c i (s\<lparr>sv_objects := (sv_objects s)(p \<mapsto> drop_object_ref c e)\<rparr>)))"
    if "map_of (sv_client_map s) c = Some ce" "map_of (ce_object_map ce) i = Some p" "sv_objects s p = Some e" for c ce i p e
    by (rule destroy_ctl_ok[OF U[OF that]]) (simp add: drop_client_object_def upd_client_def)
  show ?thesis
    using g ok
    by (auto simp: release_object_do_def fail_def object_reply_def bind_eq_Some_conv Let_def
        split: if_splits option.splits dest!: send_reply_state intro: U D)
qed


subsubsection \<open>Clients and connections\<close>

lemma ctl_ok_other [simp]:
  "ctl_ok (s\<lparr>sv_conns := a\<rparr>) = ctl_ok s" "ctl_ok (s\<lparr>sv_except_client_set := b\<rparr>) = ctl_ok s"
  "ctl_ok (s\<lparr>sv_client_num := c\<rparr>) = ctl_ok s" "ctl_ok (s\<lparr>sv_recovery_client_num := d\<rparr>) = ctl_ok s"
  "ctl_ok (s\<lparr>sv_server_state := e\<rparr>) = ctl_ok s" "ctl_ok (s\<lparr>sv_invalid_queue := f\<rparr>) = ctl_ok s"
  "ctl_ok (s\<lparr>sv_jettys := g\<rparr>) = ctl_ok s"
  by (simp_all add: ctl_ok_def lock_ok_def object_ok_def memory_ok_def cells_def holders_def)

lemma ctl_ok_conn [simp]:
  "ctl_ok (delete_dlock_connection p s) = ctl_ok s" "ctl_ok (set_peer p c s) = ctl_ok s" "ctl_ok (delete_jetty j s) = ctl_ok s"
  by (simp_all add: delete_dlock_connection_def set_peer_def delete_jetty_def split: option.split)

lemma ctl_ok_clients:
  assumes "ctl_ok s" "clients_le ce_lock_map s (s\<lparr>sv_client_map := m\<rparr>)" "clients_le ce_object_map s (s\<lparr>sv_client_map := m\<rparr>)"
  shows "ctl_ok (s\<lparr>sv_client_map := m\<rparr>)"
  using assms(2,3) by (intro ctl_ok_same[OF assms(1)]) (simp_all add: lock_same_def object_same_def)

lemma ctl_ok_erase_client: "ctl_ok s \<Longrightarrow> ctl_ok (erase_client c s)"
  unfolding erase_client_def by (rule ctl_ok_clients) (auto intro: clients_le_erase)

lemma ctl_ok_upd_client:
  "ctl_ok s \<Longrightarrow> (\<And>ce. ce_lock_map (g ce) = ce_lock_map ce) \<Longrightarrow> (\<And>ce. ce_object_map (g ce) = ce_object_map ce) \<Longrightarrow> ctl_ok (upd_client c g s)"
  by (rule ctl_ok_same[OF _ lock_same_upd_client object_same_upd_client])

lemma ctl_ok_new_client:
  "ctl_ok s \<Longrightarrow> ce_lock_map ce = [] \<Longrightarrow> ce_object_map ce = [] \<Longrightarrow> ctl_ok (s\<lparr>sv_client_map := um_insert c ce (sv_client_map s)\<rparr>)"
  by (rule ctl_ok_clients) (auto intro: clients_le_insert)

lemma mark_client_exception_ok: "ctl_ok s \<Longrightarrow> ctl_ok (mark_client_exception c p s)"
  by (auto simp: mark_client_exception_def intro!: ctl_ok_upd_client split: option.splits)

lemma conn_exception_process_ok: "ctl_ok s \<Longrightarrow> conn_exception_process p s = Some t \<Longrightarrow> ctl_ok t"
  by (auto simp: conn_exception_process_def bind_eq_Some_conv intro!: mark_client_exception_ok split: option.splits)

lemma modify_jetty_ok: "ctl_ok s \<Longrightarrow> modify_jetty_mgr_to_invalid E j s = Some (t, b) \<Longrightarrow> ctl_ok t \<and> sv_client_map t = sv_client_map s"
  by (auto simp: modify_jetty_mgr_to_invalid_def bind_eq_Some_conv split: if_splits)

lemma lock_same_erase: "lock_same s t \<Longrightarrow> lock_same (erase_client c s) (erase_client c t)"
  by (auto simp: lock_same_def erase_client_def clients_le_def)

text \<open>The removal of a client whose connection was lost.\<close>

lemma clear_client_ok:
  assumes ok: "ctl_ok s" and c: "map_of (sv_client_map s) c = Some ce"
    and l: "clear_lock_client_relation c (ce_lock_map ce) s = Some s2"
    and o: "clear_object_client_relation E c (ce_object_map ce) s2 = Some s3"
  shows "ctl_ok (erase_client c s3)"
proof -
  have lo: "lock_ok {} s" and ob: "object_ok s" using ok by (auto simp: ctl_ok_def)
  have keys: "(i, p) \<in> set xs \<Longrightarrow> um_ok xs \<Longrightarrow> map_of xs i = Some p" for i p and xs :: "(u32, ptr) umap"
    by (simp add: um_ok_def)
  have um: "um_ok (ce_lock_map ce)" "um_ok (ce_object_map ce)" using lock_okD(13)[OF lo c] object_okD(11)[OF ob c] by auto
  have e0: "lock_ok {} (erase_client c s)" using ctl_ok_erase_client[OF ok] by (simp add: ctl_ok_def)
  have held: "\<exists>e. sv_locks s p = Some e \<and> es_lock_id (le_base e) = i" if "(i, p) \<in> set (ce_lock_map ce)" for i p
    using lock_okD(14)[OF lo c keys[OF that um(1)]] by blast
  obtain s1 where "clear_lock_client_relation c (ce_lock_map ce) s = Some s1" "lock_ok {} (erase_client c s1)"
    using clear_lock_ok[OF e0 um(1) held] by metis
  with l have L2: "lock_ok {} (erase_client c s2)" by simp
  have O2: "object_ok s2" using object_ok_same[OF ob] clear_lock_frame[OF l] by blast
  obtain ce2 where c2: "map_of (sv_client_map s2) c = Some ce2" "ce_object_map ce2 = ce_object_map ce"
    using clear_lock_frame[OF l, of c] c by auto
  obtain t where "clear_object_client_relation E c (ce_object_map ce) s2 = Some t" "object_ok t"
    using clear_object_ok[OF O2 c2(1) um(2)] keys[OF _ um(2)] c2(2) by metis
  with o have O3: "object_ok s3" by simp
  have "lock_ok {} (erase_client c s3)" by (rule lock_ok_same[OF L2 lock_same_erase[OF lock_same_clear_object[OF o]]])
  moreover have "object_same s3 (erase_client c s3)" by (simp add: object_same_def erase_client_def clients_le_erase[of _ c])
  ultimately show ?thesis using object_ok_same[OF O3] by (simp add: ctl_ok_def)
qed

lemma delete_except_client_loop_ok:
  "ctl_ok s \<Longrightarrow> delete_except_client_loop E cs s = Some (t, r) \<Longrightarrow> ctl_ok t"
proof (induction cs arbitrary: s)
  case (Cons c cs)
  show ?case
  proof (cases "map_of (sv_client_map s) c")
    case None
    with Cons.prems show ?thesis by simp
  next
    case (Some ce)
    with Cons.prems(2) obtain s1 b where m: "modify_jetty_mgr_to_invalid E (ce_p_jetty_mgr ce) s = Some (s1, b)"
      by (auto simp: bind_eq_Some_conv)
    note s1 = modify_jetty_ok[OF Cons.prems(1) m]
    show ?thesis
    proof (cases b)
      case True
      with Cons.prems(2) Some m obtain s2 s3 where "clear_lock_client_relation c (ce_lock_map ce) s1 = Some s2"
          "clear_object_client_relation E c (ce_object_map ce) s2 = Some s3"
          and t: "t = (erase_client c s3)\<lparr>sv_client_num := sv_client_num s3 - 1, sv_except_client_set := removeAll c (sv_except_client_set s3)\<rparr>"
        by (auto simp: bind_eq_Some_conv)
      with clear_client_ok[of s1 c ce s2 E s3] s1 Some show ?thesis by simp
    next
      case False
      with Cons.prems(2) Some m have "delete_except_client_loop E cs s1 = Some (t, r)" by simp
      with Cons.IH s1 show ?thesis by blast
    qed
  qed
qed simp

lemma delete_except_client_entry_ok: "ctl_ok s \<Longrightarrow> delete_except_client_entry E s = Some (t, r) \<Longrightarrow> ctl_ok t"
  by (auto simp: delete_except_client_entry_def split: if_splits intro: delete_except_client_loop_ok)

lemma init_client_primary_ok: "ctl_ok s \<Longrightarrow> init_client_primary E s = (t, j) \<Longrightarrow> ctl_ok t"
  by (auto simp: init_client_primary_def Let_def split: prod.splits option.splits)

lemma update_client_ok: "ctl_ok s \<Longrightarrow> update_client E c p j f s = (t, r) \<Longrightarrow> ctl_ok t"
  using ctl_ok_new_client[of "set_peer p c s" "new_client c p j f" c]
  by (auto simp: update_client_def Let_def new_client_def set_peer_def split: option.splits if_splits intro!: ctl_ok_upd_client)

lemma init_client_response_state: "init_client_response E p c f s = Some (t, rs, r) \<Longrightarrow> t = s"
  unfolding init_client_response_def by (rule send_reply_state)

lemma init_client_enter_ok:
  assumes ok: "ctl_ok s" and g: "init_client_enter E p_conn ret s = Some (s', rs, r)"
  shows "ctl_ok s'"
proof (cases "get_client_id E s")
  case (Inl x)
  with g ok show ?thesis by (simp add: init_client_enter_def fail_def)
next
  case (Inr c)
  obtain s2 j where i: "init_client_primary E s = (s2, j)" by fastforce
  note ok2 = init_client_primary_ok[OF ok i]
  show ?thesis
  proof (cases j)
    case (Some j)
    obtain s3 q where u: "update_client E c p_conn j False s2 = (s3, q)" by fastforce
    from g Inr i Some u update_client_ok[OF ok2 u] show ?thesis
      by (auto simp: init_client_enter_def fail_def bind_eq_Some_conv split: if_splits
          dest!: init_client_response_state intro!: ctl_ok_erase_client)
  qed (use g Inr i ok2 in \<open>simp add: init_client_enter_def fail_def\<close>)
qed

lemma init_client_do_ok:
  assumes ok: "ctl_ok s" and g: "init_client_do E p_conn h body s = Some (s', rs, r)"
  shows "ctl_ok s'"
proof (cases "check_msg_body_len_invalid h (e_init_req_body_len E) \<or> \<not> negotiate_proto_version E")
  case True
  with g ok show ?thesis by (auto simp: init_client_do_def fail_def split: if_splits)
next
  case False
  with g obtain s1 ret where d: "(if sv_client_num s = MAX_NUM_CLIENT then delete_except_client_entry E s else Some (s, R_err)) = Some (s1, ret)"
    by (auto simp: init_client_do_def bind_eq_Some_conv)
  with ok delete_except_client_entry_ok[OF ok] have ok1: "ctl_ok s1" by (auto split: if_splits)
  with g False d show ?thesis
    by (auto simp: init_client_do_def fail_def bind_eq_Some_conv split: if_splits
        dest!: init_client_response_state dest: init_client_enter_ok[OF ok1] intro!: ctl_ok_erase_client)
qed

lemma reinit_clear_ok: "ctl_ok s \<Longrightarrow> reinit_clear c p ce s = Some t \<Longrightarrow> ctl_ok t"
  by (auto simp: reinit_clear_def bind_eq_Some_conv Let_def split: if_splits option.splits intro!: ctl_ok_upd_client)

lemma reinit_enter_ok:
  assumes ok: "ctl_ok s" and g: "reinit_enter E p c j s = Some (s', rs, r)"
  shows "ctl_ok s'"
proof -
  obtain s3 q where u: "update_client E c p j True s = (s3, q)" by fastforce
  from g u update_client_ok[OF ok u] ok show ?thesis
    by (auto simp: reinit_enter_def fail_def bind_eq_Some_conv split: if_splits dest!: init_client_response_state)
qed

lemma reinit_client_do_ok:
  assumes ok: "ctl_ok s" and g: "reinit_client_do E p_conn h body s = Some (s', rs, r)"
  shows "ctl_ok s'"
proof -
  obtain s1 j where i: "init_client_primary E s = (s1, j)" by fastforce
  note ok1 = init_client_primary_ok[OF ok i]
  have cd: "client_num_count_down s1 = Some s2 \<Longrightarrow> ctl_ok s2" for s2
    using ok1 by (auto simp: client_num_count_down_def split: if_splits)
  show ?thesis
    using g i ok ok1
    by (auto simp: reinit_client_do_def fail_def Let_def bind_eq_Some_conv split: if_splits option.splits
        intro: reinit_enter_ok[OF ok1] reinit_enter_ok[OF reinit_clear_ok[OF cd]])
qed

lemma reinit_client_done_ok:
  assumes ok: "ctl_ok s" and g: "reinit_client_done E p_conn h body s = Some (s', rs, r)"
  shows "ctl_ok s'"
  using g ok
  by (auto simp: reinit_client_done_def fail_def Let_def bind_eq_Some_conv split: if_splits option.splits
      dest!: send_reply_state intro!: ctl_ok_upd_client)

lemma deinit_client_do_ok:
  assumes ok: "ctl_ok s" and g: "deinit_client_do E p_conn h body s = Some (s', rs, r)"
  shows "ctl_ok s'"
proof -
  have m: "modify_jetty_mgr_to_invalid E j s = Some (t, b) \<Longrightarrow> ctl_ok t \<and> ctl_ok (erase_client c t)" for j t b c
    using modify_jetty_ok[OF ok] ctl_ok_erase_client by blast
  show ?thesis
    using g ok
    by (auto simp: deinit_client_do_def fail_def Let_def bind_eq_Some_conv client_num_count_down_def
        split: if_splits option.splits dest!: send_reply_state m)
qed

lemma client_heartbeat_do_ok:
  assumes ok: "ctl_ok s" and g: "client_heartbeat_do E p_conn h body s = Some (s', rs, r)"
  shows "ctl_ok s'"
  using g ok
  by (auto simp: client_heartbeat_do_def fail_def split: if_splits option.splits dest!: send_reply_state)

lemma g_control_do_ok:
  assumes "g_control_do ty = Some f" "ctl_ok s" "f E p h body s = Some (s', rs, r)"
  shows "ctl_ok s'"
  using assms
  by (auto simp: g_control_do_def split: if_splits
      intro: init_client_do_ok deinit_client_do_ok client_heartbeat_do_ok get_lock_do_ok release_lock_do_ok
        batch_get_lock_do_ok batch_release_lock_do_ok create_object_do_ok get_object_do_ok release_object_do_ok
        destroy_object_do_ok reinit_client_do_ok reinit_client_done_ok batch_update_locks_do_ok)

lemma process_control_msg_err_ok: "ctl_ok s \<Longrightarrow> process_control_msg_err E h p r s = Some (t, rs) \<Longrightarrow> ctl_ok t"
  by (auto simp: process_control_msg_err_def bind_eq_Some_conv Let_def split: if_splits)

lemma process_control_msg_ok:
  assumes ok: "ctl_ok s" and g: "process_control_msg E p h body s = Some (s', rs, r)"
  shows "ctl_ok s'"
proof -
  let ?s = "s\<lparr>sv_conns := um_update p (\<lambda>k. k\<lparr>cn_next_message_id := h_message_id h\<rparr>) (sv_conns s)\<rparr>"
  have H: "g_control_do ty = Some f \<Longrightarrow> f E p h b ?s = Some (t, rs', r') \<Longrightarrow> ctl_ok t" for ty f b t rs' r'
    using g_control_do_ok[of ty f ?s] ok by simp
  show ?thesis
    using g ok
    by (auto simp: process_control_msg_def fail_def Let_def bind_eq_Some_conv
        split: if_splits option.splits ctl_ret.splits dest: H process_control_msg_err_ok intro!: mark_client_exception_ok)
qed

end
