(* ===== verification/DLock_ControlProps.thy ===== *)
theory DLock_ControlProps
  imports DLock_ControlSystem
begin

section \<open>Properties of the control plane\<close>

text \<open>
  A primary server as a step system: connections are accepted and lost, control messages arrive
  with any header, body and environment, and lock commands change the lock memory.  A step
  that would crash the process is not a step of the relation; the crashes have theorems of their own below.
\<close>

subsection \<open>Runs of a server\<close>

inductive ctl_step :: "dlock_server \<Rightarrow> dlock_server \<Rightarrow> bool" where
  accept: "map_of (sv_conns s) p = None \<Longrightarrow>
    ctl_step s (s\<lparr>sv_conns := um_insert p \<lparr>cn_peer = None, cn_next_message_id = n\<rparr> (sv_conns s)\<rparr>)"
| closed: "conn_exception_process p s = Some t \<Longrightarrow> ctl_step s t"
| message: "process_control_msg E p h body s = Some (t, rs, r) \<Longrightarrow> ctl_step s t"
| command: "m = fst (do_lock (dec :: u8 list \<Rightarrow> _) enc post tv0 tvs tv1 c buf nid (sv_lock_memory s)) \<Longrightarrow>
    ctl_step s (s\<lparr>sv_lock_memory := m\<rparr>)"

definition ctl_init :: "dlock_server \<Rightarrow> bool" where
  "ctl_init s \<longleftrightarrow> (\<exists>n. s = init_as_primary n)"

lemma preprocess_alloc_both:
  "m_free_memory_map (fst (preprocess_lock_cmd_msg tv msgs s)) = m_free_memory_map s \<and>
   m_is_primary (fst (preprocess_lock_cmd_msg tv msgs s)) = m_is_primary s"
proof (induction msgs)
  case (Cons m msgs)
  obtain s' r where p: "preprocess_lock_cmd_msg tv msgs s = (s', r)" by fastforce
  show ?case
  proof (cases "op_code m \<noteq> req_val EXCLUSIVE_LOCK_EXTEND \<and> op_code m \<noteq> req_val SHARED_LOCK_EXTEND")
    case True
    with Cons p show ?thesis by simp
  next
    case False
    then have "preprocess_lock_cmd_msg tv (m # msgs) s = (case lock_type_of (msg_lock_type m) of
         Some DLOCK_ATOMIC \<Rightarrow> (let t = ls_atomic_time_out (ls m); m' = m\<lparr>ls := (ls m)\<lparr>w1 := t + (if t = 0 then 0 else word_of_int tv)\<rparr>\<rparr>;
           (s', r) = preprocess_lock_cmd_msg tv msgs s in (s', m' # r))
       | Some DLOCK_FAIR \<Rightarrow> (let t = fl_time_out (ls m); m' = m\<lparr>ls := (ls m)\<lparr>w2 := t + (if t = 0 then 0 else word_of_int tv)\<rparr>\<rparr>;
           (s', r) = preprocess_lock_cmd_msg tv msgs s in (s', m' # r))
       | _ \<Rightarrow> (bump [DEBUG_STATS_EINVAL_LOCK_TYPE] s, m # msgs))"
      by (simp only: preprocess_lock_cmd_msg.simps if_False)
    with Cons p show ?thesis by (cases "lock_type_of (msg_lock_type m)"; simp add: Let_def split: dlock_type.split)
  qed
qed simp

lemmas preprocess_alloc = preprocess_alloc_both[THEN conjunct1] preprocess_alloc_both[THEN conjunct2]

lemma do_lock_cmds_alloc_both:
  "m_free_memory_map (fst (do_lock_cmds tvs c msgs s)) = m_free_memory_map s \<and>
   m_is_primary (fst (do_lock_cmds tvs c msgs s)) = m_is_primary s"
proof (induction msgs arbitrary: tvs s)
  case (Cons m msgs)
  have "fst (do_lock_cmds tvs c (m # msgs) s) = fst (do_lock_cmds (tl tvs) c msgs (fst (do_lock_cmd (hd tvs) c m s)))"
    by (simp add: Let_def case_prod_unfold)
  with Cons[of "tl tvs" "fst (do_lock_cmd (hd tvs) c m s)"] do_lock_cmd_alloc[of "hd tvs" c m s] show ?case by simp
qed simp

lemmas do_lock_cmds_alloc = do_lock_cmds_alloc_both[THEN conjunct1] do_lock_cmds_alloc_both[THEN conjunct2]

lemma do_lock_alloc:
  "m_free_memory_map (fst (do_lock dec enc post tv0 tvs tv1 c buf nid s)) = m_free_memory_map s"
  "m_is_primary (fst (do_lock dec enc post tv0 tvs tv1 c buf nid s)) = m_is_primary s"
proof -
  { fix m0 rest
    let ?p = "preprocess_lock_cmd_msg tv0 (m0 # rest) s"
    have "m_free_memory_map (fst (do_lock_cmds tvs c (snd ?p) (fst ?p))) = m_free_memory_map s \<and>
        m_is_primary (fst (do_lock_cmds tvs c (snd ?p) (fst ?p))) = m_is_primary s"
      by (simp only: do_lock_cmds_alloc preprocess_alloc) }
  note P = this
  show "m_free_memory_map (fst (do_lock dec enc post tv0 tvs tv1 c buf nid s)) = m_free_memory_map s"
    "m_is_primary (fst (do_lock dec enc post tv0 tvs tv1 c buf nid s)) = m_is_primary s"
    using P by (auto simp: do_lock_def Let_def case_prod_unfold simp del: preprocess_lock_cmd_msg.simps split: option.splits)
qed

lemma free_chain_init:
  "k < n \<Longrightarrow> free_chain (\<lambda>i. if i < n - 1 then i + 1 else NO_OBJECT) k [k ..< n]"
proof (induction "n - k" arbitrary: k)
  case (Suc d)
  show ?case
  proof (cases "k + 1 < n")
    case True
    with Suc have "free_chain (\<lambda>i. if i < n - 1 then i + 1 else NO_OBJECT) (k + 1) [k + 1 ..< n]" by simp
    moreover have "k < n - 1" using True by linarith
    ultimately show ?thesis using Suc.prems by (simp add: upt_conv_Cons[of k n])
  next
    case False
    with Suc.prems have "n = Suc k" by simp
    then show ?thesis by simp
  qed
qed simp

lemma init_as_primary_ok: "ctl_ok (init_as_primary n)"
proof -
  have h: "heap_ok LOCK_MEMORY_SIZE (lock_memory_new LOCK_MEMORY_SIZE True, [])"
    by (rule lock_heap.inv_init) (auto simp: entry_init_def)
  have "lock_ok {} (init_as_primary n)"
    using h by (simp add: lock_ok_def init_as_primary_def lock_memory_new_def)
  moreover have "memory_ok (init_as_primary n)"
    using free_chain_init[of 0 OBJECT_MAX_NUMBER]
    by (auto simp: memory_ok_def init_as_primary_def object_memory_init_def cells_def OBJECT_MAX_NUMBER_def NO_OBJECT_def
        intro!: exI[of _ "[0 ..< OBJECT_MAX_NUMBER]"])
  then have "object_ok (init_as_primary n)"
    by (simp add: object_ok_def) (simp add: init_as_primary_def)
  ultimately show ?thesis by (simp add: ctl_ok_def)
qed

interpretation ctl: step_system ctl_init ctl_step ctl_ok
proof
  show "ctl_ok s" if "ctl_init s" for s using that init_as_primary_ok by (auto simp: ctl_init_def)
  show "ctl_ok t" if "ctl_ok s" "ctl_step s t" for s t
    using that(2)
  proof cases
    case (command m dec enc post tv0 tvs tv1 c buf nid)
    have "lock_same s t" unfolding command(1) by (rule lock_same_mem) (simp_all add: command(2) do_lock_alloc)
    moreover have "object_same s t" unfolding command(1) by (rule object_same_mem)
    ultimately show ?thesis by (rule ctl_ok_same[OF that(1)])
  qed (use that(1) in \<open>auto intro: conn_exception_process_ok process_control_msg_ok\<close>)
qed


subsection \<open>A small server for the instances\<close>

definition demo_env :: env where
  "demo_env = \<lparr>e_now = 0, e_malloc = True, e_send = True, e_mem = (\<lambda>_. \<lparr>new_desc = True, calloc_desc = True, new_entry = True\<rparr>),
     e_new_client = True, e_jetty = Some 50, e_idle = (\<lambda>_. True), e_rand = [Some 5], e_init_req_body_len = 40, e_min_version = 2\<rparr>"

definition demo_hdr :: "u8 \<Rightarrow> u16 \<Rightarrow> u32 \<Rightarrow> dlock_control_hdr" where
  "demo_hdr ty len c = \<lparr>h_magic_no = DLOCK_CP_MAGIC_NO, h_version = 2, h_hdr_len = 16, h_type = ty, h_total_len = len,
     h_message_id = 9, h_client_id = c\<rparr>"

text \<open>One connection, then one client on it.\<close>

definition demo_conn :: dlock_server where
  "demo_conn = (init_as_primary 0)\<lparr>sv_conns := [(7, \<lparr>cn_peer = None, cn_next_message_id = 0\<rparr>)]\<rparr>"

definition demo_client :: dlock_server where
  "demo_client = (init_as_primary 0)\<lparr>sv_conns := [(7, \<lparr>cn_peer = Some 5, cn_next_message_id = 9\<rparr>)],
     sv_client_map := [(5, new_client 5 7 50 False)], sv_jettys := [50], sv_client_num := 1\<rparr>"

lemma demo_conn_run: "ctl_step\<^sup>*\<^sup>* (init_as_primary 0) demo_conn"
proof -
  have "ctl_step (init_as_primary 0) ((init_as_primary 0)\<lparr>sv_conns := um_insert 7 \<lparr>cn_peer = None, cn_next_message_id = 0\<rparr> (sv_conns (init_as_primary 0))\<rparr>)"
    by (rule ctl_step.accept) (simp add: init_as_primary_def)
  then show ?thesis by (simp add: demo_conn_def um_insert_def um_erase_def init_as_primary_def)
qed

lemmas ctl_eval = process_control_msg_def check_control_msg_hdr_def check_msg_type_range_def get_process_control_msg_range_def
  check_control_msg_client_id_def g_control_do_def demo_env_def demo_hdr_def init_as_primary_def init_primary_server_state_def
  DLOCK_FIXED_CTRL_MSG_HDR_LEN_def DLOCK_MAX_CTRL_MSG_SIZE_def DLOCK_BATCH_UPDATE_LOCK_BODY_LEN_def DLOCK_UPDATE_LOCK_BODY_LEN_def
  DLOCK_CP_MAGIC_NO_def DLOCK_MIN_PROTO_VERSION_def DLOCK_PROTO_VERSION_def check_msg_body_len_invalid_def body_len_def
  um_insert_def um_erase_def um_update_def fail_def send_reply_def

lemma alloc_client_id_first:
  assumes "r AND CLIENT_ID_MASK \<noteq> 0" "map_of (sv_client_map s) (r AND CLIENT_ID_MASK) = None"
  shows "alloc_client_id MAX_TRY_ALLOC_CLIENT_ID_TIME (Some r # rs) s = Some (r AND CLIENT_ID_MASK)"
proof -
  have n: "MAX_TRY_ALLOC_CLIENT_ID_TIME = Suc 5" by (simp add: MAX_TRY_ALLOC_CLIENT_ID_TIME_def)
  show ?thesis unfolding n alloc_client_id.simps Let_def using assms by simp
qed

lemma demo_client_step:
  "process_control_msg demo_env 7 (demo_hdr CLIENT_INIT_REQUEST 56 0) (Some (\<lambda>_. 0)) demo_conn =
    Some (demo_client, [\<lparr>rp_conn = 7, rp_type = CLIENT_INIT_RESPONSE, rp_message_id = 9, rp_status = R_done, rp_body = [5, 0, 0, 0, 3]\<rparr>], R_done)"
  by (simp add: ctl_eval demo_conn_def demo_client_def init_client_do_def negotiate_proto_version_def MAX_NUM_CLIENT_def
      init_client_enter_def get_client_id_def alloc_client_id_first CLIENT_ID_MASK_def
      init_client_primary_def update_client_def set_peer_def new_client_def init_client_response_def load_bytes_def store32_def
      upt_rec[of _ 4])

lemma demo_client_run: "ctl_step\<^sup>*\<^sup>* (init_as_primary 0) demo_client"
  using demo_conn_run ctl_step.message[OF demo_client_step] by simp

text \<open>A request of this client passes the checks of the receive path and reaches its handler.\<close>

lemma demo_hdr_ok:
  assumes "map_of (sv_conns s) 7 = Some \<lparr>cn_peer = Some 5, cn_next_message_id = 9\<rparr>" "um_ok (sv_conns s)"
    "sv_server_state s = SERVER_READY" "12 \<le> ty" "ty \<le> 33" "16 < unat len" "unat len < 17000" "g_control_do ty = Some f"
    "f demo_env 7 (demo_hdr ty len 5) (Some b) s = Some (t, rs, R_done)"
    "ty \<noteq> CLIENT_INIT_REQUEST"
  shows "process_control_msg demo_env 7 (demo_hdr ty len 5) (Some b) s = Some (t, rs, R_done)"
proof -
  have u: "s\<lparr>sv_conns := um_update 7 (\<lambda>k. k\<lparr>cn_next_message_id := 9\<rparr>) (sv_conns s)\<rparr> = s"
  proof -
    obtain xs ys where m: "sv_conns s = xs @ (7, \<lparr>cn_peer = Some 5, cn_next_message_id = 9\<rparr>) # ys" "um_erase 7 (sv_conns s) = xs @ ys"
      using um_split[OF assms(2,1)] by blast
    have "\<forall>x \<in> set xs \<union> set ys. fst x \<noteq> 7" using assms(2) m(1) by (force simp: um_ok_def)
    then have "um_update 7 (\<lambda>k. k\<lparr>cn_next_message_id := 9\<rparr>) (sv_conns s) = sv_conns s"
      unfolding m(1) by (force simp: um_update_def intro!: map_idI)
    then show ?thesis by simp
  qed
  have ty: "\<not> ty < 12" "\<not> 37 < ty" "ty \<noteq> CLIENT_REINIT_REQUEST" using assms(4,5) by unat_arith+
  have h: "check_control_msg_hdr (demo_hdr ty len 5)" "check_msg_type_range (demo_hdr ty len 5) (get_process_control_msg_range s) s = R_done"
    "check_control_msg_client_id (demo_hdr ty len 5) \<lparr>cn_peer = Some 5, cn_next_message_id = 9\<rparr>"
    "h_type (demo_hdr ty len 5) = ty" "h_total_len (demo_hdr ty len 5) = len" "h_message_id (demo_hdr ty len 5) = 9"
    using assms(3,6,7,10) ty by (simp_all add: check_control_msg_hdr_def demo_hdr_def check_msg_type_range_def
      get_process_control_msg_range_def check_control_msg_client_id_def DLOCK_FIXED_CTRL_MSG_HDR_LEN_def DLOCK_PROTO_VERSION_def
      DLOCK_MAX_CTRL_MSG_SIZE_def DLOCK_BATCH_UPDATE_LOCK_BODY_LEN_def DLOCK_UPDATE_LOCK_BODY_LEN_def)
  show ?thesis using assms(1,6,8,9) by (simp add: process_control_msg_def h u DLOCK_FIXED_CTRL_MSG_HDR_LEN_def)
qed

text \<open>The client asks for a new read-write lock with the one-byte descriptor 65.\<close>

definition demo_get :: bmem where
  "demo_get = (\<lambda>_. 0)(4 := 1, 16 := 1, 20 := 65)"

definition demo_entry :: lock_entry_s where
  "demo_entry = \<lparr>es_lock_id = 2, es_lock_type = DLOCK_RW, es_lock_offset = 0\<rparr>"

definition demo_memory :: lock_memory where
  "demo_memory = fst (lock_entry_s_new 2 DLOCK_RW (lock_memory_new LOCK_MEMORY_SIZE True))"

definition demo_lock :: dlock_server where
  "demo_lock = demo_client\<lparr>sv_client_map := [(5, (new_client 5 7 50 False)\<lparr>ce_lock_map := [(2, 1)]\<rparr>)],
     sv_lock_map := [(2, 1)], sv_lock_desc_map := [([65], 1)], sv_curr_lock_id := 2, sv_lock_num := 1, sv_next_ptr := 2,
     sv_lock_memory := demo_memory,
     sv_locks := (\<lambda>_. None)(1 \<mapsto> \<lparr>le_base = demo_entry, le_lock_dec = [65], le_lease_time_map = [(5, 0)]\<rparr>)\<rparr>"

lemma demo_get_body:
  "get_lock_body_at demo_get 0 = \<lparr>gl_lock_id = 0, gl_lock_type = 1, gl_lease_time = 0, gl_offset = 0, gl_desc_len = 1, gl_desc = [65]\<rparr>"
  by (simp add: get_lock_body_at_def demo_get_def load32_def load_bytes_def DLOCK_GET_LOCK_BODY_LEN_def)

lemma lock_type_1: "lock_type_of_u32 1 = Some DLOCK_RW"
  by (simp add: lock_type_of_u32_def lock_type_of_def)

lemma demo_find: "find_available_lock_id 0 demo_client = (demo_client\<lparr>sv_curr_lock_id := 2\<rparr>, Some 2)"
  by (simp add: find_available_lock_id_def find_id.simps demo_client_def init_as_primary_def)

lemma demo_new: "lock_entry_s_new 2 DLOCK_RW (lock_memory_new 1228800 True) = (demo_memory, demo_entry)"
  by (simp add: lock_entry_s_new_def get_lock_memory_def lock_memory_new_def demo_entry_def demo_memory_def)

lemma demo_get_lock:
  "get_lock_by_msg \<lparr>new_desc = True, calloc_desc = True, new_entry = True\<rparr> (get_lock_body_at demo_get 0) demo_client =
    Some (add_lock 2 [65] demo_entry (demo_client\<lparr>sv_curr_lock_id := 2, sv_lock_memory := demo_memory\<rparr>),
      (get_lock_body_at demo_get 0)\<lparr>gl_lock_id := 2\<rparr>, Some 1)"
proof -
  have c: "sv_lock_desc_map demo_client = []" "sv_lock_num demo_client = 0" "sv_is_primary demo_client" "sv_next_ptr demo_client = 1"
    "sv_lock_memory demo_client = lock_memory_new 1228800 True"
    by (simp_all add: demo_client_def init_as_primary_def)
  show ?thesis
    by (simp add: get_lock_by_msg_def demo_get_body lock_type_1 descriptor_init_def MAX_LOCK_DESC_LEN_def c demo_find demo_new
        MAX_NUM_LOCK_def Let_def) (simp add: demo_entry_def UINT_MAX_def)
qed

lemma demo_get_do:
  "get_lock_do demo_env 7 (demo_hdr GET_LOCK_REQUEST 37 5) (Some demo_get) demo_client =
    Some (demo_lock, [\<lparr>rp_conn = 7, rp_type = GET_LOCK_RESPONSE, rp_message_id = 9, rp_status = R_done,
      rp_body = load_bytes (store32 (store32 demo_get 0 2) 12 0) 0 20\<rparr>], R_done)"
proof -
  let ?h = "demo_hdr GET_LOCK_REQUEST 37 5"
  have b: "\<not> check_msg_body_len_invalid ?h 21" "h_client_id ?h = 5"
    "e_mem demo_env 0 = \<lparr>new_desc = True, calloc_desc = True, new_entry = True\<rparr>"
    "map_of (sv_client_map demo_client) 5 = Some (new_client 5 7 50 False)"
    by (simp_all add: ctl_eval demo_client_def)
  have l: "link_lock 5 2 1 0 (add_lock 2 [65] demo_entry (demo_client\<lparr>sv_curr_lock_id := 2, sv_lock_memory := demo_memory\<rparr>)) = demo_lock"
    by (simp add: link_lock_def add_lock_def demo_lock_def demo_client_def upd_client_def init_as_primary_def um_insert_def
        um_erase_def um_update_def new_client_def)
  show ?thesis
    by (simp add: get_lock_do_def b demo_get_lock[unfolded demo_get_body] demo_get_body DLOCK_GET_LOCK_BODY_LEN_def new_client_def
        get_lock_reply_def l[simplified] put_get_lock_body_def) (simp add: ctl_eval demo_lock_def demo_client_def load_bytes_def)
qed

lemma demo_lock_step:
  "process_control_msg demo_env 7 (demo_hdr GET_LOCK_REQUEST 37 5) (Some demo_get) demo_client =
    Some (demo_lock, [\<lparr>rp_conn = 7, rp_type = GET_LOCK_RESPONSE, rp_message_id = 9, rp_status = R_done,
      rp_body = load_bytes (store32 (store32 demo_get 0 2) 12 0) 0 20\<rparr>], R_done)"
  by (intro demo_hdr_ok[where f = get_lock_do, OF _ _ _ _ _ _ _ _ demo_get_do])
    (simp_all add: demo_client_def init_as_primary_def init_primary_server_state_def g_control_do_def um_ok_def)

lemma demo_lock_run: "ctl_step\<^sup>*\<^sup>* (init_as_primary 0) demo_lock"
  using demo_client_run ctl_step.message[OF demo_lock_step] by simp

subsection \<open>The lock table\<close>

lemma ctl_reachable:
  assumes "ctl_step\<^sup>*\<^sup>* (init_as_primary n) s"
  shows "lock_ok {} s" "object_ok s"
  using ctl.inv_reachable[OF _ assms] by (auto simp: ctl_init_def ctl_ok_def)

lemma live_disjoint:
  assumes ok: "lock_ok X s" and "sv_locks s p = Some e" "sv_locks s q = Some f" "p \<noteq> q"
  shows "entry_range (le_base e) \<inter> entry_range (le_base f) = {}"
proof -
  have P: "\<exists>i < length (sv_lock_map s). snd (sv_lock_map s ! i) = p" if "sv_locks s p = Some e" for p e
    using lock_okD(7)[OF ok that, THEN map_of_SomeD] by (fastforce simp: in_set_conv_nth)
  obtain i j where ij: "i < length (sv_lock_map s)" "snd (sv_lock_map s ! i) = p" "j < length (sv_lock_map s)" "snd (sv_lock_map s ! j) = q"
    using P[OF assms(2)] P[OF assms(3)] by blast
  have "i \<noteq> j" using ij assms(4) by auto
  moreover have "\<forall>i < length (sv_lock_map s). \<forall>j < i. entry_range (bases s ! i) \<inter> entry_range (bases s ! j) = {}"
    using lock_okD(5)[OF ok] unfolding heap_ok_def heap_part_iff by simp
  ultimately have "entry_range (bases s ! i) \<inter> entry_range (bases s ! j) = {}"
    using ij by (cases "i < j") (force simp: Int_commute[of "entry_range (bases s ! i)"], force)
  then show ?thesis using ij assms(2,3) by simp
qed

lemma live_inside:
  assumes ok: "lock_ok X s" and p: "sv_locks s p = Some e"
  shows "entry_range (le_base e) \<subseteq> {0 ..< LOCK_MEMORY_SIZE}"
proof -
  have "le_base e \<in> set (bases s)" using lock_okD(7)[OF ok p, THEN map_of_SomeD] p by force
  then show ?thesis using lock_okD(5)[OF ok] unfolding heap_ok_def heap_part_iff fst_conv snd_conv by blast
qed

text \<open>A pointer map that names every live entry once has as many elements as there are live entries.\<close>

lemma live_count:
  assumes "um_ok m" "\<And>i p. map_of m i = Some p \<Longrightarrow> \<exists>e. store p = Some e \<and> key e = i"
    "\<And>p e. store p = Some e \<Longrightarrow> map_of m (key e) = Some p"
  shows "card {p. store p \<noteq> None} = length m"
proof -
  have I: "map_of m i = Some p \<longleftrightarrow> (i, p) \<in> set m" for i p
    using assms(1) by (simp add: um_ok_def)
  have "{p. store p \<noteq> None} = snd ` set m"
  proof (intro equalityI subsetI)
    fix p assume "p \<in> {p. store p \<noteq> None}"
    then obtain e where "store p = Some e" by auto
    then have "(key e, p) \<in> set m" using assms(3) I by blast
    then show "p \<in> snd ` set m" by force
  next
    fix p assume "p \<in> snd ` set m"
    then obtain i where "(i, p) \<in> set m" by force
    then show "p \<in> {p. store p \<noteq> None}" using assms(2) I by fastforce
  qed
  moreover have "inj_on snd (set m)"
  proof (rule inj_onI)
    fix x y assume xy: "x \<in> set m" "y \<in> set m" "snd x = snd y"
    then have "map_of m (fst x) = Some (snd x)" "map_of m (fst y) = Some (snd x)"
      using I[of "fst x" "snd x"] I[of "fst y" "snd y"] by (metis prod.collapse)+
    then show "x = y" using assms(2)[of "fst x" "snd x"] assms(2)[of "fst y" "snd x"] xy(3) by (auto intro: prod_eqI)
  qed
  moreover have "card (set m) = length m" using assms(1) by (metis distinct_card distinct_map um_ok_def)
  ultimately show ?thesis by (simp add: card_image)
qed

text \<open>
  Property C24.  In every state that a primary server reaches, whatever messages and commands arrive and
  whatever the environment does: a pointer in the lock map of a client leads to a live lock that
  carries this id and has the client in its lease map; every live lock has a user and is found in the two maps of the
  server; different live locks differ in id and descriptor and occupy disjoint bytes inside the lock memory;
  and \<open>m_lock_num\<close> is the number of live locks.
\<close>

theorem lock_table_consistent:
  assumes run: "ctl_step\<^sup>*\<^sup>* (init_as_primary n) s"
  shows "(\<forall>c ce i p. map_of (sv_client_map s) c = Some ce \<longrightarrow> map_of (ce_lock_map ce) i = Some p \<longrightarrow>
      map_of (sv_lock_map s) i = Some p \<and> (\<exists>e. sv_locks s p = Some e \<and> es_lock_id (le_base e) = i \<and> map_of (le_lease_time_map e) c \<noteq> None))
    \<and> (\<forall>p e. sv_locks s p = Some e \<longrightarrow> le_lease_time_map e \<noteq> [] \<and> map_of (sv_lock_map s) (es_lock_id (le_base e)) = Some p \<and>
      map_of (sv_lock_desc_map s) (le_lock_dec e) = Some p \<and> entry_range (le_base e) \<subseteq> {0 ..< LOCK_MEMORY_SIZE})
    \<and> (\<forall>p e q f. sv_locks s p = Some e \<longrightarrow> sv_locks s q = Some f \<longrightarrow> p \<noteq> q \<longrightarrow>
      es_lock_id (le_base e) \<noteq> es_lock_id (le_base f) \<and> le_lock_dec e \<noteq> le_lock_dec f \<and>
      entry_range (le_base e) \<inter> entry_range (le_base f) = {})
    \<and> sv_lock_num s = int (card {p. sv_locks s p \<noteq> None})"
    (is "?A \<and> ?B \<and> ?C \<and> ?D")
proof (intro conjI)
  note L = ctl_reachable(1)[OF run]
  show ?A using lock_okD(14)[OF L] lock_okD(7)[OF L] by blast
  show ?B using lock_okD(7,8,11)[OF L] live_inside[OF L] by blast
  show ?C using lock_id_inj[OF L] lock_dec_inj[OF L] live_disjoint[OF L] by blast
  show ?D using live_count[of "sv_lock_map s" "sv_locks s" "\<lambda>e. es_lock_id (le_base e)"] lock_okD(1,4,6,7)[OF L] by simp
qed

theorem lock_table_consistent_witness:
  "ctl_step\<^sup>*\<^sup>* (init_as_primary 0) demo_lock \<and> map_of (sv_lock_map demo_lock) 2 = Some 1 \<and>
    (\<exists>e. sv_locks demo_lock 1 = Some e \<and> es_lock_id (le_base e) = 2 \<and> map_of (le_lease_time_map e) 5 \<noteq> None)"
proof -
  have "map_of (sv_client_map demo_lock) 5 = Some ((new_client 5 7 50 False)\<lparr>ce_lock_map := [(2, 1)]\<rparr>)"
    by (simp add: demo_lock_def)
  from lock_table_consistent[OF demo_lock_run, THEN conjunct1, rule_format, OF this, of 2 1] show ?thesis
    using demo_lock_run by simp
qed


subsection \<open>The object table\<close>

text \<open>The client creates an object with descriptor 66 and gets it.\<close>

definition demo_create :: bmem where
  "demo_create = (\<lambda>_. 0)(16 := 9, 24 := 60, 28 := 1, 32 := 66)"

definition demo_oget :: bmem where
  "demo_oget = (\<lambda>_. 0)(16 := 90, 20 := 1, 24 := 66)"

definition demo_created :: dlock_server where
  "demo_created = demo_client\<lparr>sv_object_map := [(2, 1)], sv_object_desc_map := [([66], 1)], sv_curr_object_id := 2,
     sv_curr_object_num := 1, sv_next_ptr := 2,
     sv_object_memory := object_memory_set 0 9 (fst (alloc_object_memory (object_memory_init OBJECT_MAX_NUMBER))),
     sv_objects := (\<lambda>_. None)(1 \<mapsto> (new_object [66] 2 5 0)\<lparr>oe_max_lease_tp := 60000000000, oe_lease_tp_map := [(5, 60000000000)]\<rparr>)\<rparr>"

definition demo_object :: dlock_server where
  "demo_object = demo_created\<lparr>sv_client_map := [(5, (new_client 5 7 50 False)\<lparr>ce_object_map := [(2, 1)]\<rparr>)],
     sv_objects := (\<lambda>_. None)(1 \<mapsto> (new_object [66] 2 5 0)\<lparr>oe_refcnt := 1, oe_max_lease_tp := 90000000000,
       oe_lease_tp_map := [(5, 90000000000)]\<rparr>)\<rparr>"


lemma demo_create_body:
  "object_create_body_at demo_create = \<lparr>ob_obj_id = 0, ob_body_offset = 0, ob_init_value = 9, ob_lease_time = 60, ob_desc_len = 1,
     ob_body_desc = [66]\<rparr>"
  by (simp add: object_create_body_at_def demo_create_def load32_def load64_def load_bytes_def DLOCK_OBJECT_CREATE_BODY_LEN_def)

lemma demo_oget_body:
  "object_get_body_at demo_oget = \<lparr>ob_obj_id = 0, ob_body_offset = 0, ob_init_value = 0, ob_lease_time = 90, ob_desc_len = 1,
     ob_body_desc = [66]\<rparr>"
  by (simp add: object_get_body_at_def demo_oget_def load32_def load64_def load_bytes_def DLOCK_OBJECT_GET_BODY_LEN_def)

lemma demo_created_step:
  "\<exists>rs. process_control_msg demo_env 7 (demo_hdr OBJECT_CREATE_REQUEST 49 5) (Some demo_create) demo_client = Some (demo_created, rs, R_done)"
proof -
  let ?h = "demo_hdr OBJECT_CREATE_REQUEST 49 5"
  have b: "\<not> check_msg_body_len_invalid ?h 33" "h_client_id ?h = 5"
    "e_mem demo_env i = \<lparr>new_desc = True, calloc_desc = True, new_entry = True\<rparr>" "e_now demo_env = 0"
    "map_of (sv_client_map demo_client) 5 = Some (new_client 5 7 50 False)"
    "sv_object_desc_map demo_client = []" "sv_curr_object_num demo_client = 0" "sv_is_primary demo_client" for i
    by (simp_all add: ctl_eval demo_client_def)
  have f: "find_available_object_id 0 demo_client = (demo_client\<lparr>sv_curr_object_id := 2\<rparr>, Some 2)"
    by (simp add: find_available_object_id_def find_id.simps demo_client_def init_as_primary_def)
  define m where "m = fst (alloc_object_memory (object_memory_init OBJECT_MAX_NUMBER))"
  have a: "alloc_object_memory (sv_object_memory demo_client) = (m, 0)"
    by (simp add: m_def demo_client_def init_as_primary_def alloc_object_memory_def object_memory_init_def NO_OBJECT_def)
  have n: "sv_next_ptr (demo_client\<lparr>sv_curr_object_id := 2\<rparr>) = 1" "INVALID_OFFSET \<noteq> 0" "ce_p_conn (new_client 5 7 50 False) = Some 7"
    by (simp_all add: demo_client_def init_as_primary_def new_client_def INVALID_OFFSET_def)
  define t where "t = add_object 2 (new_object [66] 2 5 0) 9 (demo_client\<lparr>sv_curr_object_id := 2, sv_object_memory := m\<rparr>)"
  have l: "(upd_object 1 (\<lambda>e. e\<lparr>oe_max_lease_tp := lease_end demo_env 60, oe_lease_tp_map := [(5, lease_end demo_env 60)]\<rparr>) t)
      \<lparr>sv_curr_object_num := sv_curr_object_num t + 1\<rparr> = demo_created"
    by (simp add: t_def m_def upd_object_def add_object_def lease_end_def demo_created_def demo_client_def init_as_primary_def um_insert_def
        um_erase_def b new_object_def)
  have r: "\<exists>rs. object_reply demo_env (Some 7) ty k c demo_created = Some (demo_created, rs, R_done)" if "k < 100" for ty k c
    using that by (simp add: object_reply_def ctl_eval demo_created_def demo_client_def load_bytes_def)
  have "\<exists>rs. create_object_do demo_env 7 ?h (Some demo_create) demo_client = Some (demo_created, rs, R_done)"
    by (simp add: create_object_do_def b demo_create_body DLOCK_OBJECT_CREATE_BODY_LEN_def descriptor_init_def MAX_LOCK_DESC_LEN_def
        MAX_OBJECT_SIZE_def create_object_by_msg_def f a n Let_def t_def[symmetric] l[simplified] r)
  then show ?thesis
    by (elim ex_forward) (intro demo_hdr_ok[where f = create_object_do];
      simp add: demo_client_def init_as_primary_def init_primary_server_state_def g_control_do_def um_ok_def)
qed


lemma demo_object_step:
  "\<exists>rs. process_control_msg demo_env 7 (demo_hdr OBJECT_GET_REQUEST 41 5) (Some demo_oget) demo_created = Some (demo_object, rs, R_done)"
proof -
  let ?h = "demo_hdr OBJECT_GET_REQUEST 41 5"
  let ?e = "(new_object [66] 2 5 0)\<lparr>oe_max_lease_tp := 60000000000, oe_lease_tp_map := [(5, 60000000000)]\<rparr>"
  have b: "\<not> check_msg_body_len_invalid ?h 25" "h_client_id ?h = 5"
    "e_mem demo_env i = \<lparr>new_desc = True, calloc_desc = True, new_entry = True\<rparr>" "e_now demo_env = 0"
    "map_of (sv_client_map demo_created) 5 = Some (new_client 5 7 50 False)"
    "sv_object_desc_map demo_created = [([66], 1)]" "sv_objects demo_created 1 = Some ?e"
    "ce_object_map (new_client 5 7 50 False) = []" "ce_p_conn (new_client 5 7 50 False) = Some 7" for i
    by (simp_all add: ctl_eval demo_created_def demo_client_def new_client_def)
  have l: "upd_object 1 (extend_lease 5 (lease_end demo_env 90)) (upd_client 5 (\<lambda>x. x\<lparr>ce_object_map := um_insert 2 1 (ce_object_map x)\<rparr>)
      (upd_object 1 (\<lambda>e. e\<lparr>oe_refcnt := oe_refcnt e + 1\<rparr>) demo_created)) = demo_object"
    by (simp add: upd_object_def upd_client_def demo_object_def demo_created_def demo_client_def extend_lease_def lease_end_def b
        um_insert_def um_erase_def um_update_def new_object_def new_client_def)
  have r: "\<exists>rs. object_reply demo_env (Some 7) ty k c demo_object = Some (demo_object, rs, R_done)" if "k < 100" for ty k c
    using that by (simp add: object_reply_def ctl_eval demo_object_def demo_created_def demo_client_def load_bytes_def)
  have e: "oe_id ?e = 2" "\<not> oe_destroyed ?e" "oe_offset ?e = 0" by (simp_all add: new_object_def)
  have "\<exists>rs. get_object_do demo_env 7 ?h (Some demo_oget) demo_created = Some (demo_object, rs, R_done)"
    by (simp add: get_object_do_def b demo_oget_body DLOCK_OBJECT_GET_BODY_LEN_def descriptor_init_def MAX_LOCK_DESC_LEN_def
        e[simplified] b(7)[simplified] Let_def l[simplified] r)
  then show ?thesis
    by (elim ex_forward) (intro demo_hdr_ok[where f = get_object_do];
      simp add: demo_created_def demo_client_def init_as_primary_def init_primary_server_state_def g_control_do_def um_ok_def)
qed

lemma demo_object_run: "ctl_step\<^sup>*\<^sup>* (init_as_primary 0) demo_object"
proof -
  have "ctl_step demo_client demo_created" using demo_created_step by (blast intro: ctl_step.message)
  moreover have "ctl_step demo_created demo_object" using demo_object_step by (blast intro: ctl_step.message)
  ultimately show ?thesis using demo_client_run by (meson rtranclp.rtrancl_into_rtrancl)
qed

text \<open>
  Property C25.  In every state that a primary server reaches: the object pointers of the clients lead to live objects; every live
  object is found in both maps of the server, its reference count is at least the number of clients that hold it, and
  its offset is that of a cell of the object memory; different live objects differ in id, descriptor and
  offset; the cells of the live objects and the free list are disjoint and make up all \<open>OBJECT_MAX_NUMBER\<close>
  cells; and \<open>m_curr_object_num\<close> is the number of live objects.
\<close>

theorem object_table_consistent:
  assumes run: "ctl_step\<^sup>*\<^sup>* (init_as_primary n) s"
  shows "(\<forall>c ce i p. map_of (sv_client_map s) c = Some ce \<longrightarrow> map_of (ce_object_map ce) i = Some p \<longrightarrow>
      map_of (sv_object_map s) i = Some p \<and> (\<exists>e. sv_objects s p = Some e \<and> oe_id e = i))
    \<and> (\<forall>p e. sv_objects s p = Some e \<longrightarrow> map_of (sv_object_map s) (oe_id e) = Some p \<and> map_of (sv_object_desc_map s) (oe_desc e) = Some p \<and>
      int (card {c. \<exists>ce. map_of (sv_client_map s) c = Some ce \<and> map_of (ce_object_map ce) (oe_id e) \<noteq> None}) \<le> oe_refcnt e \<and>
      8 dvd oe_offset e \<and> oe_offset e < 8 * OBJECT_MAX_NUMBER)
    \<and> (\<forall>p e q f. sv_objects s p = Some e \<longrightarrow> sv_objects s q = Some f \<longrightarrow> p \<noteq> q \<longrightarrow>
      oe_id e \<noteq> oe_id f \<and> oe_desc e \<noteq> oe_desc f \<and> oe_offset e \<noteq> oe_offset f)
    \<and> (\<exists>xs. free_chain (om_ctrl (sv_object_memory s)) (om_next_free (sv_object_memory s)) xs \<and> distinct xs \<and>
      set xs \<inter> {k. \<exists>p e. sv_objects s p = Some e \<and> oe_offset e = k * 8} = {} \<and>
      set xs \<union> {k. \<exists>p e. sv_objects s p = Some e \<and> oe_offset e = k * 8} = {0 ..< OBJECT_MAX_NUMBER})
    \<and> sv_curr_object_num s = int (card {p. sv_objects s p \<noteq> None})"
    (is "?A \<and> ?B \<and> ?C \<and> ?D \<and> ?E")
proof -
  note O = ctl_reachable(2)[OF run]
  note M = object_okD(4)[OF O, unfolded memory_ok_def cells_def, THEN conjunct2, THEN conjunct2]
  have tot: "om_total (sv_object_memory s) = OBJECT_MAX_NUMBER" using object_okD(4)[OF O] unfolding memory_ok_def by blast
  have D: ?D using object_okD(4)[OF O, unfolded memory_ok_def cells_def tot] by (rule conjunct1)
  have ?A using object_okD(5,12)[OF O] by blast
  moreover note D
  moreover have ?B
  proof (intro allI impI conjI)
    fix p e assume p: "sv_objects s p = Some e"
    show "map_of (sv_object_map s) (oe_id e) = Some p" "map_of (sv_object_desc_map s) (oe_desc e) = Some p"
      "int (card {c. \<exists>ce. map_of (sv_client_map s) c = Some ce \<and> map_of (ce_object_map ce) (oe_id e) \<noteq> None}) \<le> oe_refcnt e"
      using object_okD(6,7,9)[OF O p] by (simp_all add: holders_def)
    show d: "8 dvd oe_offset e" using M p by blast
    then obtain k where k: "oe_offset e = k * 8" by (auto simp: dvd_def mult.commute)
    then have "k \<in> {0 ..< OBJECT_MAX_NUMBER}" using D p by blast
    with k show "oe_offset e < 8 * OBJECT_MAX_NUMBER" by simp
  qed
  moreover have ?C using object_inj[OF O] M by blast
  moreover have ?E using live_count[of "sv_object_map s" "sv_objects s" oe_id] object_okD(1,3,5,6)[OF O] by simp
  ultimately show ?thesis by simp
qed

theorem object_table_consistent_witness:
  "ctl_step\<^sup>*\<^sup>* (init_as_primary 0) demo_object \<and> map_of (sv_object_map demo_object) 2 = Some 1 \<and>
    (\<exists>e. sv_objects demo_object 1 = Some e \<and> oe_id e = 2)"
proof -
  have "map_of (sv_client_map demo_object) 5 = Some ((new_client 5 7 50 False)\<lparr>ce_object_map := [(2, 1)]\<rparr>)"
    by (simp add: demo_object_def)
  from object_table_consistent[OF demo_object_run, THEN conjunct1, rule_format, OF this, of 2 1] show ?thesis
    using demo_object_run by simp
qed

end
