(* ===== verification/DLock_ControlSafety.thy ===== *)
theory DLock_ControlSafety
  imports DLock_ControlProps
begin

section \<open>What the control messages guarantee\<close>

text \<open>
  Acquiring and releasing a lock, the search for a free id, the requests that cannot crash the server, the lifetime of an object
  under a lease, and the requests after which the server is left in a bad state.
\<close>

subsection \<open>Acquiring a lock\<close>

lemma descriptor_init_desc: "descriptor_init me len buf = Inr d \<Longrightarrow> d = buf"
  by (auto simp: descriptor_init_def split: if_splits)

lemma get_new_lock:
  assumes ok: "lock_ok X s" and new: "map_of (sv_lock_desc_map s) (gl_desc g) = None"
    and q: "get_lock_by_msg me g s = Some (s1, g1, Some p)"
  obtains i j t mem e where "s1 = add_lock i (gl_desc g) e (s\<lparr>sv_curr_lock_id := j, sv_lock_memory := mem\<rparr>)"
    "lock_entry_s_new i t (sv_lock_memory s) = (mem, e)" "es_lock_offset e \<noteq> UINT_MAX" "lock_type_of_u32 (gl_lock_type g) = Some t"
    "map_of (sv_lock_map s) i = None" "p = sv_next_ptr s" "g1 = g\<lparr>gl_lock_id := i, gl_offset := of_nat (es_lock_offset e)\<rparr>"
proof -
  obtain s0 f where f: "find_available_lock_id (gl_lock_id g) s = (s0, f)" by fastforce
  obtain j where s0: "s0 = s\<lparr>sv_curr_lock_id := j\<rparr>" using find_available_lock_id_spec(1)[OF f] by blast
  from q obtain t where t: "lock_type_of_u32 (gl_lock_type g) = Some t" by (cases "lock_type_of_u32 (gl_lock_type g)") (auto simp: get_lock_by_msg_def)
  from q t obtain d where d: "new_desc me" "descriptor_init me (gl_desc_len g) (gl_desc g) = Inr d"
    by (auto simp: get_lock_by_msg_def Let_def split: if_splits sum.splits)
  then have d': "d = gl_desc g" by (simp add: descriptor_init_desc)
  note q' = q[unfolded get_lock_by_msg_def Let_def, simplified t d, simplified, simplified d' new, simplified, simplified lock_okD(2)[OF ok] f,
      simplified]
  from q' obtain i where i: "f = Some i" by (auto split: option.splits if_splits)
  obtain mem e where e: "lock_entry_s_new i t (sv_lock_memory s) = (mem, e)" by fastforce
  have "map_of (sv_lock_map s) i = None" using find_available_lock_id_spec(2)[OF f i] by simp
  then show thesis using q' e i s0 t by (intro that[of i e mem j t]) (auto split: if_splits)
qed

lemma get_lock_by_msg_found:
  assumes ok: "lock_ok X s" and q: "get_lock_by_msg me g s = Some (s1, g1, Some p)"
  obtains e where "sv_locks s1 p = Some e" "le_lock_dec e = gl_desc g"
    "lock_type_of_u32 (gl_lock_type g) = Some (es_lock_type (le_base e))"
    "g1 = g\<lparr>gl_lock_id := es_lock_id (le_base e), gl_offset := of_nat (es_lock_offset (le_base e))\<rparr>"
    "\<And>q. q \<noteq> p \<Longrightarrow> sv_locks s1 q = sv_locks s q"
proof (cases "map_of (sv_lock_desc_map s) (gl_desc g)")
  case None
  from get_new_lock[OF ok None q] obtain i j t mem e where
    N: "s1 = add_lock i (gl_desc g) e (s\<lparr>sv_curr_lock_id := j, sv_lock_memory := mem\<rparr>)" "lock_entry_s_new i t (sv_lock_memory s) = (mem, e)"
    "lock_type_of_u32 (gl_lock_type g) = Some t" "p = sv_next_ptr s" "g1 = g\<lparr>gl_lock_id := i, gl_offset := of_nat (es_lock_offset e)\<rparr>"
    by metis
  with entry_new_props[OF N(2)] show thesis
    by (intro that[of "\<lparr>le_base = e, le_lock_dec = gl_desc g, le_lease_time_map = []\<rparr>"]) (simp_all add: add_lock_def)
next
  case (Some p')
  from lock_okD(12)[OF ok Some] obtain e where e: "sv_locks s p' = Some e" "le_lock_dec e = gl_desc g" by blast
  have r: "s1 = s" "p' = p" "lock_type_of_u32 (gl_lock_type g) = Some (es_lock_type (le_base e))"
      "g1 = g\<lparr>gl_lock_id := es_lock_id (le_base e), gl_offset := of_nat (es_lock_offset (le_base e))\<rparr>"
    using q Some e descriptor_init_desc[of me "gl_desc_len g" "gl_desc g"]
    by (auto simp: get_lock_by_msg_def Let_def split: option.splits if_splits sum.splits)
  with e show thesis by (intro that[of e]) auto
qed

text \<open>
  Property C28.  A request for a lock that succeeds ends with a live lock of the requested descriptor and
  type that names the client in its lease map and that the client holds; the reply goes to the client's connection and carries the id
  and the offset of this lock; the other locks are not touched.  (By the consistency of the lock
  table no other live lock has this descriptor, this id or any of these bytes.)
\<close>

theorem get_lock_outcome:
  assumes run: "ctl_step\<^sup>*\<^sup>* (init_as_primary n) s" and g: "get_lock_do E k h (Some b) s = Some (t, rs, R_done)"
  shows "\<exists>p e ce q m. sv_locks t p = Some e \<and> le_lock_dec e = gl_desc (get_lock_body_at b 0) \<and>
    lock_type_of_u32 (gl_lock_type (get_lock_body_at b 0)) = Some (es_lock_type (le_base e)) \<and>
    map_of (le_lease_time_map e) (h_client_id h) \<noteq> None \<and>
    map_of (sv_client_map t) (h_client_id h) = Some ce \<and> map_of (ce_lock_map ce) (es_lock_id (le_base e)) = Some p \<and> ce_p_conn ce = Some q \<and>
    rs = [\<lparr>rp_conn = q, rp_type = GET_LOCK_RESPONSE, rp_message_id = m, rp_status = R_done,
      rp_body = load_bytes (store32 (store32 b 0 (es_lock_id (le_base e))) 12 (of_nat (es_lock_offset (le_base e)))) 0 DLOCK_GET_LOCK_BODY_LEN\<rparr>] \<and>
    (\<forall>r. r \<noteq> p \<longrightarrow> sv_locks t r = sv_locks s r)"
proof -
  let ?c = "h_client_id h" and ?g = "get_lock_body_at b 0"
  have ok: "ctl_ok s" using ctl_reachable[OF run] by (simp add: ctl_ok_def)
  have L: "lock_ok {} s" and Lt: "lock_ok {} t" using ok get_lock_do_ok[OF ok g] by (simp_all add: ctl_ok_def)
  from g obtain ce where ce: "map_of (sv_client_map s) ?c = Some ce" by (auto simp: get_lock_do_def fail_def Let_def split: if_splits option.splits)
  obtain s1 g1 r where q: "get_lock_by_msg (e_mem E 0) ?g s = Some (s1, g1, r)" "lock_found {} s s1 (gl_lock_id g1) r"
    using get_lock_by_msg_ok[OF L] by blast
  from g ce q(1) obtain p where p: "r = Some p"
    by (auto simp: get_lock_do_def fail_def Let_def split: if_splits option.splits)
  obtain e where e: "sv_locks s1 p = Some e" "le_lock_dec e = gl_desc ?g" "lock_type_of_u32 (gl_lock_type ?g) = Some (es_lock_type (le_base e))"
    "g1 = ?g\<lparr>gl_lock_id := es_lock_id (le_base e), gl_offset := of_nat (es_lock_offset (le_base e))\<rparr>"
    "\<And>q. q \<noteq> p \<Longrightarrow> sv_locks s1 q = sv_locks s q"
    by (rule get_lock_by_msg_found[OF L q(1)[unfolded p]]) blast
  let ?i = "es_lock_id (le_base e)"
  let ?s2 = "if map_of (ce_lock_map ce) ?i \<noteq> None then s1 else link_lock ?c ?i p (gl_lease_time g1) s1"
  have rep: "get_lock_reply E (ce_p_conn ce) b g1 ?s2 = Some (t, rs, R_done)"
    using g ce q(1) p e(4) by (simp add: get_lock_do_def fail_def Let_def split: if_splits)
  then have t: "t = ?s2" by (auto simp: get_lock_reply_def dest: send_reply_state)
  obtain q m where conn: "ce_p_conn ce = Some q" "rs = [\<lparr>rp_conn = q, rp_type = GET_LOCK_RESPONSE, rp_message_id = m, rp_status = R_done,
      rp_body = load_bytes (put_get_lock_body b 0 g1) 0 DLOCK_GET_LOCK_BODY_LEN\<rparr>]"
    using rep by (auto simp: get_lock_reply_def send_reply_def fail_def bind_eq_Some_conv split: if_splits)
  have cm: "sv_client_map s1 = sv_client_map s" using q(2) by (simp add: lock_found_def)
  obtain e' ce' where E: "sv_locks t p = Some e'" "le_base e' = le_base e" "le_lock_dec e' = le_lock_dec e"
      "map_of (sv_client_map t) ?c = Some ce'" "map_of (ce_lock_map ce') ?i = Some p" "ce_p_conn ce' = ce_p_conn ce"
      "\<And>r. r \<noteq> p \<Longrightarrow> sv_locks t r = sv_locks s r"
  proof (cases "map_of (ce_lock_map ce) ?i")
    case None
    with t ce cm e(1,5) show thesis
      by (intro that[of "e\<lparr>le_lease_time_map := um_insert ?c (gl_lease_time g1) (le_lease_time_map e)\<rparr>"
          "ce\<lparr>ce_lock_map := um_insert ?i p (ce_lock_map ce)\<rparr>"]) (simp_all add: link_lock_def upd_client_def)
  next
    case (Some p')
    with t have t1: "t = s1" by simp
    from lock_okD(14)[OF Lt, of ?c ce] ce cm Some t1 obtain f where "sv_locks s1 p' = Some f" "es_lock_id (le_base f) = ?i" by auto
    with lock_id_inj[OF Lt, of p' f p e] e(1) t1 have "p' = p" by simp
    with Some t1 ce cm e(1,5) show thesis by (intro that[of e ce]) simp_all
  qed
  have "map_of (le_lease_time_map e') ?c \<noteq> None" using lock_okD(14)[OF Lt E(4,5)] E(1) by auto
  with E e(2,3) conn show ?thesis
    by (intro exI[of _ p] exI[of _ e'] exI[of _ ce'] exI[of _ q] exI[of _ m]) (simp add: e(4) put_get_lock_body_def)
qed

theorem get_lock_outcome_witness:
  "\<exists>p e. sv_locks demo_lock p = Some e \<and> le_lock_dec e = [65] \<and> map_of (le_lease_time_map e) 5 \<noteq> None"
  using get_lock_outcome[OF demo_client_run demo_get_do]
  unfolding demo_get_body demo_hdr_def dlock_control_hdr.simps get_lock_body.simps by blast

subsection \<open>Releasing a lock\<close>

lemma um_erase_insert [simp]: "um_erase k (um_insert k v m) = um_erase k m"
  by (simp add: um_erase_def um_insert_def)

text \<open>Creating a lock, linking it to its first client, and the release by this client.\<close>

lemma release_first_lock:
  assumes ok: "lock_ok {} s" and ce: "map_of (sv_client_map s) c = Some ce"
    and new: "map_of (sv_lock_map s) i = None" "map_of (sv_lock_desc_map s) d = None"
    and e: "lock_entry_s_new i ty (sv_lock_memory s) = (mem, e)" "es_lock_offset e \<noteq> UINT_MAX"
    and t: "t = link_lock c i (sv_next_ptr s) l (add_lock i d e (s\<lparr>sv_curr_lock_id := j, sv_lock_memory := mem\<rparr>))"
    and u: "release_lock_map_entry i (sv_next_ptr s) c t = Some u"
  shows "\<exists>m M. drop_client_lock c i u = s\<lparr>sv_curr_lock_id := j, sv_next_ptr := sv_next_ptr s + 1, sv_lock_memory := m, sv_client_map := M\<rparr> \<and>
    m_free_memory_map m = m_free_memory_map (sv_lock_memory s) \<and> map_of M = map_of (sv_client_map s)"
proof -
  let ?p = "sv_next_ptr s" and ?m = "lock_entry_s_delete e mem"
  let ?M = "um_update c (\<lambda>e. e\<lparr>ce_lock_map := um_erase i (ce_lock_map e)\<rparr>)
    (um_update c (\<lambda>e. e\<lparr>ce_lock_map := um_insert i ?p (ce_lock_map e)\<rparr>) (sv_client_map s))"
  have p: "sv_locks s ?p = None" by (rule lock_ok_fresh[OF ok])
  then have locks: "(sv_locks s)(?p := None) = sv_locks s" by auto
  have n: "0 \<le> sv_lock_num s" using lock_okD(4)[OF ok] by simp
  have i: "map_of (ce_lock_map ce) i = None"
  proof (rule ccontr)
    assume "map_of (ce_lock_map ce) i \<noteq> None"
    then obtain p where "map_of (ce_lock_map ce) i = Some p" by auto
    from lock_okD(14)[OF ok ce this] obtain f where "sv_locks s p = Some f" "es_lock_id (le_base f) = i" by blast
    from lock_okD(7)[OF ok this(1)] this(2) new(1) show False by simp
  qed
  have "drop_client_lock c i u = s\<lparr>sv_curr_lock_id := j, sv_next_ptr := ?p + 1, sv_lock_memory := ?m, sv_client_map := ?M\<rparr>"
    using u new n locks unfolding t
    by (simp add: release_lock_map_entry_def link_lock_def add_lock_def upd_client_def um_insert_def[of c l "[]"] um_erase_def[of c]
        lock_entry_release_def drop_client_lock_def) auto
  moreover have "m_free_memory_map ?m = m_free_memory_map (sv_lock_memory s)"
  proof -
    have lm: "lm_ok LOCK_MEMORY_SIZE (sv_lock_memory s)" using lock_okD(5)[OF ok] by (simp add: heap_ok_def)
    from e(1) have g: "get_lock_memory ty (sv_lock_memory s) = (mem, es_lock_offset e)" "es_lock_type e = ty"
      by (auto simp: lock_entry_s_new_def split: prod.splits)
    from get_release_free_map[OF lm g(1) e(2)] g(2) e(2) show ?thesis by (simp add: lock_entry_s_delete_def)
  qed
  moreover have "map_of ?M = map_of (sv_client_map s)" using ce i by (auto simp: fun_eq_iff)
  ultimately show ?thesis by blast
qed

text \<open>
  Property C29.  Releasing a lock that the client has just created undoes the creation: with the id
  from the reply, the state is the one before, except for the id counter, the addresses used, the contents of the lock memory
  outside the allocator, and the order of the client map; in particular the free map of the lock memory is the same list.
\<close>

theorem get_release_roundtrip:
  assumes run: "ctl_step\<^sup>*\<^sup>* (init_as_primary n) s"
    and new: "map_of (sv_lock_desc_map s) (gl_desc (get_lock_body_at b 0)) = None"
    and g: "get_lock_do E k h (Some b) s = Some (t, [r], R_done)"
    and rel: "release_lock_do E' k' h' (Some b') t = Some (u, rs', x)" "\<not> check_msg_body_len_invalid h' (of_nat DLOCK_RELEASE_LOCK_BODY_LEN)"
    and same: "h_client_id h' = h_client_id h" "load32 b' 0 = load32 (\<lambda>a. rp_body r ! a) 0"
  shows "\<exists>j p m M. u = s\<lparr>sv_curr_lock_id := j, sv_next_ptr := p, sv_lock_memory := m, sv_client_map := M\<rparr> \<and>
    m_free_memory_map m = m_free_memory_map (sv_lock_memory s) \<and> map_of M = map_of (sv_client_map s)"
proof -
  let ?c = "h_client_id h" and ?g = "get_lock_body_at b 0"
  have ok: "ctl_ok s" using ctl_reachable[OF run] by (simp add: ctl_ok_def)
  have L: "lock_ok {} s" using ok by (simp add: ctl_ok_def)
  from g obtain ce where ce: "map_of (sv_client_map s) ?c = Some ce" by (auto simp: get_lock_do_def fail_def Let_def split: if_splits option.splits)
  obtain s1 g1 q where q: "get_lock_by_msg (e_mem E 0) ?g s = Some (s1, g1, q)"
    using get_lock_by_msg_ok[OF L] by blast
  from g ce q obtain p where p: "q = Some p" by (auto simp: get_lock_do_def fail_def Let_def split: if_splits option.splits)
  from get_new_lock[OF L new q[unfolded p]] obtain i j ty mem e where
    N: "s1 = add_lock i (gl_desc ?g) e (s\<lparr>sv_curr_lock_id := j, sv_lock_memory := mem\<rparr>)" "lock_entry_s_new i ty (sv_lock_memory s) = (mem, e)"
      "es_lock_offset e \<noteq> UINT_MAX" "map_of (sv_lock_map s) i = None" "p = sv_next_ptr s"
      "g1 = ?g\<lparr>gl_lock_id := i, gl_offset := of_nat (es_lock_offset e)\<rparr>"
    by metis
  have i: "map_of (ce_lock_map ce) i = None"
    using lock_okD(14)[OF L ce, of i] lock_okD(7)[OF L] N(4) by (cases "map_of (ce_lock_map ce) i") auto
  let ?t = "link_lock ?c i p (gl_lease_time g1) s1"
  have rep: "get_lock_reply E (ce_p_conn ce) b g1 ?t = Some (t, [r], R_done)"
    using g ce q p N(6) i by (simp add: get_lock_do_def fail_def Let_def split: if_splits)
  then have t: "t = ?t" by (auto simp: get_lock_reply_def dest: send_reply_state)
  have "rp_body r = load_bytes (put_get_lock_body b 0 g1) 0 DLOCK_GET_LOCK_BODY_LEN"
    using rep by (auto simp: get_lock_reply_def send_reply_def fail_def bind_eq_Some_conv split: if_splits)
  then have "load32 (\<lambda>a. rp_body r ! a) 0 = load32 (put_get_lock_body b 0 g1) 0"
    by (simp add: load32_def load_bytes_def DLOCK_GET_LOCK_BODY_LEN_def)
  then have i': "load32 b' 0 = i" using same(2) N(6) by (simp add: put_get_lock_body_def load32_other)
  have ct: "map_of (sv_client_map t) ?c = Some (ce\<lparr>ce_lock_map := um_insert i p (ce_lock_map ce)\<rparr>)"
    unfolding t using ce N(1) by (simp add: link_lock_def upd_client_def add_lock_def)
  from rel same(1) ct i' obtain v where v: "release_lock_map_entry i p ?c t = Some v" "u = drop_client_lock ?c i v"
    by (auto simp: release_lock_do_def Let_def bind_eq_Some_conv dest!: send_reply_state)
  from release_first_lock[OF L ce N(4) new N(2,3) t[unfolded N(1,5)] v(1)[unfolded N(5)]] v(2) show ?thesis by blast
qed

definition demo_release :: bmem where
  "demo_release = (\<lambda>_. 0)(0 := 2)"

theorem get_release_roundtrip_witness:
  "\<exists>u rs x m. release_lock_do demo_env 7 (demo_hdr RELEASE_LOCK_REQUEST 20 5) (Some demo_release) demo_lock = Some (u, rs, x) \<and>
    sv_lock_memory u = m \<and> m_free_memory_map m = [(0, 1228800)] \<and> sv_lock_map u = [] \<and> sv_lock_desc_map u = []"
proof -
  let ?h = "demo_hdr RELEASE_LOCK_REQUEST 20 5"
  let ?r = "\<lparr>rp_conn = 7, rp_type = GET_LOCK_RESPONSE, rp_message_id = 9, rp_status = R_done,
      rp_body = load_bytes (store32 (store32 demo_get 0 2) 12 0) 0 20\<rparr>"
  have h: "\<not> check_msg_body_len_invalid ?h (of_nat DLOCK_RELEASE_LOCK_BODY_LEN)" "h_client_id ?h = 5"
    by (simp_all add: ctl_eval DLOCK_RELEASE_LOCK_BODY_LEN_def)
  have b: "load32 demo_release 0 = 2" by (simp add: demo_release_def load32_def)
  have i: "load32 demo_release 0 = load32 (\<lambda>a. rp_body ?r ! a) 0"
    by (simp add: demo_release_def load_bytes_def load32_def store32_def demo_get_def)
  have "\<exists>u rs x. release_lock_do demo_env 7 ?h (Some demo_release) demo_lock = Some (u, rs, x)"
    by (simp add: release_lock_do_def h b demo_lock_def demo_client_def release_lock_map_entry_def lock_entry_release_def
        new_client_def drop_client_lock_def upd_client_def) (simp add: ctl_eval lock_entry_release_def)
  then obtain u rs x where u: "release_lock_do demo_env 7 ?h (Some demo_release) demo_lock = Some (u, rs, x)" by blast
  have new: "map_of (sv_lock_desc_map demo_client) (gl_desc (get_lock_body_at demo_get 0)) = None"
    by (simp add: demo_client_def init_as_primary_def)
  have c: "h_client_id ?h = h_client_id (demo_hdr GET_LOCK_REQUEST 37 5)" by (simp add: demo_hdr_def)
  from get_release_roundtrip[OF demo_client_run new demo_get_do u h(1) c i] obtain j p m M where
    "u = demo_client\<lparr>sv_curr_lock_id := j, sv_next_ptr := p, sv_lock_memory := m, sv_client_map := M\<rparr>"
    "m_free_memory_map m = m_free_memory_map (sv_lock_memory demo_client)" by blast
  then show ?thesis using u by (intro exI[of _ u] exI[of _ rs] exI[of _ x] exI[of _ m])
    (simp add: demo_client_def init_as_primary_def lock_memory_new_def)
qed

subsection \<open>Ids\<close>

lemma sint_inj: "sint x = sint y \<Longrightarrow> x = (y :: u32)"
  by (metis scast_eq scast_id)

lemma find_id_above:
  "find_id used cur loop_flag = (c, None) \<Longrightarrow> loop_flag \<Longrightarrow> 0 < sint cur \<Longrightarrow> \<forall>i. sint cur < sint i \<longrightarrow> used i"
proof (induction used cur loop_flag arbitrary: c rule: find_id.induct)
  case (1 used cur loop_flag)
  have mx: "sint i < 2 ^ 31" for i :: u32 using sint_lt[of i] by simp
  show ?case
  proof (cases "sint (cur + 1) \<le> 0")
    case True
    have "sint cur = 2 ^ 31 - 1"
    proof (rule ccontr)
      assume a: "sint cur \<noteq> 2 ^ 31 - 1"
      have "sint (cur + 1) = signed_take_bit 31 (sint cur + 1)" by (simp add: sint_word_ariths(1))
      also have "\<dots> = sint cur + 1" using a mx[of cur] "1.prems"(3) by (simp add: signed_take_bit_int_eq_self_iff)
      finally show False using True "1.prems"(3) by simp
    qed
    with mx show ?thesis by (metis zle_diff1_eq not_less)
  next
    case False
    then have s: "sint (cur + 1) = sint cur + 1" by (intro sint_succ_pos) simp
    have u: "used (cur + 1)" "find_id used (cur + 1) loop_flag = (c, None)"
      using "1.prems"(1) False by (subst (asm) find_id.simps; simp add: Let_def split: if_splits)+
    have above: "\<forall>i. sint (cur + 1) < sint i \<longrightarrow> used i"
      by (rule "1.IH"(2)[OF refl False u "1.prems"(2)]) (use s "1.prems"(3) in simp)
    show ?thesis
    proof (intro allI impI)
      fix i :: u32 assume i: "sint cur < sint i"
      show "used i"
      proof (cases "sint i = sint cur + 1")
        case True
        then have "i = cur + 1" using s by (intro sint_inj) simp
        with u(1) show ?thesis by simp
      qed (use i s above in simp)
    qed
  qed
qed

lemma find_id_none:
  "find_id used cur loop_flag = (c, None) \<Longrightarrow> \<not> loop_flag \<Longrightarrow> 0 < sint i \<Longrightarrow> used i"
proof (induction used cur loop_flag arbitrary: c rule: find_id.induct)
  case (1 used cur loop_flag)
  show ?case
  proof (cases "sint (cur + 1) \<le> 0")
    case True
    have u: "used 1" "find_id used 1 True = (c, None)"
      using "1.prems"(1,2) True by (subst (asm) find_id.simps; simp add: Let_def split: if_splits)+
    from find_id_above[OF u(2)] have "1 < sint i \<Longrightarrow> used i" by simp
    moreover have "i = 1" if "sint i = 1" using that by (intro sint_inj) simp
    ultimately show ?thesis using u(1) "1.prems"(3) by (cases "sint i = 1") auto
  next
    case False
    have u: "used (cur + 1)" "find_id used (cur + 1) loop_flag = (c, None)"
      using "1.prems"(1) False by (subst (asm) find_id.simps; simp add: Let_def split: if_splits)+
    show ?thesis by (rule "1.IH"(2)[OF refl False u "1.prems"(2,3)])
  qed
qed

lemma sint_of_nat:
  assumes "k < 2 ^ 31"
  shows "sint (word_of_nat k :: u32) = int k"
proof -
  have "sint (word_of_int (int k) :: u32) = int k" using assms by (simp only: sint_sbintrunc') (simp add: signed_take_bit_int_eq_self_iff)
  then show ?thesis by simp
qed

text \<open>A map with fewer keys than there are positive ids leaves one of them free.\<close>

lemma find_id_some:
  assumes m: "length m < 2 ^ 31 - 1" and f: "find_id (\<lambda>i. map_of m i \<noteq> None) cur False = (c, r)"
  obtains i where "r = Some i" "0 < sint i" "map_of m i = None"
proof (cases r)
  case None
  have "word_of_nat ` {1 ..< 2 ^ 31} \<subseteq> dom (map_of m)"
  proof (rule image_subsetI)
    fix k :: nat assume k: "k \<in> {1 ..< 2 ^ 31}"
    then have "0 < sint (word_of_nat k :: u32)" using sint_of_nat[of k] by simp
    from find_id_none[OF f[unfolded None] _ this] show "word_of_nat k \<in> dom (map_of m)" by (simp add: domIff)
  qed
  then have "card (word_of_nat ` {1 ..< 2 ^ 31} :: u32 set) \<le> card (dom (map_of m))" by (intro card_mono) (simp_all add: finite_dom_map_of)
  also have "\<dots> \<le> length m" by (simp add: dom_map_of_conv_image_fst) (metis card_image_le card_length finite_set le_trans)
  finally have "card (word_of_nat ` {1 ..< 2 ^ 31 :: nat} :: u32 set) \<le> length m" .
  moreover have "inj_on (word_of_nat :: nat \<Rightarrow> u32) {1 ..< 2 ^ 31}"
    using sint_of_nat by (intro inj_onI) (metis atLeastLessThan_iff of_nat_eq_iff)
  ultimately show thesis using m by (simp add: card_image)
next
  case (Some i)
  with find_id_free[OF f[unfolded Some]] show thesis by (intro that[of i]) simp_all
qed

lemma lock_count_bound:
  assumes ok: "lock_ok X s"
  shows "length (sv_lock_map s) \<le> LOCK_MEMORY_SIZE"
proof -
  let ?L = "{p. sv_locks s p \<noteq> None}" and ?f = "\<lambda>p. es_lock_offset (le_base (the (sv_locks s p)))"
  have r: "?f p \<in> entry_range (le_base e)" if "sv_locks s p = Some e" for p e
    using lock_okD(10)[OF ok that] that g_lock_size_pos[of "es_lock_type (le_base e)"] by (simp add: entry_range_def range_of_def)
  have "inj_on ?f ?L"
  proof (rule inj_onI)
    fix p q assume pq: "p \<in> ?L" "q \<in> ?L" and eq: "?f p = ?f q"
    from pq obtain e f where ef: "sv_locks s p = Some e" "sv_locks s q = Some f" by auto
    show "p = q" using live_disjoint[OF ok ef] r[OF ef(1)] r[OF ef(2)] eq by auto
  qed
  moreover have "?f ` ?L \<subseteq> {0 ..< LOCK_MEMORY_SIZE}" using r live_inside[OF ok] by blast
  ultimately have "card ?L \<le> card {0 ..< LOCK_MEMORY_SIZE}" by (intro card_inj_on_le[of ?f]) simp_all
  with live_count[of "sv_lock_map s" "sv_locks s" "\<lambda>e. es_lock_id (le_base e)"] lock_okD(1,6,7)[OF ok] show ?thesis by simp
qed

lemma object_count_bound:
  assumes ok: "object_ok s"
  shows "length (sv_object_map s) \<le> OBJECT_MAX_NUMBER"
proof -
  let ?L = "{p. sv_objects s p \<noteq> None}" and ?f = "\<lambda>p. oe_offset (the (sv_objects s p)) div 8"
  note M = object_okD(4)[OF ok, unfolded memory_ok_def]
  have tot: "om_total (sv_object_memory s) = OBJECT_MAX_NUMBER" using M by blast
  note M' = M[THEN conjunct2, THEN conjunct2]
  obtain xs where "set xs \<union> cells s = {0 ..< om_total (sv_object_memory s)}" using M[THEN conjunct1] by blast
  with tot have cells: "cells s \<subseteq> {0 ..< OBJECT_MAX_NUMBER}" by (metis Un_upper2)
  have d: "?f p * 8 = oe_offset e" if "sv_objects s p = Some e" for p e using M' that by simp
  have "inj_on ?f ?L"
  proof (rule inj_onI)
    fix p q assume pq: "p \<in> ?L" "q \<in> ?L" and eq: "?f p = ?f q"
    from pq obtain e f where ef: "sv_objects s p = Some e" "sv_objects s q = Some f" by auto
    then have "oe_offset e = oe_offset f" using d[OF ef(1)] d[OF ef(2)] eq by metis
    with M' ef show "p = q" by blast
  qed
  moreover have "?f ` ?L \<subseteq> {0 ..< OBJECT_MAX_NUMBER}"
  proof (rule image_subsetI)
    fix p assume "p \<in> ?L"
    then obtain e where "sv_objects s p = Some e" by auto
    then have "?f p \<in> cells s" using d[of p e] by (auto simp: cells_def)
    with cells show "?f p \<in> {0 ..< OBJECT_MAX_NUMBER}" by blast
  qed
  ultimately have "card ?L \<le> card {0 ..< OBJECT_MAX_NUMBER}" by (intro card_inj_on_le[of ?f]) simp_all
  with live_count[of "sv_object_map s" "sv_objects s" oe_id] object_okD(1,5,6)[OF ok] show ?thesis by simp
qed

lemma find_id_ex:
  assumes "length m < 2 ^ 31 - 1"
  shows "\<exists>c j. find_id (\<lambda>i. map_of m i \<noteq> None) cur False = (c, Some j) \<and> 0 < sint j \<and> map_of m j = None"
proof -
  obtain c r where f: "find_id (\<lambda>i. map_of m i \<noteq> None) cur False = (c, r)" by fastforce
  from find_id_some[OF assms f] f show ?thesis by metis
qed

text \<open>
  Property C30.  The search for a lock id and for an object id ends, and on a server that has started as primary it always
  succeeds: it returns a positive id that is not in use, also after the counter has wrapped around, because the two memories
  hold fewer locks and objects than there are ids.
\<close>

theorem ids_never_run_out:
  assumes run: "ctl_step\<^sup>*\<^sup>* (init_as_primary n) s"
  shows "(\<exists>s1 j. find_available_lock_id i s = (s1, Some j) \<and> 0 < sint j \<and> map_of (sv_lock_map s) j = None)
    \<and> (\<exists>s1 j. find_available_object_id i s = (s1, Some j) \<and> 0 < sint j \<and> map_of (sv_object_map s) j = None)"
proof (rule conjI)
  have "length (sv_lock_map s) < 2 ^ 31 - 1" using lock_count_bound[OF ctl_reachable(1)[OF run]] by simp
  from find_id_ex[OF this, of "sv_curr_lock_id s"]
  show "\<exists>s1 j. find_available_lock_id i s = (s1, Some j) \<and> 0 < sint j \<and> map_of (sv_lock_map s) j = None"
    by (auto simp: find_available_lock_id_def)
  have "length (sv_object_map s) < 2 ^ 31 - 1" using object_count_bound[OF ctl_reachable(2)[OF run]] by (simp add: OBJECT_MAX_NUMBER_def)
  from find_id_ex[OF this, of "sv_curr_object_id s"]
  show "\<exists>s1 j. find_available_object_id i s = (s1, Some j) \<and> 0 < sint j \<and> map_of (sv_object_map s) j = None"
    by (auto simp: find_available_object_id_def)
qed

theorem ids_never_run_out_witness:
  "\<exists>s1 j. find_available_lock_id 2 demo_lock = (s1, Some j) \<and> 0 < sint j \<and> j \<noteq> 2"
  using ids_never_run_out[OF demo_lock_run, of 2] by (fastforce simp: demo_lock_def)

end
