(* ===== verification/DLock_ControlCrash.thy ===== *)
theory DLock_ControlCrash
  imports DLock_ControlSafety
begin

section \<open>Requests that cannot crash the server\<close>

text \<open>
  The handlers of lock and object requests dereference the connection of the client, the locks and
  objects in its maps and in the maps of the server, and the request body.  In a reachable state all of these
  but the first and the last are live by the invariant; the section shows that with a live connection and a body no handler fails.
\<close>

subsection \<open>Connections\<close>

lemma conns_simps [simp]:
  "sv_conns (link_lock c i p l s) = sv_conns s" "sv_conns (add_lock i d e s) = sv_conns s" "sv_conns (upd_client c f s) = sv_conns s"
  "sv_conns (upd_object p g s) = sv_conns s" "sv_conns (drop_object_all i s) = sv_conns s" "sv_conns (add_object i oe v s) = sv_conns s"
  "sv_conns (lock_entry_release i p le s) = sv_conns s" "sv_conns (drop_client_lock c i s) = sv_conns s"
  "sv_conns (drop_client_object c i s) = sv_conns s" "sv_conns (refresh_object_entry E p oe c l s) = sv_conns s"
  "sv_conns (destroy_object_entry p oe s) = sv_conns s" "sv_conns (unlease i p c le s) = sv_conns s"
  by (simp_all add: link_lock_def add_lock_def upd_client_def upd_object_def drop_object_all_def add_object_def lock_entry_release_def
      drop_client_lock_def drop_client_object_def refresh_object_entry_def destroy_object_entry_def unlease_def Let_def)

lemma find_lock_id_conns: "find_available_lock_id i s = (s1, r) \<Longrightarrow> sv_conns s1 = sv_conns s"
  using find_available_lock_id_spec(1)[of i s s1 r] by auto

lemma find_object_id_conns: "find_available_object_id i s = (s1, r) \<Longrightarrow> sv_conns s1 = sv_conns s"
  using find_available_object_id_spec(1)[of i s s1 r] by auto

lemma get_lock_by_msg_conns: "get_lock_by_msg me g s = Some (s1, g1, r) \<Longrightarrow> sv_conns s1 = sv_conns s"
  by (auto simp: get_lock_by_msg_def Let_def bind_eq_Some_conv split: option.splits if_splits sum.splits prod.splits dest: find_lock_id_conns)

lemma create_object_by_msg_conns: "create_object_by_msg me g c s = (s1, g1, r) \<Longrightarrow> sv_conns s1 = sv_conns s"
  by (auto simp: create_object_by_msg_def Let_def split: option.splits if_splits sum.splits prod.splits dest: find_object_id_conns)

lemma batch_get_loop_conns: "batch_get_loop E c len n i off b s = Some (s1, b1, ok) \<Longrightarrow> sv_conns s1 = sv_conns s"
proof (induction n arbitrary: i off b s)
  case (Suc n)
  show ?case
  proof (cases "off + DLOCK_GET_LOCK_BODY_LEN + unat (gl_desc_len (get_lock_body_at b off)) > len")
    case False
    with Suc.prems obtain s0 g1 r where g: "get_lock_by_msg (e_mem E i) (get_lock_body_at b off) s = Some (s0, g1, r)"
      by (auto simp: Let_def bind_eq_Some_conv)
    with False Suc.prems have "sv_conns s1 = sv_conns (case r of None \<Rightarrow> s0 | Some p \<Rightarrow> (case map_of (sv_client_map s0) c of
        None \<Rightarrow> s0 | Some ce \<Rightarrow> if map_of (ce_lock_map ce) (gl_lock_id g1) \<noteq> None then s0
          else link_lock c (gl_lock_id g1) p (gl_lease_time g1) s0))"
      by (simp add: Let_def) (erule Suc.IH)
    also have "\<dots> = sv_conns s" using get_lock_by_msg_conns[OF g] by (simp split: option.splits)
    finally show ?thesis .
  qed (use Suc.prems in \<open>simp add: Let_def\<close>)
qed simp

lemma release_entry_conns: "release_lock_map_entry i p c s = Some t \<Longrightarrow> sv_conns t = sv_conns s"
  by (auto simp: release_lock_map_entry_def Let_def bind_eq_Some_conv)

lemma batch_release_loop_conns: "batch_release_loop c n off b s = Some s1 \<Longrightarrow> sv_conns s1 = sv_conns s"
proof (induction n arbitrary: off s)
  case (Suc n)
  from Suc.prems show ?case
    by (auto simp: Let_def bind_eq_Some_conv split: option.splits dest!: Suc.IH dest: release_entry_conns)
qed simp

subsection \<open>The handlers\<close>

definition client_connected :: "u32 \<Rightarrow> dlock_server \<Rightarrow> bool" where
  "client_connected c s \<longleftrightarrow> (\<forall>ce. map_of (sv_client_map s) c = Some ce \<longrightarrow> (\<exists>q. ce_p_conn ce = Some q \<and> map_of (sv_conns s) q \<noteq> None))"

lemma client_connectedD:
  assumes "client_connected c s" "map_of (sv_client_map s) c = Some ce"
  obtains q k where "ce_p_conn ce = Some q" "map_of (sv_conns s) q = Some k"
  using assms by (auto simp: client_connected_def)

lemma send_reply_live:
  assumes "map_of (sv_conns s) p = Some k" "map_of (sv_conns s) q = Some l"
  shows "\<exists>t rs r. send_reply E (Some p) (Some q) ty body s = Some (t, rs, r)"
  using assms by (simp add: send_reply_def fail_def)

lemma get_lock_do_live:
  assumes ok: "ctl_ok s" and c: "client_connected (h_client_id h) s"
  shows "get_lock_do E k h (Some b) s \<noteq> None"
proof (cases "map_of (sv_client_map s) (h_client_id h)")
  case (Some ce)
  obtain q l where q: "ce_p_conn ce = Some q" "map_of (sv_conns s) q = Some l" by (rule client_connectedD[OF c Some])
  obtain s1 g1 r where g: "get_lock_by_msg (e_mem E 0) (get_lock_body_at b 0) s = Some (s1, g1, r)"
    using get_lock_by_msg_ok[of "{}" s] ok unfolding ctl_ok_def by blast
  have "get_lock_reply E (ce_p_conn ce) b g1 t \<noteq> None" if "sv_conns t = sv_conns s1" for t
    using send_reply_live[of t q l q l] that q get_lock_by_msg_conns[OF g] by (simp add: get_lock_reply_def)
  with Some g show ?thesis by (simp add: get_lock_do_def Let_def fail_def split: option.split)
qed (simp add: get_lock_do_def Let_def fail_def)

lemma release_lock_do_live:
  assumes ok: "ctl_ok s" and c: "client_connected (h_client_id h) s" and k: "map_of (sv_conns s) k = Some x"
  shows "release_lock_do E k h (Some b) s \<noteq> None"
proof (cases "map_of (sv_client_map s) (h_client_id h)")
  case (Some ce)
  obtain q l where q: "ce_p_conn ce = Some q" "map_of (sv_conns s) q = Some l" by (rule client_connectedD[OF c Some])
  show ?thesis
  proof (cases "map_of (ce_lock_map ce) (load32 b 0)")
    case i: (Some p)
    obtain e where e: "release_lock_map_entry (load32 b 0) p (h_client_id h) s = Some (unlease (load32 b 0) p (h_client_id h) e s)"
      using release_ok[OF _ Some i] ok unfolding ctl_ok_def by metis
    show ?thesis using Some i q k e by (simp add: release_lock_do_def Let_def fail_def send_reply_live)
  qed (use Some in \<open>simp add: release_lock_do_def Let_def fail_def\<close>)
qed (simp add: release_lock_do_def Let_def fail_def)

lemma batch_get_lock_do_live:
  assumes ok: "ctl_ok s" and c: "client_connected (h_client_id h) s"
  shows "batch_get_lock_do E k h (Some b) s \<noteq> None"
proof (cases "map_of (sv_client_map s) (h_client_id h)")
  case (Some ce)
  obtain q l where q: "ce_p_conn ce = Some q" "map_of (sv_conns s) q = Some l" by (rule client_connectedD[OF c Some])
  obtain s1 b1 r where g: "batch_get_loop E (h_client_id h) (unat (of_int (body_len h) :: u16)) (unat (load32 b 0)) 0 DLOCK_BATCH_GET_LOCK_BODY_LEN b s =
      Some (s1, b1, r)"
    using batch_get_loop_ok[of "{}" s, OF _ Some] ok unfolding ctl_ok_def by metis
  show ?thesis using Some g q batch_get_loop_conns[OF g] by (simp add: batch_get_lock_do_def Let_def fail_def send_reply_live)
qed (simp add: batch_get_lock_do_def Let_def fail_def)

lemma batch_release_lock_do_live:
  assumes ok: "ctl_ok s" and c: "client_connected (h_client_id h) s" and k: "map_of (sv_conns s) k = Some x"
  shows "batch_release_lock_do E k h (Some b) s \<noteq> None"
proof (cases "map_of (sv_client_map s) (h_client_id h)")
  case (Some ce)
  obtain q l where q: "ce_p_conn ce = Some q" "map_of (sv_conns s) q = Some l" by (rule client_connectedD[OF c Some])
  obtain s1 where g: "batch_release_loop (h_client_id h) (unat (load32 b 0)) DLOCK_BATCH_RELEASE_LOCK_BODY_LEN b s = Some s1"
    using batch_release_loop_ok[of "{}" s] ok unfolding ctl_ok_def by metis
  show ?thesis using Some g q k batch_release_loop_conns[OF g] by (simp add: batch_release_lock_do_def Let_def fail_def send_reply_live)
qed (simp add: batch_release_lock_do_def Let_def fail_def)

lemma object_reply_live:
  assumes "map_of (sv_conns s) q = Some l"
  shows "\<exists>t rs r. object_reply E (Some q) ty n b s = Some (t, rs, r)"
  using send_reply_live[OF assms assms] by (simp add: object_reply_def)

lemma create_object_do_live:
  assumes ok: "ctl_ok s" and c: "client_connected (h_client_id h) s"
  shows "create_object_do E k h (Some b) s \<noteq> None"
proof (cases "map_of (sv_client_map s) (h_client_id h)")
  case (Some ce)
  let ?g = "object_create_body_at b"
  have O: "object_ok s" using ok by (simp add: ctl_ok_def)
  obtain q l where q: "ce_p_conn ce = Some q" "map_of (sv_conns s) q = Some l" by (rule client_connectedD[OF c Some])
  have R: "\<exists>u rs r. object_reply E (Some q) ty n b t = Some (u, rs, r)" if "sv_conns t = sv_conns s" for ty n b t
    using object_reply_live[of t q l] q that by simp
  show ?thesis
  proof (cases "descriptor_init (e_mem E 0) (ob_desc_len ?g) (ob_body_desc ?g)")
    case (Inr d)
    show ?thesis
    proof (cases "map_of (sv_object_desc_map s) d")
      case None
      obtain s1 g1 r where cr: "create_object_by_msg (e_mem E 1) ?g (h_client_id h) s = (s1, g1, r)" by (metis prod_cases3)
      with None Some Inr q R create_object_by_msg_conns[OF cr] show ?thesis
        by (cases r) (simp_all add: create_object_do_def Let_def fail_def)
    next
      case p: (Some p)
      obtain e where "sv_objects s p = Some e" using object_okD(10)[OF O p] by blast
      with p Some Inr q R show ?thesis by (simp add: create_object_do_def Let_def fail_def)
    qed
  qed (use Some in \<open>simp add: create_object_do_def Let_def fail_def\<close>)
qed (simp add: create_object_do_def Let_def fail_def)

lemma get_object_do_live:
  assumes ok: "ctl_ok s" and c: "client_connected (h_client_id h) s"
  shows "get_object_do E k h (Some b) s \<noteq> None"
proof (cases "map_of (sv_client_map s) (h_client_id h)")
  case (Some ce)
  let ?g = "object_get_body_at b"
  have O: "object_ok s" using ok by (simp add: ctl_ok_def)
  obtain q l where q: "ce_p_conn ce = Some q" "map_of (sv_conns s) q = Some l" by (rule client_connectedD[OF c Some])
  have R: "\<exists>u rs r. object_reply E (Some q) ty n b t = Some (u, rs, r)" if "sv_conns t = sv_conns s" for ty n b t
    using object_reply_live[of t q l] q that by simp
  show ?thesis
  proof (cases "descriptor_init (e_mem E 0) (ob_desc_len ?g) (ob_body_desc ?g)")
    case (Inr d)
    show ?thesis
    proof (cases "map_of (sv_object_desc_map s) d")
      case p: (Some p)
      obtain e where "sv_objects s p = Some e" using object_okD(10)[OF O p] by blast
      with p Some Inr q R show ?thesis by (simp add: get_object_do_def Let_def fail_def)
    qed (use Some Inr in \<open>simp add: get_object_do_def Let_def fail_def\<close>)
  qed (use Some in \<open>simp add: get_object_do_def Let_def fail_def\<close>)
qed (simp add: get_object_do_def Let_def fail_def)

lemma release_object_do_live:
  assumes ok: "ctl_ok s" and c: "client_connected (h_client_id h) s"
  shows "release_object_do E k h (Some b) s \<noteq> None"
proof (cases "map_of (sv_client_map s) (h_client_id h)")
  case (Some ce)
  have O: "object_ok s" using ok by (simp add: ctl_ok_def)
  obtain q l where q: "ce_p_conn ce = Some q" "map_of (sv_conns s) q = Some l" by (rule client_connectedD[OF c Some])
  have R: "\<exists>u rs r. object_reply E (Some q) ty n b t = Some (u, rs, r)" if "sv_conns t = sv_conns s" for ty n b t
    using object_reply_live[of t q l] q that by simp
  show ?thesis
  proof (cases "map_of (ce_object_map ce) (load32 b 0)")
    case p: (Some p)
    obtain e where "sv_objects s p = Some e" by (rule client_object[OF O Some p])
    with p Some q R show ?thesis by (simp add: release_object_do_def Let_def fail_def)
  qed (use Some in \<open>simp add: release_object_do_def Let_def fail_def\<close>)
qed (simp add: release_object_do_def Let_def fail_def)

lemma destroy_object_do_live:
  assumes ok: "ctl_ok s" and c: "client_connected (h_client_id h) s"
  shows "destroy_object_do E k h (Some b) s \<noteq> None"
proof (cases "map_of (sv_client_map s) (h_client_id h)")
  case (Some ce)
  have O: "object_ok s" using ok by (simp add: ctl_ok_def)
  obtain q l where q: "ce_p_conn ce = Some q" "map_of (sv_conns s) q = Some l" by (rule client_connectedD[OF c Some])
  have R: "\<exists>u rs r. object_reply E (Some q) ty n b t = Some (u, rs, r)" if "sv_conns t = sv_conns s" for ty n b t
    using object_reply_live[of t q l] q that by simp
  show ?thesis
  proof (cases "map_of (sv_object_map s) (load32 b 0)")
    case p: (Some p)
    obtain e where "sv_objects s p = Some e" using object_okD(5)[OF O p] by blast
    with p Some q R show ?thesis by (simp add: destroy_object_do_def Let_def fail_def)
  qed (use Some in \<open>simp add: destroy_object_do_def Let_def fail_def\<close>)
qed (simp add: destroy_object_do_def Let_def fail_def)

lemma client_heartbeat_do_live:
  assumes "map_of (sv_conns s) k = Some x"
  shows "client_heartbeat_do E k h body s \<noteq> None"
  using send_reply_live[OF assms assms] by (simp add: client_heartbeat_do_def fail_def split: option.split)

subsection \<open>The receive path\<close>

definition client_request :: "u8 \<Rightarrow> bool" where
  "client_request ty \<longleftrightarrow> ty \<in> {CLIENT_HEARTBEAT_REQUEST, GET_LOCK_REQUEST, RELEASE_LOCK_REQUEST, BATCH_GET_LOCK_REQUEST,
     BATCH_RELEASE_LOCK_REQUEST, OBJECT_CREATE_REQUEST, OBJECT_GET_REQUEST, OBJECT_RELEASE_REQUEST, OBJECT_DESTROY_REQUEST}"

lemma request_conns:
  assumes "g_control_do ty = Some f" "client_request ty" "f E k h body s = Some (t, rs, r)"
  shows "sv_conns t = sv_conns s"
proof -
  have reply: "object_reply E q ty n b u = Some (t, rs, r) \<Longrightarrow> sv_conns t = sv_conns u" for q ty n b u
    by (auto simp: object_reply_def dest: send_reply_state)
  have "f \<in> {client_heartbeat_do, get_lock_do, release_lock_do, batch_get_lock_do, batch_release_lock_do,
      create_object_do, get_object_do, release_object_do, destroy_object_do}"
    using assms(1,2) by (auto simp: client_request_def g_control_do_def)
  then consider "f = client_heartbeat_do" | "f = get_lock_do" | "f = release_lock_do" | "f = batch_get_lock_do" | "f = batch_release_lock_do" |
    "f = create_object_do" | "f = get_object_do" | "f = release_object_do" | "f = destroy_object_do" by blast
  then show ?thesis
  proof cases
    case 1
    with assms(3) show ?thesis by (auto simp: client_heartbeat_do_def fail_def split: if_splits option.splits dest: send_reply_state)
  next
    case 2
    with assms(3) show ?thesis
      by (auto simp: get_lock_do_def fail_def Let_def bind_eq_Some_conv get_lock_reply_def split: if_splits option.splits
          dest!: send_reply_state get_lock_by_msg_conns)
  next
    case 3
    with assms(3) show ?thesis
      by (auto simp: release_lock_do_def fail_def Let_def bind_eq_Some_conv split: if_splits option.splits
          dest!: send_reply_state release_entry_conns)
  next
    case 4
    with assms(3) show ?thesis
      by (auto simp: batch_get_lock_do_def fail_def Let_def bind_eq_Some_conv split: if_splits option.splits
          dest!: send_reply_state batch_get_loop_conns)
  next
    case 5
    with assms(3) show ?thesis
      by (auto simp: batch_release_lock_do_def fail_def Let_def bind_eq_Some_conv split: if_splits option.splits
          dest!: send_reply_state batch_release_loop_conns)
  next
    case 6
    with assms(3) show ?thesis
      by (auto simp: create_object_do_def fail_def Let_def bind_eq_Some_conv split: if_splits option.splits sum.splits prod.splits
          dest!: reply create_object_by_msg_conns)
  next
    case 7
    with assms(3) show ?thesis
      by (auto simp: get_object_do_def fail_def Let_def bind_eq_Some_conv split: if_splits option.splits sum.splits dest!: reply)
  next
    case 8
    with assms(3) show ?thesis
      by (auto simp: release_object_do_def fail_def Let_def bind_eq_Some_conv split: if_splits option.splits dest!: reply)
  next
    case 9
    with assms(3) show ?thesis
      by (auto simp: destroy_object_do_def fail_def Let_def bind_eq_Some_conv split: if_splits option.splits dest!: reply)
  qed
qed

lemma request_live:
  assumes f: "g_control_do (h_type h) = Some f" "client_request (h_type h)" and ok: "ctl_ok s" and c: "client_connected (h_client_id h) s"
    and k: "map_of (sv_conns s) k = Some x" and body: "h_type h = CLIENT_HEARTBEAT_REQUEST \<or> body \<noteq> None"
  shows "f E k h body s \<noteq> None"
  using f body client_heartbeat_do_live[OF k] get_lock_do_live[OF ok c] release_lock_do_live[OF ok c k] batch_get_lock_do_live[OF ok c]
    batch_release_lock_do_live[OF ok c k] create_object_do_live[OF ok c] get_object_do_live[OF ok c] release_object_do_live[OF ok c]
    destroy_object_do_live[OF ok c]
  unfolding client_request_def by (elim insertE emptyE; cases body; simp add: g_control_do_def; blast)



subsection \<open>Requests that leave the server in a bad state\<close>

text \<open>
  Property C31.  Without a body the same requests do crash the server: a message that consists of a correct header only and
  asks for a lock or an object reaches its handler with a null body, which the handler reads before any check, also on
  a connection that belongs to no client.
\<close>

theorem header_only_crashes:
  assumes "map_of (sv_conns s) k = Some l" "cn_peer l = None \<or> cn_peer l = Some (h_client_id h)" "sv_server_state s = SERVER_READY"
    "check_control_msg_hdr h" "h_type h \<in> {GET_LOCK_REQUEST, OBJECT_CREATE_REQUEST, OBJECT_GET_REQUEST}" "h_total_len h = 16"
  shows "process_control_msg E k h body s = None"
proof -
  have "check_msg_type_range h (get_process_control_msg_range s) s = R_done"
    using assms(3,5) by (auto simp: check_msg_type_range_def get_process_control_msg_range_def)
  moreover have "check_control_msg_client_id h l" using assms(2) by (auto simp: check_control_msg_client_id_def)
  ultimately show ?thesis using assms
    by (auto simp: process_control_msg_def g_control_do_def get_lock_do_def create_object_do_def get_object_do_def
        DLOCK_FIXED_CTRL_MSG_HDR_LEN_def Let_def)
qed

theorem header_only_crashes_witness:
  "ctl_step\<^sup>*\<^sup>* (init_as_primary 0) demo_conn \<and> process_control_msg demo_env 7 (demo_hdr GET_LOCK_REQUEST 16 0) None demo_conn = None"
  using demo_conn_run header_only_crashes[of demo_conn 7 "\<lparr>cn_peer = None, cn_next_message_id = 0\<rparr>" "demo_hdr GET_LOCK_REQUEST 16 0" demo_env None]
  by (simp add: ctl_eval demo_conn_def)

text \<open>
  Property C32.  A client that leaves with \<open>CLIENT_DEINIT\<close> without releasing its locks leaks them: its entry is
  gone, the locks keep it in their lease maps, and no release by another client deletes such a lock any more.
\<close>

theorem deinit_leaks_locks:
  assumes d: "deinit_client_do E k h body s = Some (t, rs, R_done)"
    and l: "sv_locks s p = Some e" "map_of (le_lease_time_map e) (h_client_id h) \<noteq> None"
    and o: "d \<noteq> h_client_id h" "release_lock_map_entry i p d t = Some u"
  shows "map_of (sv_client_map t) (h_client_id h) = None \<and> sv_locks t p = Some e \<and> sv_locks u p \<noteq> None"
proof -
  let ?c = "h_client_id h"
  from d obtain ce where ce: "map_of (sv_client_map s) ?c = Some ce"
    by (auto simp: deinit_client_do_def fail_def Let_def split: if_splits option.splits)
  from d ce obtain s1 where m: "modify_jetty_mgr_to_invalid E (ce_p_jetty_mgr ce) s = Some (s1, True)"
    by (auto simp: deinit_client_do_def fail_def Let_def bind_eq_Some_conv split: if_splits)
  have s1: "sv_locks s1 = sv_locks s" using m by (auto simp: modify_jetty_mgr_to_invalid_def bind_eq_Some_conv split: if_splits)
  have t: "sv_locks t = sv_locks s \<and> map_of (sv_client_map t) ?c = None"
    using d ce m s1
    by (auto simp: deinit_client_do_def fail_def Let_def bind_eq_Some_conv client_num_count_down_def erase_client_def delete_dlock_connection_def
        split: if_splits option.splits dest!: send_reply_state)
  have "um_erase d (le_lease_time_map e) \<noteq> []"
  proof
    assume "um_erase d (le_lease_time_map e) = []"
    then have "map_of (um_erase d (le_lease_time_map e)) ?c = None" by simp
    with l(2) o(1) show False by simp
  qed
  with o(2) t l(1) have "sv_locks u p \<noteq> None" by (auto simp: release_lock_map_entry_def Let_def)
  with t l(1) show ?thesis by simp
qed

theorem deinit_leaks_locks_witness:
  "\<exists>t rs u. deinit_client_do demo_env 7 (demo_hdr CLIENT_DEINIT_REQUEST 16 5) None demo_lock = Some (t, rs, R_done) \<and>
    release_lock_map_entry 2 1 6 t = Some u \<and> sv_locks u 1 \<noteq> None"
proof -
  let ?h = "demo_hdr CLIENT_DEINIT_REQUEST 16 5"
  have "\<exists>t rs. deinit_client_do demo_env 7 ?h None demo_lock = Some (t, rs, R_done) \<and> sv_locks t = sv_locks demo_lock"
    by (simp add: deinit_client_do_def ctl_eval demo_lock_def demo_client_def new_client_def modify_jetty_mgr_to_invalid_def
        erase_client_def client_num_count_down_def delete_dlock_connection_def)
  then obtain t rs where t: "deinit_client_do demo_env 7 ?h None demo_lock = Some (t, rs, R_done)" "sv_locks t = sv_locks demo_lock" by blast
  have l: "sv_locks demo_lock 1 = Some \<lparr>le_base = demo_entry, le_lock_dec = [65], le_lease_time_map = [(5, 0)]\<rparr>" by (simp add: demo_lock_def)
  then obtain u where u: "release_lock_map_entry 2 1 6 t = Some u" using t(2) by (simp add: release_lock_map_entry_def)
  have "sv_locks u 1 \<noteq> None"
    using deinit_leaks_locks[OF t(1) l _ _ u] by (simp add: demo_hdr_def)
  with t(1) u show ?thesis by blast
qed

text \<open>
  Property C33.  A client that registers again on the connection it already uses loses its jetty manager: the old one
  is deleted and the new one is not stored, because the connection has not changed.  After that the client's deregistration crashes the
  server.
\<close>

theorem reinit_same_connection:
  assumes r: "reinit_client_do E k h body s = Some (t, rs, R_done)"
    and c: "map_of (sv_client_map s) (h_client_id h) = Some ce" "ce_p_conn ce = Some k"
    and d: "h_client_id h' = h_client_id h" "\<not> check_msg_body_len_invalid h' 0"
  shows "\<exists>ce'. map_of (sv_client_map t) (h_client_id h) = Some ce' \<and> ce_p_jetty_mgr ce' = None \<and>
    deinit_client_do E' k' h' body' t = None"
proof -
  let ?c = "h_client_id h"
  obtain s1 j where p: "init_client_primary E s = (s1, Some j)" "sv_client_map s1 = sv_client_map s"
    using r by (auto simp: reinit_client_do_def init_client_primary_def fail_def Let_def split: if_splits option.splits prod.splits)
  from r c p obtain s2 where s2: "client_num_count_down s1 = Some s2"
    by (auto simp: reinit_client_do_def fail_def Let_def split: if_splits option.splits)
  then have m2: "sv_client_map s2 = sv_client_map s" using p(2) by (auto simp: client_num_count_down_def split: if_splits)
  from r c p s2 obtain s3 where s3: "reinit_clear ?c k ce s2 = Some s3" and e: "reinit_enter E k ?c j s3 = Some (t, rs, R_done)"
    by (auto simp: reinit_client_do_def fail_def Let_def bind_eq_Some_conv split: if_splits)
  have m3: "map_of (sv_client_map s3) ?c = Some (ce\<lparr>ce_p_jetty_mgr := None\<rparr>)"
    using s3 c m2 by (auto simp: reinit_clear_def bind_eq_Some_conv Let_def upd_client_def delete_jetty_def split: if_splits option.splits)
  have "map_of (sv_client_map t) ?c = Some (ce\<lparr>ce_p_jetty_mgr := None\<rparr>)"
    using e m3 c(2) by (auto simp: reinit_enter_def fail_def update_client_def Let_def bind_eq_Some_conv init_client_response_def delete_jetty_def
        split: if_splits dest!: send_reply_state)
  with d show ?thesis by (simp add: deinit_client_do_def modify_jetty_mgr_to_invalid_def Let_def)
qed

theorem reinit_same_connection_witness:
  "\<exists>t rs. reinit_client_do (demo_env\<lparr>e_jetty := Some 51\<rparr>) 7 (demo_hdr CLIENT_REINIT_REQUEST 56 5) (Some (\<lambda>_. 0)) demo_client = Some (t, rs, R_done) \<and>
    deinit_client_do demo_env 7 (demo_hdr CLIENT_DEINIT_REQUEST 16 5) None t = None"
proof -
  let ?E = "demo_env\<lparr>e_jetty := Some 51\<rparr>" and ?h = "demo_hdr CLIENT_REINIT_REQUEST 56 5" and ?h' = "demo_hdr CLIENT_DEINIT_REQUEST 16 5"
  have "\<exists>t rs. reinit_client_do ?E 7 ?h (Some (\<lambda>_. 0)) demo_client = Some (t, rs, R_done)"
    by (simp add: reinit_client_do_def ctl_eval demo_client_def negotiate_proto_version_def init_client_primary_def client_num_count_down_def
        reinit_clear_def new_client_def delete_jetty_def upd_client_def reinit_enter_def MAX_NUM_CLIENT_def update_client_def
        init_client_response_def load_bytes_def)
  then obtain t rs where t: "reinit_client_do ?E 7 ?h (Some (\<lambda>_. 0)) demo_client = Some (t, rs, R_done)" by blast
  have c: "map_of (sv_client_map demo_client) (h_client_id ?h) = Some (new_client 5 7 50 False)" "ce_p_conn (new_client 5 7 50 False) = Some 7"
    "h_client_id ?h' = h_client_id ?h" "\<not> check_msg_body_len_invalid ?h' 0"
    by (simp_all add: demo_client_def demo_hdr_def new_client_def check_msg_body_len_invalid_def body_len_def)
  from reinit_same_connection[OF t c, of demo_env 7 None] t show ?thesis by blast
qed

text \<open>
  Property C34.  A client that lost its connection and then leaves over a new one stays in the set of disconnected clients.  When it
  has the smallest id there, every later attempt to make room by evicting a disconnected client fails, so a full server accepts
  no new client although others could be evicted.
\<close>

theorem stale_exception_blocks_eviction:
  assumes d: "deinit_client_do E k h body s = Some (t, rs, R_done)" and x: "sv_except_client_set s = h_client_id h # cs"
  shows "sv_except_client_set t = h_client_id h # cs \<and> delete_except_client_entry E' t = Some (t, R_err)"
proof -
  let ?c = "h_client_id h"
  from d obtain ce where ce: "map_of (sv_client_map s) ?c = Some ce"
    by (auto simp: deinit_client_do_def fail_def Let_def split: if_splits option.splits)
  from d ce obtain s1 where m: "modify_jetty_mgr_to_invalid E (ce_p_jetty_mgr ce) s = Some (s1, True)"
    by (auto simp: deinit_client_do_def fail_def Let_def bind_eq_Some_conv split: if_splits)
  have s1: "sv_except_client_set s1 = sv_except_client_set s" using m by (auto simp: modify_jetty_mgr_to_invalid_def bind_eq_Some_conv split: if_splits)
  have "sv_except_client_set t = sv_except_client_set s \<and> map_of (sv_client_map t) ?c = None"
    using d ce m s1
    by (auto simp: deinit_client_do_def fail_def Let_def bind_eq_Some_conv client_num_count_down_def erase_client_def delete_dlock_connection_def
        split: if_splits option.splits dest!: send_reply_state)
  with x show ?thesis by (simp add: delete_except_client_entry_def)
qed

theorem stale_exception_blocks_eviction_witness:
  "\<exists>t rs. deinit_client_do demo_env 8 (demo_hdr CLIENT_DEINIT_REQUEST 16 5) None
      (demo_client\<lparr>sv_except_client_set := [5, 6], sv_conns := [(8, \<lparr>cn_peer = None, cn_next_message_id = 9\<rparr>)]\<rparr>) = Some (t, rs, R_done) \<and>
    delete_except_client_entry demo_env t = Some (t, R_err)"
proof -
  let ?s = "demo_client\<lparr>sv_except_client_set := [5, 6], sv_conns := [(8, \<lparr>cn_peer = None, cn_next_message_id = 9\<rparr>)]\<rparr>"
  let ?h = "demo_hdr CLIENT_DEINIT_REQUEST 16 5"
  have "\<exists>t rs. deinit_client_do demo_env 8 ?h None ?s = Some (t, rs, R_done)"
    by (simp add: deinit_client_do_def ctl_eval demo_client_def new_client_def modify_jetty_mgr_to_invalid_def
        erase_client_def client_num_count_down_def delete_dlock_connection_def)
  then obtain t rs where t: "deinit_client_do demo_env 8 ?h None ?s = Some (t, rs, R_done)" by blast
  have "sv_except_client_set ?s = h_client_id ?h # [6]" by (simp add: demo_hdr_def)
  from stale_exception_blocks_eviction[OF t this] t show ?thesis by blast
qed

end
