(* ===== verification/DLock_ControlLease.thy ===== *)
theory DLock_ControlLease
  imports DLock_ControlSafety
begin

section \<open>The lease of an object\<close>

text \<open>
  A client that has got an object works on its memory cell directly, so the cell must not be given away while the client may
  still use it.  The section shows that the server keeps the object as long as the lease runs and the client
  is connected, whatever other clients do: create, get, release or destroy the same object, leave, or be evicted.
\<close>

subsection \<open>The invariant of a held object\<close>

definition held :: "nat \<Rightarrow> u32 \<Rightarrow> ptr \<Rightarrow> object_entry_s \<Rightarrow> dlock_server \<Rightarrow> bool" where
  "held now c p e s \<longleftrightarrow> (\<exists>e' ce. sv_objects s p = Some e' \<and> oe_id e' = oe_id e \<and> oe_desc e' = oe_desc e \<and> oe_offset e' = oe_offset e \<and>
     now < oe_max_lease_tp e' \<and> map_of (sv_client_map s) c = Some ce \<and> map_of (ce_object_map ce) (oe_id e) = Some p)"

lemma heldE:
  assumes "held now c p e s"
  obtains e' ce where "sv_objects s p = Some e'" "oe_id e' = oe_id e" "oe_desc e' = oe_desc e" "oe_offset e' = oe_offset e"
    "now < oe_max_lease_tp e'" "map_of (sv_client_map s) c = Some ce" "map_of (ce_object_map ce) (oe_id e) = Some p"
  using assms by (auto simp: held_def)

text \<open>Steps that change neither the objects nor the object map of the client.\<close>

definition unaffected :: "u32 \<Rightarrow> dlock_server \<Rightarrow> dlock_server \<Rightarrow> bool" where
  "unaffected c s t \<longleftrightarrow> sv_objects t = sv_objects s \<and>
     map_option ce_object_map (map_of (sv_client_map t) c) = map_option ce_object_map (map_of (sv_client_map s) c)"

lemma unaffected_refl [simp]: "unaffected c s s"
  by (simp add: unaffected_def)

lemma unaffected_trans: "unaffected c s t \<Longrightarrow> unaffected c t u \<Longrightarrow> unaffected c s u"
  by (simp add: unaffected_def)

lemma unaffected_trans2: "unaffected c s t \<Longrightarrow> unaffected c t u \<Longrightarrow> unaffected c u v \<Longrightarrow> unaffected c s v"
  by (simp add: unaffected_def)

lemma unaffected_same: "sv_objects t = sv_objects s \<Longrightarrow> sv_client_map t = sv_client_map s \<Longrightarrow> unaffected c s t"
  by (simp add: unaffected_def)

lemma unaffected_held: "held now c p e s \<Longrightarrow> unaffected c s t \<Longrightarrow> held now c p e t"
  by (fastforce simp: held_def unaffected_def)

lemma unaffected_upd_client: "d \<noteq> c \<or> (\<forall>ce. ce_object_map (f ce) = ce_object_map ce) \<Longrightarrow> unaffected c s (upd_client d f s)"
  by (cases "map_of (sv_client_map s) c") (auto simp: unaffected_def upd_client_def)

lemma unaffected_step:
  assumes "unaffected c t t'"
  shows "unaffected c s t' = unaffected c s t" "unaffected c t' u = unaffected c t u"
  using assms by (auto simp: unaffected_def)

lemma unaffected_ops:
  "d \<noteq> c \<Longrightarrow> unaffected c s (erase_client d s)" "unaffected c s (link_lock d i p l s)" "unaffected c s (drop_client_lock d i s)"
  "unaffected c s (add_lock i ds lb s)" "unaffected c s (s\<lparr>sv_lock_memory := m\<rparr>)" "unaffected c s (lock_entry_release i p le s)"
  "unaffected c s (delete_jetty j s)" "unaffected c s (delete_dlock_connection k s)" "unaffected c s (set_peer k d s)"
  "unaffected c s (s\<lparr>sv_locks := f\<rparr>)" "unaffected c s (s\<lparr>sv_except_client_set := x\<rparr>)" "unaffected c s (s\<lparr>sv_client_num := v\<rparr>)"
  "unaffected c s (upd_client d (\<lambda>e. e\<lparr>ce_client_lock_updated := True\<rparr>) s)" "unaffected c s (s\<lparr>sv_conns := y\<rparr>)"
proof -
  show "unaffected c s (link_lock d i p l s)"
    using unaffected_upd_client[of d c "\<lambda>e. e\<lparr>ce_lock_map := um_insert i p (ce_lock_map e)\<rparr>" s] by (simp add: link_lock_def unaffected_def)
  show "unaffected c s (drop_client_lock d i s)" by (simp add: drop_client_lock_def unaffected_upd_client)
qed (simp_all add: unaffected_upd_client, simp_all add: unaffected_def erase_client_def add_lock_def lock_entry_release_def Let_def delete_jetty_def
    delete_dlock_connection_def set_peer_def split: option.split)

lemmas unaffected_simps [simp] = unaffected_ops unaffected_ops[THEN unaffected_step(1)] unaffected_ops[THEN unaffected_step(2)]

lemma unaffected_find: "find_available_lock_id i s = (s1, r) \<Longrightarrow> unaffected c s s1"
  using find_available_lock_id_spec(1)[of i s s1 r] by (auto intro: unaffected_same)

lemma unaffected_get: "get_lock_by_msg me g s = Some (s1, g1, r) \<Longrightarrow> unaffected c s s1"
  by (auto simp: get_lock_by_msg_def Let_def bind_eq_Some_conv split: option.splits if_splits sum.splits prod.splits
      dest!: unaffected_find[of _ _ _ _ c])

lemma unaffected_update: "update_lock_by_msg me g s = Some (s1, g1, r) \<Longrightarrow> unaffected c s s1"
  by (auto simp: update_lock_by_msg_def Let_def bind_eq_Some_conv split: option.splits if_splits sum.splits prod.splits
      dest!: unaffected_find[of _ _ _ _ c])

lemma unaffected_batch_get: "batch_get_loop E d len n i off b s = Some (s1, b1, ok) \<Longrightarrow> unaffected c s s1"
proof (induction n arbitrary: i off b s)
  case (Suc n)
  show ?case
  proof (cases "off + DLOCK_GET_LOCK_BODY_LEN + unat (gl_desc_len (get_lock_body_at b off)) > len")
    case False
    with Suc.prems obtain s0 g1 r where g: "get_lock_by_msg (e_mem E i) (get_lock_body_at b off) s = Some (s0, g1, r)"
      by (auto simp: Let_def bind_eq_Some_conv)
    let ?t = "case r of None \<Rightarrow> s0 | Some p \<Rightarrow> (case map_of (sv_client_map s0) d of
        None \<Rightarrow> s0 | Some ce \<Rightarrow> if map_of (ce_lock_map ce) (gl_lock_id g1) \<noteq> None then s0
          else link_lock d (gl_lock_id g1) p (gl_lease_time g1) s0)"
    from False Suc.prems g have "unaffected c ?t s1" by (simp add: Let_def) (erule Suc.IH)
    moreover have "unaffected c s0 ?t" by (simp split: option.split)
    ultimately show ?thesis using unaffected_get[OF g] unaffected_trans by blast
  qed (use Suc.prems in \<open>simp add: Let_def\<close>)
qed simp

lemma unaffected_batch_update: "batch_update_loop E d len n i off b s = Some (s1, b1) \<Longrightarrow> unaffected c s s1"
proof (induction n arbitrary: i off b s)
  case (Suc n)
  show ?case
  proof (cases "off + DLOCK_UPDATE_LOCK_BODY_LEN + ul_desc_len (update_lock_body_at b off) > len")
    case False
    with Suc.prems obtain s0 g1 r where g: "update_lock_by_msg (e_mem E i) (update_lock_body_at b off) s = Some (s0, g1, r)"
      by (auto simp: Let_def bind_eq_Some_conv)
    let ?t = "case r of None \<Rightarrow> s0 | Some p \<Rightarrow> (case map_of (sv_client_map s0) d of
        None \<Rightarrow> s0 | Some ce \<Rightarrow> if map_of (ce_lock_map ce) (ul_lock_id g1) \<noteq> None then s0
          else upd_client d (\<lambda>e. e\<lparr>ce_client_lock_updated := True\<rparr>) (link_lock d (ul_lock_id g1) p (ul_lease_time g1) s0))"
    from False Suc.prems g have "unaffected c ?t s1" by (simp add: Let_def) (erule Suc.IH)
    moreover have "unaffected c s0 ?t" by (simp split: option.split)
    ultimately show ?thesis using unaffected_update[OF g] unaffected_trans by blast
  qed (use Suc.prems in \<open>simp add: Let_def\<close>)
qed simp

lemma unaffected_release: "release_lock_map_entry i p d s = Some t \<Longrightarrow> unaffected c s t"
  by (auto simp: release_lock_map_entry_def Let_def bind_eq_Some_conv)

lemma unaffected_batch_release: "batch_release_loop d n off b s = Some s1 \<Longrightarrow> unaffected c s s1"
proof (induction n arbitrary: off s)
  case (Suc n)
  from Suc.prems show ?case
    by (auto simp: Let_def bind_eq_Some_conv split: option.splits dest!: Suc.IH unaffected_release[of _ _ _ _ _ c] intro: unaffected_trans unaffected_trans2)
qed simp

lemma unaffected_clear_lock: "clear_lock_client_relation d xs s = Some t \<Longrightarrow> unaffected c s t"
proof (induction xs arbitrary: s)
  case (Cons x xs)
  obtain i p where "x = (i, p)" by fastforce
  with Cons.prems show ?case by (auto simp: Let_def bind_eq_Some_conv split: if_splits dest!: Cons.IH)
qed simp

text \<open>The handlers that do not work on objects.\<close>

lemma unaffected_reply: "send_reply E a b ty body s = Some (t, rs, r) \<Longrightarrow> unaffected c s t"
  by (auto dest: send_reply_state)

lemma unaffected_locks:
  assumes "f \<in> {get_lock_do, release_lock_do, batch_get_lock_do, batch_release_lock_do, batch_update_locks_do, client_heartbeat_do}"
    "f E k h body s = Some (t, rs, r)"
  shows "unaffected c s t"
proof -
  consider "f = get_lock_do" | "f = release_lock_do" | "f = batch_get_lock_do" | "f = batch_release_lock_do" | "f = batch_update_locks_do" |
    "f = client_heartbeat_do" using assms(1) by blast
  then show ?thesis
  proof cases
    case 1
    with assms(2) show ?thesis
      by (auto simp: get_lock_do_def fail_def Let_def bind_eq_Some_conv get_lock_reply_def split: if_splits option.splits
          dest!: send_reply_state unaffected_get[of _ _ _ _ _ _ c])
  next
    case 2
    with assms(2) show ?thesis
      by (auto simp: release_lock_do_def fail_def Let_def bind_eq_Some_conv split: if_splits option.splits
          dest!: send_reply_state unaffected_release[of _ _ _ _ _ c])
  next
    case 3
    with assms(2) show ?thesis
      by (auto simp: batch_get_lock_do_def fail_def Let_def bind_eq_Some_conv split: if_splits option.splits
          dest!: send_reply_state unaffected_batch_get[of _ _ _ _ _ _ _ _ _ _ _ c])
  next
    case 4
    with assms(2) show ?thesis
      by (auto simp: batch_release_lock_do_def fail_def Let_def bind_eq_Some_conv split: if_splits option.splits
          dest!: send_reply_state unaffected_batch_release[of _ _ _ _ _ _ c])
  next
    case 5
    with assms(2) show ?thesis
      by (auto simp: batch_update_locks_do_def fail_def Let_def bind_eq_Some_conv split: if_splits option.splits
          dest!: unaffected_batch_update[of _ _ _ _ _ _ _ _ _ _ c])
  next
    case 6
    with assms(2) show ?thesis
      by (auto simp: client_heartbeat_do_def fail_def split: if_splits option.splits dest: send_reply_state)
  qed
qed

lemma unaffected_jetty: "modify_jetty_mgr_to_invalid E j s = Some (t, b) \<Longrightarrow> unaffected c s t"
  by (auto simp: modify_jetty_mgr_to_invalid_def bind_eq_Some_conv split: if_splits intro: unaffected_same)

lemma unaffected_primary: "init_client_primary E s = (t, j) \<Longrightarrow> unaffected c s t"
  by (auto simp: init_client_primary_def Let_def split: prod.splits option.splits intro: unaffected_same)

lemma unaffected_update_client: "update_client E d k j f s = (t, r) \<Longrightarrow> d \<noteq> c \<Longrightarrow> unaffected c s t"
proof -
  assume d: "d \<noteq> c" and u: "update_client E d k j f s = (t, r)"
  have i: "unaffected c s ((set_peer k d s)\<lparr>sv_client_map := um_insert d x (sv_client_map s)\<rparr>)" for x
    using d by (simp add: unaffected_def set_peer_def)
  have v: "unaffected c s (upd_client d g (set_peer k d s))" for g
    using unaffected_trans[OF _ unaffected_upd_client[of d c g "set_peer k d s"]] d by simp
  from u i v show ?thesis by (auto simp: update_client_def Let_def split: option.splits if_splits)
qed

lemma unaffected_count: "client_num_count_down s = Some t \<Longrightarrow> unaffected c s t"
  by (auto simp: client_num_count_down_def split: if_splits)

lemma unaffected_reinit_enter: "reinit_enter E k d j s = Some (t, rs, r) \<Longrightarrow> d \<noteq> c \<Longrightarrow> unaffected c s t"
  by (auto simp: reinit_enter_def fail_def init_client_response_def bind_eq_Some_conv split: if_splits prod.splits
      dest!: unaffected_update_client[of _ _ _ _ _ _ _ _ c] unaffected_reply[of _ _ _ _ _ _ _ _ _ c] intro: unaffected_trans unaffected_trans2)

lemma unaffected_reinit_clear: "reinit_clear d k ce s = Some t \<Longrightarrow> unaffected c s t"
proof -
  have j: "unaffected c s (upd_client d (\<lambda>e. e\<lparr>ce_p_jetty_mgr := None\<rparr>) s)" for s by (simp add: unaffected_upd_client)
  have k: "unaffected c s (upd_client d (\<lambda>e. e\<lparr>ce_p_conn := None\<rparr>) s)" for s by (simp add: unaffected_upd_client)
  show "reinit_clear d k ce s = Some t \<Longrightarrow> unaffected c s t"
    by (auto simp: reinit_clear_def bind_eq_Some_conv Let_def unaffected_step(1)[OF j] unaffected_step(1)[OF k] split: if_splits option.splits)
qed

lemma unaffected_clients:
  assumes "f \<in> {reinit_client_do, reinit_client_done, deinit_client_do}" "h_client_id h \<noteq> c" "f E k h body s = Some (t, rs, r)"
  shows "unaffected c s t"
proof -
  consider "f = reinit_client_do" | "f = reinit_client_done" | "f = deinit_client_do" using assms(1) by blast
  then show ?thesis
  proof cases
    case 1
    with assms(2,3) show ?thesis
      by (auto simp: reinit_client_do_def fail_def Let_def bind_eq_Some_conv split: if_splits option.splits prod.splits
          dest!: unaffected_primary[of _ _ _ _ c] unaffected_reinit_enter[of _ _ _ _ _ _ _ _ c] unaffected_count[of _ _ c] unaffected_reinit_clear[of _ _ _ _ _ c]
          intro: unaffected_trans unaffected_trans2)
  next
    case 2
    have v: "unaffected c s (upd_client d (\<lambda>e. e\<lparr>ce_reinit_flag := False\<rparr>) s)" for d s by (simp add: unaffected_upd_client)
    have n: "unaffected c s (s\<lparr>sv_recovery_client_num := m\<rparr>)" "unaffected c s (s\<lparr>sv_server_state := x\<rparr>)" for s m x by (simp_all add: unaffected_def)
    note n' = unaffected_step(1)[OF n(1)] unaffected_step(1)[OF n(2)]
    from 2 assms(3) show ?thesis
      by (auto simp: reinit_client_done_def fail_def Let_def bind_eq_Some_conv v n' unaffected_step(1)[OF v] split: if_splits option.splits
          dest!: unaffected_reply[of _ _ _ _ _ _ _ _ _ c])
  next
    case 3
    with assms(2,3) show ?thesis
      by (auto simp: deinit_client_do_def fail_def Let_def bind_eq_Some_conv split: if_splits option.splits
          dest!: unaffected_jetty[of _ _ _ _ _ c] unaffected_count[of _ _ c] unaffected_reply[of _ _ _ _ _ _ _ _ _ c] intro: unaffected_trans unaffected_trans2)
  qed
qed

lemma alloc_client_id_fresh: "alloc_client_id n rs s = Some d \<Longrightarrow> map_of (sv_client_map s) d = None"
  by (induction n rs s rule: alloc_client_id.induct) (auto simp: Let_def split: if_splits)

lemma unaffected_init_enter:
  assumes c: "map_of (sv_client_map s) c \<noteq> None" and i: "init_client_enter E k ret s = Some (t, rs, r)"
  shows "unaffected c s t"
proof -
  have fresh: "get_client_id E s = Inr d \<Longrightarrow> d \<noteq> c" for d
    using c alloc_client_id_fresh by (fastforce simp: get_client_id_def split: if_splits option.splits)
  from i show ?thesis
    by (auto simp: init_client_enter_def fail_def init_client_response_def bind_eq_Some_conv split: if_splits option.splits prod.splits sum.splits
        dest!: fresh unaffected_primary[of _ _ _ _ c] unaffected_update_client[of _ _ _ _ _ _ _ _ c] unaffected_reply[of _ _ _ _ _ _ _ _ _ c] intro: unaffected_trans unaffected_trans2)
qed

subsection \<open>The operations on objects\<close>

lemma held_refcnt:
  assumes ok: "object_ok s" and h: "held now c p e s" and p: "sv_objects s p = Some f"
  shows "1 \<le> oe_refcnt f"
    "map_of (sv_client_map s) d = Some cd \<Longrightarrow> map_of (ce_object_map cd) (oe_id e) \<noteq> None \<Longrightarrow> d \<noteq> c \<Longrightarrow> 2 \<le> oe_refcnt f"
proof -
  obtain f' ce where H: "sv_objects s p = Some f'" "oe_id f' = oe_id e" "map_of (sv_client_map s) c = Some ce" "map_of (ce_object_map ce) (oe_id e) = Some p"
    by (rule heldE[OF h])
  with p have id: "oe_id f = oe_id e" by simp
  have c: "c \<in> holders s (oe_id e)" using H by (auto simp: holders_def)
  have R: "int (card (holders s (oe_id e))) \<le> oe_refcnt f" using object_okD(9)[OF ok p] id by simp
  have "card {c} \<le> card (holders s (oe_id e))" using c by (intro card_mono) auto
  with R show "1 \<le> oe_refcnt f" by simp
  assume "map_of (sv_client_map s) d = Some cd" "map_of (ce_object_map cd) (oe_id e) \<noteq> None" "d \<noteq> c"
  then have "{c, d} \<subseteq> holders s (oe_id e)" "card {c, d} = 2" using c by (auto simp: holders_def)
  then have "2 \<le> card (holders s (oe_id e))" by (metis card_mono finite_holders)
  with R show "2 \<le> oe_refcnt f" by simp
qed

lemma held_live:
  assumes "held now c p e s" "sv_objects s p = Some f"
  shows "oe_id f = oe_id e" "oe_desc f = oe_desc e" "n \<le> now \<Longrightarrow> \<not> check_lease_expired n f"
  using assms by (auto simp: held_def check_lease_expired_def)

lemma held_destroy:
  assumes ok: "object_ok s" and h: "held now c p e s" and q: "sv_objects s q = Some f" "q \<noteq> p" and g: "oe_id g = oe_id f"
  shows "held now c p e (destroy_object_entry q g s)"
proof -
  obtain e' ce where H: "sv_objects s p = Some e'" "oe_id e' = oe_id e" "oe_desc e' = oe_desc e" "oe_offset e' = oe_offset e"
    "now < oe_max_lease_tp e'" "map_of (sv_client_map s) c = Some ce" "map_of (ce_object_map ce) (oe_id e) = Some p"
    by (rule heldE[OF h])
  have "oe_id g \<noteq> oe_id e" using object_inj(1)[OF ok q(1) H(1)] q(2) g H(2) by auto
  with H q(2) show ?thesis by (auto simp: held_def destroy_object_entry_def drop_object_all_def map_of_map)
qed

lemma held_objects:
  assumes "held now c p e s" "\<And>f. sv_objects s p = Some f \<Longrightarrow> \<exists>g. sv_objects t p = Some g \<and> oe_id g = oe_id f \<and> oe_desc g = oe_desc f \<and>
      oe_offset g = oe_offset f \<and> oe_max_lease_tp f \<le> oe_max_lease_tp g"
    "\<And>ce. map_of (sv_client_map s) c = Some ce \<Longrightarrow> map_of (ce_object_map ce) (oe_id e) = Some p \<Longrightarrow>
      \<exists>ce'. map_of (sv_client_map t) c = Some ce' \<and> map_of (ce_object_map ce') (oe_id e) = Some p"
  shows "held now c p e t"
proof -
  obtain e' ce where H: "sv_objects s p = Some e'" "oe_id e' = oe_id e" "oe_desc e' = oe_desc e" "oe_offset e' = oe_offset e"
    "now < oe_max_lease_tp e'" "map_of (sv_client_map s) c = Some ce" "map_of (ce_object_map ce) (oe_id e) = Some p"
    by (rule heldE[OF assms(1)])
  obtain g where g: "sv_objects t p = Some g" "oe_id g = oe_id e'" "oe_desc g = oe_desc e'" "oe_offset g = oe_offset e'"
    "oe_max_lease_tp e' \<le> oe_max_lease_tp g" using assms(2)[OF H(1)] by blast
  obtain ce' where "map_of (sv_client_map t) c = Some ce'" "map_of (ce_object_map ce') (oe_id e) = Some p" using assms(3)[OF H(6,7)] by blast
  with g H show ?thesis unfolding held_def by (intro exI[of _ g] exI[of _ ce']) simp
qed

lemma held_upd_object:
  assumes "held now c p e s" and "\<And>f. oe_id (g f) = oe_id f \<and> oe_desc (g f) = oe_desc f \<and> oe_offset (g f) = oe_offset f \<and>
    oe_max_lease_tp f \<le> oe_max_lease_tp (g f)"
  shows "held now c p e (upd_object q g s)"
  by (rule held_objects[OF assms(1)]) (use assms(2) in \<open>auto simp: upd_object_def\<close>)

text \<open>Another client gives up its reference; the entry is deleted only when nobody is left or the lease has run out.\<close>

lemma held_drop:
  assumes ok: "object_ok s" and h: "held now c p e s" and d: "map_of (sv_client_map s) d = Some cd" "map_of (ce_object_map cd) i = Some q" "d \<noteq> c"
    and f: "sv_objects s q = Some f" and b: "b \<Longrightarrow> oe_refcnt (drop_object_ref d f) = 0 \<or> check_lease_expired n (drop_object_ref d f)" and n: "n \<le> now"
    and s1: "s1 = drop_client_object d i (s\<lparr>sv_objects := (sv_objects s)(q \<mapsto> drop_object_ref d f)\<rparr>)"
  shows "held now c p e (if b then destroy_object_entry q (drop_object_ref d f) s1 else s1)"
proof -
  have ok1: "object_ok s1" unfolding s1 by (rule drop_ref_ok[OF ok d(1,2) f])
  have h1: "held now c p e s1"
    by (rule held_objects[OF h]) (use f d(3) in \<open>auto simp: s1 drop_client_object_def upd_client_def drop_object_ref_def\<close>)
  have q1: "sv_objects s1 q = Some (drop_object_ref d f)" by (simp add: s1 drop_client_object_def upd_client_def)
  show ?thesis
  proof (cases "q = p")
    case True
    have id: "oe_id f = i" using client_object[OF ok d(1,2)] f by (metis option.inject)
    from held_refcnt(2)[OF ok h f[unfolded True] d(1) _ d(3)] held_live(1)[OF h f[unfolded True]] id d(2)
    have "2 \<le> oe_refcnt f" by simp
    moreover have "\<not> check_lease_expired n (drop_object_ref d f)" by (rule held_live(3)[OF h1 q1[unfolded True] n])
    ultimately have "\<not> b" using b by (auto simp: drop_object_ref_def)
    with h1 show ?thesis by simp
  next
    case False
    with h1 held_destroy[OF ok1 h1 q1 False refl] show ?thesis by simp
  qed
qed

lemma held_clear_one:
  assumes ok: "object_ok s" and T: "e_now E \<le> T" and h: "held T c p e s" and d: "map_of (sv_client_map s) d = Some cd" "map_of (ce_object_map cd) i = Some q" "d \<noteq> c"
    and f: "sv_objects s q = Some f"
  shows "held T c p e (clear_object_one E d i q f s)"
proof -
  let ?e = "drop_object_ref d f"
  let ?s1 = "drop_client_object d i (s\<lparr>sv_objects := (sv_objects s)(q \<mapsto> ?e)\<rparr>)"
  let ?b = "if oe_owner_id ?e \<noteq> d then oe_destroyed ?e \<and> (oe_refcnt ?e = 0 \<or> check_lease_expired (e_now E) ?e)
    else oe_refcnt ?e = 0 \<or> check_lease_expired (e_now E) ?e"
  have H: "held T c p e (if ?b then destroy_object_entry q ?e ?s1 else ?s1)"
    by (rule held_drop[OF ok h d f _ T refl]) (auto split: if_splits)
  then have "held T c p e (if ?b then destroy_object_entry q ?e ?s1 else upd_object q (\<lambda>e. e\<lparr>oe_owner_id := 0\<rparr>) ?s1)"
    using held_upd_object[of T c p e ?s1 "\<lambda>e. e\<lparr>oe_owner_id := 0\<rparr>" q] by (auto split: if_splits)
  with H show ?thesis by (auto simp: clear_object_one_def Let_def split: if_splits)
qed

lemma held_clear:
  "object_ok s \<Longrightarrow> held T c p e s \<Longrightarrow> e_now E \<le> T \<Longrightarrow> map_of (sv_client_map s) d = Some cd \<Longrightarrow> d \<noteq> c \<Longrightarrow> um_ok xs \<Longrightarrow>
    (\<And>i q. (i, q) \<in> set xs \<Longrightarrow> map_of (ce_object_map cd) i = Some q) \<Longrightarrow>
    clear_object_client_relation E d xs s = Some t \<Longrightarrow> held T c p e t"
proof (induction xs arbitrary: s cd)
  case (Cons x xs)
  obtain i q where x: "x = (i, q)" by fastforce
  have ip: "map_of (ce_object_map cd) i = Some q" using Cons.prems(7)[of i q] x by simp
  show ?case
  proof (rule clear_object_one[OF Cons.prems(1,4) ip, of E])
    fix f cf
    let ?t = "clear_object_one E d i q f s"
    assume S: "sv_objects s q = Some f" "\<And>xs. clear_object_client_relation E d ((i, q) # xs) s = clear_object_client_relation E d xs ?t"
      "object_ok ?t" "map_of (sv_client_map ?t) d = Some cf" "\<And>j. j \<noteq> i \<Longrightarrow> map_of (ce_object_map cf) j = map_of (ce_object_map cd) j"
    have k: "map_of (ce_object_map cf) j = Some r" if "(j, r) \<in> set xs" for j r
    proof -
      have "j \<noteq> i" using that Cons.prems(6) by (force simp: x um_ok_def)
      with S(5) Cons.prems(7)[of j r] that show ?thesis by simp
    qed
    have "um_ok xs" using Cons.prems(6) by (simp add: um_ok_def)
    moreover have "clear_object_client_relation E d xs ?t = Some t" using Cons.prems(8) S(2) by (simp only: x)
    ultimately show ?case
      using Cons.IH[OF S(3) held_clear_one[OF Cons.prems(1,3,2,4) ip Cons.prems(5) S(1)] Cons.prems(3) S(4) Cons.prems(5) _ k] by blast
  qed
qed simp

subsection \<open>The handlers\<close>

lemma object_reply_state: "object_reply E q ty n b s = Some (t, rs, r) \<Longrightarrow> t = s"
  by (auto simp: object_reply_def dest: send_reply_state)

lemma held_release:
  assumes ok: "object_ok s" and T: "e_now E \<le> T" and h: "held T c p e s" and d: "h_client_id h \<noteq> c" and f: "release_object_do E k h body s = Some (t, rs, r)"
  shows "held T c p e t"
proof (cases "check_msg_body_len_invalid h (of_nat DLOCK_OBJECT_RELEASE_BODY_LEN) \<or> map_of (sv_client_map s) (h_client_id h) = None")
  case True
  with f h show ?thesis by (auto simp: release_object_do_def fail_def Let_def split: if_splits)
next
  case False
  then obtain cd where c: "map_of (sv_client_map s) (h_client_id h) = Some cd" by auto
  with f False obtain b where b: "body = Some b" by (auto simp: release_object_do_def bind_eq_Some_conv Let_def)
  show ?thesis
  proof (cases "map_of (ce_object_map cd) (load32 b 0)")
    case None
    with f h c b False show ?thesis by (simp add: release_object_do_def fail_def)
  next
    case (Some q)
    obtain x where x: "sv_objects s q = Some x" by (rule client_object[OF ok c Some])
    have "object_reply E (ce_p_conn cd) OBJECT_RELEASE_RESPONSE DLOCK_OBJECT_RELEASE_BODY_LEN b
      (if oe_destroyed (drop_object_ref (h_client_id h) x) \<and> (oe_refcnt (drop_object_ref (h_client_id h) x) = 0 \<or>
          check_lease_expired (e_now E) (drop_object_ref (h_client_id h) x))
       then destroy_object_entry q (drop_object_ref (h_client_id h) x) (drop_client_object (h_client_id h) (load32 b 0)
         (s\<lparr>sv_objects := (sv_objects s)(q \<mapsto> drop_object_ref (h_client_id h) x)\<rparr>))
       else drop_client_object (h_client_id h) (load32 b 0) (s\<lparr>sv_objects := (sv_objects s)(q \<mapsto> drop_object_ref (h_client_id h) x)\<rparr>))
      = Some (t, rs, r)"
      using f c b Some x False by (simp add: release_object_do_def Let_def)
    from object_reply_state[OF this] show ?thesis by (simp only:) (rule held_drop[OF ok h c Some d x _ T refl], blast)
  qed
qed

lemma held_get:
  assumes h: "held now c p e s" and d: "h_client_id h \<noteq> c" and f: "get_object_do E k h body s = Some (t, rs, r)"
  shows "held now c p e t"
proof -
  have u: "held now c p e u \<Longrightarrow> held now c p e (upd_client (h_client_id h) g u)" for u g
    using unaffected_held[OF _ unaffected_upd_client] d by blast
  have x: "held now c p e u \<Longrightarrow> held now c p e (upd_object q (extend_lease c' l) u)"
    "held now c p e u \<Longrightarrow> held now c p e (upd_object q (\<lambda>e. e\<lparr>oe_refcnt := oe_refcnt e + 1\<rparr>) u)" for q c' l u
    by (intro held_upd_object; simp add: extend_lease_def)+
  from f h show ?thesis
    by (auto simp: get_object_do_def fail_def Let_def bind_eq_Some_conv split: if_splits option.splits sum.splits
        dest!: object_reply_state intro!: x u)
qed

lemma held_destroy_do:
  assumes ok: "object_ok s" and T: "e_now E \<le> T" and h: "held T c p e s" and f: "destroy_object_do E k h body s = Some (t, rs, r)"
  shows "held T c p e t"
proof -
  have D: "held T c p e (if oe_refcnt x = 0 \<or> check_lease_expired (e_now E) (x\<lparr>oe_destroyed := True\<rparr>)
      then destroy_object_entry q (x\<lparr>oe_destroyed := True\<rparr>) (s\<lparr>sv_objects := (sv_objects s)(q \<mapsto> x\<lparr>oe_destroyed := True\<rparr>)\<rparr>)
      else s\<lparr>sv_objects := (sv_objects s)(q \<mapsto> x\<lparr>oe_destroyed := True\<rparr>)\<rparr>)" (is "held _ _ _ _ (if ?b then ?u else ?v)")
    if q: "sv_objects s q = Some x" for q x
  proof -
    have v: "?v = upd_object q (\<lambda>e. e\<lparr>oe_destroyed := True\<rparr>) s" using q by (simp add: upd_object_def)
    have hv: "held T c p e ?v" unfolding v by (rule held_upd_object[OF h]) simp
    have okv: "object_ok ?v" unfolding v by (rule object_ok_upd_object[OF ok]) simp_all
    show ?thesis
    proof (cases "q = p")
      case True
      have "\<not> check_lease_expired (e_now E) (x\<lparr>oe_destroyed := True\<rparr>)" by (rule held_live(3)[OF hv _ T]) (simp add: True)
      moreover have "1 \<le> oe_refcnt x" by (rule held_refcnt(1)[OF ok h]) (use q True in simp)
      ultimately show ?thesis using hv by simp
    next
      case False
      with hv held_destroy[OF okv hv _ False refl, of "x\<lparr>oe_destroyed := True\<rparr>"] show ?thesis by simp
    qed
  qed
  show ?thesis
  proof (cases "check_msg_body_len_invalid h (of_nat DLOCK_OBJECT_DESTROY_BODY_LEN) \<or> map_of (sv_client_map s) (h_client_id h) = None")
    case True
    with f h show ?thesis by (auto simp: destroy_object_do_def fail_def Let_def split: if_splits)
  next
    case False
    then obtain cd where c: "map_of (sv_client_map s) (h_client_id h) = Some cd" by auto
    with f False obtain b where b: "body = Some b" by (auto simp: destroy_object_do_def bind_eq_Some_conv Let_def)
    show ?thesis
    proof (cases "map_of (sv_object_map s) (load32 b 0)")
      case None
      with f h c b False show ?thesis by (simp add: destroy_object_do_def fail_def)
    next
      case (Some q)
      then obtain x where x: "sv_objects s q = Some x" using object_okD(5)[OF ok] by blast
      show ?thesis
      proof (cases "oe_owner_id x \<noteq> h_client_id h \<and> oe_owner_id x \<noteq> 0 \<or> oe_destroyed x")
        case True
        with f h c b False Some x show ?thesis by (auto simp: destroy_object_do_def fail_def split: if_splits)
      next
        case nf: False
        have "object_reply E (ce_p_conn cd) OBJECT_DESTROY_RESPONSE DLOCK_OBJECT_DESTROY_BODY_LEN b
          (if oe_refcnt x = 0 \<or> check_lease_expired (e_now E) (x\<lparr>oe_destroyed := True\<rparr>)
           then destroy_object_entry q (x\<lparr>oe_destroyed := True\<rparr>) (s\<lparr>sv_objects := (sv_objects s)(q \<mapsto> x\<lparr>oe_destroyed := True\<rparr>)\<rparr>)
           else s\<lparr>sv_objects := (sv_objects s)(q \<mapsto> x\<lparr>oe_destroyed := True\<rparr>)\<rparr>) = Some (t, rs, r)"
          using f c b Some x False nf by (auto simp: destroy_object_do_def Let_def split: if_splits)
        from object_reply_state[OF this] show ?thesis by (simp only:) (rule D[OF x])
      qed
    qed
  qed
qed

lemma create_frame:
  assumes ok: "object_ok s" and cr: "create_object_by_msg me g c s = (s1, g1, r)"
  shows "sv_client_map s1 = sv_client_map s" "sv_objects s p = Some x \<Longrightarrow> sv_objects s1 p = Some x" "r = Some q \<Longrightarrow> q = sv_next_ptr s"
proof -
  obtain s0 v where f: "find_available_object_id (ob_obj_id g) s = (s0, v)" by fastforce
  obtain j where s0: "s0 = s\<lparr>sv_curr_object_id := j\<rparr>" using find_available_object_id_spec(1)[OF f] by blast
  have p: "sv_objects s p = Some x \<Longrightarrow> p \<noteq> sv_next_ptr s" using object_okD(8)[OF ok, of p x] by auto
  show "sv_client_map s1 = sv_client_map s" "sv_objects s p = Some x \<Longrightarrow> sv_objects s1 p = Some x" "r = Some q \<Longrightarrow> q = sv_next_ptr s"
    using cr p f s0 by (auto simp: create_object_by_msg_def Let_def add_object_def split: if_splits sum.splits option.splits prod.splits)
qed

lemma held_refresh:
  assumes ok: "object_ok s" and h: "held now c p e s" and q: "sv_objects s q = Some x" "q \<noteq> p"
  shows "held now c p e (refresh_object_entry E q x d l s)"
proof -
  obtain e' ce where H: "sv_objects s p = Some e'" "oe_id e' = oe_id e" by (rule heldE[OF h])
  have "oe_id x \<noteq> oe_id e" using object_inj(1)[OF ok q(1) H(1)] q(2) H(2) by auto
  then show ?thesis
    by (intro held_objects[OF h]) (use q in \<open>auto simp: refresh_object_entry_def drop_object_all_def upd_object_def map_of_map\<close>)
qed

lemma held_create:
  assumes ok: "object_ok s" and T: "e_now E \<le> T" and h: "held T c p e s" and f: "create_object_do E k h body s = Some (t, rs, r)"
  shows "held T c p e t"
proof -
  from f obtain b where b: "body = Some b" by (auto simp: create_object_do_def bind_eq_Some_conv)
  let ?g = "object_create_body_at b" and ?d = "h_client_id h"
  show ?thesis
  proof (cases "check_msg_body_len_invalid h (of_nat DLOCK_OBJECT_CREATE_BODY_LEN + ucast (ob_desc_len ?g)) \<or> map_of (sv_client_map s) ?d = None \<or>
      \<not> new_desc (e_mem E 0) \<or> (\<exists>x. descriptor_init (e_mem E 0) (ob_desc_len ?g) (ob_body_desc ?g) = Inl x)")
    case True
    with f h b show ?thesis by (auto simp: create_object_do_def fail_def Let_def split: if_splits option.splits)
  next
    case False
    then obtain cd where cd: "map_of (sv_client_map s) ?d = Some cd" by auto
    from False obtain d where d: "descriptor_init (e_mem E 0) (ob_desc_len ?g) (ob_body_desc ?g) = Inr d" by (metis sum.exhaust)
    note f' = f[unfolded create_object_do_def Let_def b bind.simps]
    show ?thesis
    proof (cases "map_of (sv_object_desc_map s) d")
      case None
      obtain s1 g1 v where cr: "create_object_by_msg (e_mem E 1) ?g ?d s = (s1, g1, v)" by (metis prod_cases3)
      note F = create_frame[OF ok cr]
      obtain e' where "sv_objects s p = Some e'" by (rule heldE[OF h])
      then have p: "p \<noteq> sv_next_ptr s" using object_okD(8)[OF ok] by blast
      have h1: "held T c p e s1" by (rule held_objects[OF h]) (use F(1,2) in auto)
      have hn: "held T c p e u \<Longrightarrow> held T c p e ((upd_object (sv_next_ptr s) g' u)\<lparr>sv_curr_object_num := n\<rparr>)" for g' n u
        by (erule held_objects) (use p in \<open>auto simp: upd_object_def\<close>)
      show ?thesis
      proof (cases v)
        case v: None
        with f' False cd d None cr h h1 show ?thesis by (auto simp: fail_def split: if_splits)
      next
        case v: (Some q)
        with F(3) have q: "q = sv_next_ptr s" by simp
        from f' False cd d None cr v h show ?thesis
          by (auto simp: fail_def q split: if_splits dest!: object_reply_state intro: hn[OF h1])
      qed
    next
      case (Some q)
      then obtain x where x: "sv_objects s q = Some x" using object_okD(10)[OF ok] by blast
      have ext: "held T c p e (upd_object q (extend_lease ?d l) s)" for l by (rule held_upd_object[OF h]) (simp add: extend_lease_def)
      have ref: "held T c p e (refresh_object_entry E q x ?d l s)" if "\<not> (oe_refcnt x \<noteq> 0 \<and> \<not> check_lease_expired (e_now E) x)" for l
      proof (rule held_refresh[OF ok h x])
        show "q \<noteq> p"
        proof
          assume "q = p"
          then have "1 \<le> oe_refcnt x" "\<not> check_lease_expired (e_now E) x" using held_refcnt(1)[OF ok h] held_live(3)[OF h _ T] x by auto
          with that show False by simp
        qed
      qed
      from f' False cd d Some x h ext ref show ?thesis by (auto simp: fail_def split: if_splits dest!: object_reply_state)
    qed
  qed
qed

lemma held_except:
  "ctl_ok s \<Longrightarrow> held T c p e s \<Longrightarrow> e_now E \<le> T \<Longrightarrow> c \<notin> set cs \<Longrightarrow> delete_except_client_loop E cs s = Some (t, r) \<Longrightarrow> held T c p e t"
proof (induction cs arbitrary: s)
  case (Cons d cs)
  show ?case
  proof (cases "map_of (sv_client_map s) d")
    case None
    with Cons.prems show ?thesis by simp
  next
    case (Some cd)
    from Cons.prems(5) Some obtain s1 ok1 where m: "modify_jetty_mgr_to_invalid E (ce_p_jetty_mgr cd) s = Some (s1, ok1)"
      by (auto simp: bind_eq_Some_conv)
    have h1: "held T c p e s1" by (rule unaffected_held[OF Cons.prems(2) unaffected_jetty[OF m]])
    have c1: "ctl_ok s1" using modify_jetty_ok[OF Cons.prems(1) m] by simp
    show ?thesis
    proof (cases ok1)
      case False
      with Cons.prems(5) Some m have "delete_except_client_loop E cs s1 = Some (t, r)" by simp
      with Cons.IH[OF c1 h1 Cons.prems(3)] Cons.prems(4) show ?thesis by simp
    next
      case True
      from Cons.prems(5) Some m True obtain s2 s3 where l: "clear_lock_client_relation d (ce_lock_map cd) s1 = Some s2"
          "clear_object_client_relation E d (ce_object_map cd) s2 = Some s3"
        and t: "t = (erase_client d s3)\<lparr>sv_client_num := sv_client_num s3 - 1, sv_except_client_set := removeAll d (sv_except_client_set s3)\<rparr>"
        by (auto simp: bind_eq_Some_conv)
      have d: "d \<noteq> c" using Cons.prems(4) by auto
      have cd1: "map_of (sv_client_map s1) d = Some cd" using m Some by (auto simp: modify_jetty_mgr_to_invalid_def bind_eq_Some_conv split: if_splits)
      have o1: "object_ok s1" using c1 by (simp add: ctl_ok_def)
      have o2: "object_ok s2" using object_ok_same[OF o1] clear_lock_frame[OF l(1)] by blast
      obtain cd2 where cd2: "map_of (sv_client_map s2) d = Some cd2" "ce_object_map cd2 = ce_object_map cd"
        using clear_lock_frame[OF l(1), of d] cd1 by auto
      have um: "um_ok (ce_object_map cd)" by (rule object_okD(11)[OF o1 cd1])
      have h2: "held T c p e s2" by (rule unaffected_held[OF h1 unaffected_clear_lock[OF l(1)]])
      have "held T c p e s3"
        by (rule held_clear[OF o2 h2 Cons.prems(3) cd2(1) d um _ l(2)]) (use um cd2(2) in \<open>simp add: um_ok_def\<close>)
      from unaffected_held[OF this] d show ?thesis by (simp add: t)
    qed
  qed
qed simp

lemma held_registered: "held T c p e s \<Longrightarrow> map_of (sv_client_map s) c \<noteq> None"
  by (auto simp: held_def)

lemma held_init:
  assumes ok: "ctl_ok s" and h: "held T c p e s" and T: "e_now E \<le> T" and c: "c \<notin> set (sv_except_client_set s)"
    and f: "init_client_do E k h body s = Some (t, rs, r)"
  shows "held T c p e t"
proof -
  have enter: "held T c p e u \<Longrightarrow> init_client_enter E k ret u = Some (t, rs, r) \<Longrightarrow> held T c p e t" for ret u
    by (rule unaffected_held, assumption, rule unaffected_init_enter, erule held_registered, assumption)
  have prim: "sv_is_primary s" using ok by (auto simp: ctl_ok_def intro: lock_okD(2))
  show ?thesis
  proof (cases "check_msg_body_len_invalid h (e_init_req_body_len E) \<or> \<not> negotiate_proto_version E")
    case True
    with f h show ?thesis by (auto simp: init_client_do_def fail_def split: if_splits)
  next
    case False
    show ?thesis
    proof (cases "sv_client_num s = MAX_NUM_CLIENT")
      case full: True
      with f False obtain s1 ret where d: "delete_except_client_entry E s = Some (s1, ret)" by (auto simp: init_client_do_def bind_eq_Some_conv)
      have ok1: "ctl_ok s1" by (rule delete_except_client_entry_ok[OF ok d])
      have h1: "held T c p e s1"
        using d h held_except[OF ok h T c] by (auto simp: delete_except_client_entry_def split: if_splits)
      have "sv_is_primary s1" using ok1 by (auto simp: ctl_ok_def intro: lock_okD(2))
      with f False full d h1 enter[OF h1] show ?thesis by (auto simp: init_client_do_def fail_def split: if_splits)
    next
      case nf: False
      with f False prim enter[OF h] show ?thesis by (auto simp: init_client_do_def fail_def split: if_splits)
    qed
  qed
qed

lemma held_control:
  assumes ok: "ctl_ok s" and h: "held T c p e s" and T: "e_now E \<le> T" and c: "c \<notin> set (sv_except_client_set s)"
    and d: "h_client_id h \<noteq> c" and g: "g_control_do ty = Some f" and f: "f E k h body s = Some (t, rs, r)"
  shows "held T c p e t"
proof -
  have ob: "object_ok s" using ok by (simp add: ctl_ok_def)
  from g have "f = init_client_do \<or> f = create_object_do \<or> f = get_object_do \<or> f = release_object_do \<or> f = destroy_object_do \<or>
      f \<in> {get_lock_do, release_lock_do, batch_get_lock_do, batch_release_lock_do, batch_update_locks_do, client_heartbeat_do} \<or>
      f \<in> {reinit_client_do, reinit_client_done, deinit_client_do}"
    by (auto simp: g_control_do_def split: if_splits)
  then show ?thesis
    using f held_init[OF ok h T c] held_create[OF ob T h] held_get[OF h d] held_release[OF ob T h d] held_destroy_do[OF ob T h]
      unaffected_held[OF h unaffected_locks] unaffected_held[OF h unaffected_clients[OF _ d]]
    by (elim disjE) (simp_all only:)
qed

lemma held_exception: "held T c p e s \<Longrightarrow> held T c p e (mark_client_exception d k s)"
proof (erule unaffected_held)
  have "unaffected c s (upd_client d (\<lambda>e. e\<lparr>ce_p_conn := None\<rparr>) s)" by (simp add: unaffected_upd_client)
  then show "unaffected c s (mark_client_exception d k s)" by (simp add: mark_client_exception_def split: option.split)
qed

lemma held_message:
  assumes ok: "ctl_ok s" and h: "held T c p e s" and T: "e_now E \<le> T" and c: "c \<notin> set (sv_except_client_set s)"
    and d: "h_client_id h \<noteq> c" and m: "process_control_msg E k h body s = Some (t, rs, r)"
  shows "held T c p e t"
proof -
  let ?s = "s\<lparr>sv_conns := um_update k (\<lambda>k. k\<lparr>cn_next_message_id := h_message_id h\<rparr>) (sv_conns s)\<rparr>"
  have err: "held T c p e u \<Longrightarrow> process_control_msg_err E h k x u = Some (v, ys) \<Longrightarrow> held T c p e v" for u x v ys
    by (auto simp: process_control_msg_err_def bind_eq_Some_conv Let_def split: if_splits elim: unaffected_held)
  have "held T c p e ?s" by (rule unaffected_held[OF h]) simp
  moreover have "ctl_ok ?s" using ok by simp
  ultimately have ctl: "held T c p e u" if "g_control_do ty = Some f" "f E k h b ?s = Some (u, ys, x)" for ty f b u ys x
    using held_control[of ?s T c p e E h ty f k b u ys x] T c d that by simp
  obtain l where l: "map_of (sv_conns s) k = Some l" using m by (auto simp: process_control_msg_def bind_eq_Some_conv)
  show ?thesis
  proof (cases "check_control_msg_hdr h \<and> check_msg_type_range h (get_process_control_msg_range s) s = R_done \<and>
      check_control_msg_client_id h l \<and> \<not> (unat (h_total_len h) > DLOCK_FIXED_CTRL_MSG_HDR_LEN \<and> body = None) \<and> g_control_do (h_type h) \<noteq> None")
    case True
    then obtain f where f: "g_control_do (h_type h) = Some f" by auto
    let ?b = "if unat (h_total_len h) > DLOCK_FIXED_CTRL_MSG_HDR_LEN then body else None"
    from m l f True obtain u ys x where u: "f E k h ?b ?s = Some (u, ys, x)"
      by (auto simp: process_control_msg_def Let_def bind_eq_Some_conv split: if_splits)
    have "held T c p e u" by (rule ctl[OF f u])
    with m l f True u err show ?thesis by (auto simp: process_control_msg_def Let_def split: if_splits)
  next
    case False
    with m l h held_exception[OF h] err[OF h] show ?thesis
      by (auto simp: process_control_msg_def fail_def Let_def split: if_splits option.splits ctl_ret.splits)
  qed
qed

text \<open>
  What may happen while the client keeps its object: connections open and close, other clients send
  messages of any kind until time \<open>T\<close> while the client is not marked as disconnected, and lock commands are executed.
\<close>

inductive quiet_step :: "nat \<Rightarrow> u32 \<Rightarrow> dlock_server \<Rightarrow> dlock_server \<Rightarrow> bool" for T c where
  accept: "map_of (sv_conns s) k = None \<Longrightarrow>
    quiet_step T c s (s\<lparr>sv_conns := um_insert k \<lparr>cn_peer = None, cn_next_message_id = n\<rparr> (sv_conns s)\<rparr>)"
| closed: "conn_exception_process k s = Some t \<Longrightarrow> quiet_step T c s t"
| message: "process_control_msg E k h body s = Some (t, rs, r) \<Longrightarrow> e_now E \<le> T \<Longrightarrow> h_client_id h \<noteq> c \<Longrightarrow>
    c \<notin> set (sv_except_client_set s) \<Longrightarrow> quiet_step T c s t"
| command: "m = fst (do_lock (dec :: u8 list \<Rightarrow> _) enc post tv0 tvs tv1 d buf nid (sv_lock_memory s)) \<Longrightarrow>
    quiet_step T c s (s\<lparr>sv_lock_memory := m\<rparr>)"

lemma quiet_step_ctl: "quiet_step T c s t \<Longrightarrow> ctl_step s t"
  by (erule quiet_step.cases) (auto intro: ctl_step.intros)

lemma held_quiet:
  assumes "quiet_step T c s t" "ctl_ok s" "held T c p e s"
  shows "held T c p e t"
  using assms(1)
proof cases
  case (closed k)
  then show ?thesis
    using assms(3) held_exception[OF assms(3)]
    by (auto simp: conn_exception_process_def bind_eq_Some_conv elim: unaffected_held split: option.splits)
next
  case (message E k h body rs r)
  with held_message[OF assms(2,3)] show ?thesis by blast
qed (use assms(3) in \<open>auto elim: unaffected_held\<close>)

text \<open>
  Property C26.  A client that holds an object keeps it until its lease ends: in every run in which time stays before the end of
  the object's lease, the client is not disconnected when a message is handled and sends no message itself,
  the object stays live with the same id, descriptor and memory cell, and stays in the client's map, although other
  clients may create, get, release or destroy it, leave or be evicted.
\<close>

theorem object_lease_safe:
  assumes run: "ctl_step\<^sup>*\<^sup>* (init_as_primary n) s"
    and obj: "sv_objects s p = Some e" "T < oe_max_lease_tp e"
    and cl: "map_of (sv_client_map s) c = Some ce" "map_of (ce_object_map ce) (oe_id e) = Some p"
    and steps: "(quiet_step T c)\<^sup>*\<^sup>* s t"
  shows "\<exists>e' ce'. sv_objects t p = Some e' \<and> oe_id e' = oe_id e \<and> oe_desc e' = oe_desc e \<and> oe_offset e' = oe_offset e \<and>
    T < oe_max_lease_tp e' \<and> map_of (sv_client_map t) c = Some ce' \<and> map_of (ce_object_map ce') (oe_id e) = Some p"
proof -
  have "ctl_ok s" using ctl_reachable[OF run] by (simp add: ctl_ok_def)
  from steps this have "ctl_ok t \<and> held T c p e t"
  proof (induction rule: rtranclp_induct)
    case base
    then show ?case using obj cl by (auto simp: held_def)
  next
    case (step t u)
    then show ?case using ctl.inv_step quiet_step_ctl held_quiet by blast
  qed
  then show ?thesis by (simp add: held_def)
qed

theorem object_lease_safe_witness:
  "\<exists>t e'. (quiet_step 10 5)\<^sup>*\<^sup>* demo_object t \<and> sv_conns t \<noteq> sv_conns demo_object \<and> sv_objects t 1 = Some e' \<and> oe_id e' = 2 \<and> oe_offset e' = 0"
proof -
  let ?e = "(new_object [66] 2 5 0)\<lparr>oe_refcnt := 1, oe_max_lease_tp := 90000000000, oe_lease_tp_map := [(5, 90000000000)]\<rparr>"
  let ?t = "demo_object\<lparr>sv_conns := um_insert 8 \<lparr>cn_peer = None, cn_next_message_id = 3\<rparr> (sv_conns demo_object)\<rparr>"
  have "quiet_step 10 5 demo_object ?t" by (rule quiet_step.accept) (simp add: demo_object_def demo_created_def demo_client_def)
  then have st: "(quiet_step 10 5)\<^sup>*\<^sup>* demo_object ?t" by simp
  have o: "sv_objects demo_object 1 = Some ?e" "oe_id ?e = 2" "oe_offset ?e = 0" "10 < oe_max_lease_tp ?e"
    by (simp_all add: demo_object_def new_object_def)
  have c: "map_of (sv_client_map demo_object) 5 = Some ((new_client 5 7 50 False)\<lparr>ce_object_map := [(2, 1)]\<rparr>)"
    "map_of (ce_object_map ((new_client 5 7 50 False)\<lparr>ce_object_map := [(2, 1)]\<rparr>)) (oe_id ?e) = Some 1"
    by (simp_all add: demo_object_def new_object_def)
  obtain e' where "sv_objects ?t 1 = Some e'" "oe_id e' = 2" "oe_offset e' = 0"
    using object_lease_safe[OF demo_object_run o(1,4) c st] o(2,3) by auto
  with st show ?thesis by (intro exI[of _ ?t] exI[of _ e']) (simp add: um_insert_def demo_object_def demo_created_def demo_client_def)
qed

end
