(* ===== verification/UMQ_Ring.thy ===== *)
theory UMQ_Ring
  imports Umdk_Prelude
begin

section \<open>The shared-memory message ring of UMQ\<close>

text \<open>
  Module \<^verbatim>\<open>umq/msg_ring.c\<close>: two rings of fixed-size slots in shared memory, one per
  direction, each with a header of two indices (\<open>pi\<close> written by the producer, \<open>ci\<close> by the
  consumer).  A slot is a 32-bit length followed by the payload.  Memory is the byte
  memory of the prelude; addresses are numbers, offsets and indices are 32-bit words as in
  the code.  The functions for the two directions are the same code over different fields of
  \<open>msg_ring_t\<close>: they are modelled once over a \<open>ring\<close> (the fields of one direction), and
  \<open>msg_ring_post_tx\<close> etc. select the direction.
\<close>

subsection \<open>Rings and handles\<close>

record ring =
  rg_base :: nat
  rg_hdr :: nat
  rg_max :: u32
  rg_depth :: u32

record msg_ring =
  mr_shm_size :: u32
  mr_owner :: bool
  mr_tx :: ring
  mr_rx :: ring

record msg_ring_option =
  opt_owner :: bool
  opt_tx_max_buf_size :: u32
  opt_tx_depth :: u32
  opt_rx_max_buf_size :: u32
  opt_rx_depth :: u32
  opt_addr :: "nat option"

definition MAX_MSG_RING_NAME :: nat where "MAX_MSG_RING_NAME = 31"
definition NUM_RING_HEADERS :: u32 where "NUM_RING_HEADERS = 2"

text \<open>\<open>sizeof(shm_ring_hdr_t)\<close> and \<open>sizeof(shm_ring_buf_hdr_t)\<close>.\<close>

definition shm_ring_hdr_size :: nat where "shm_ring_hdr_size = 16"
definition shm_ring_buf_hdr_size :: nat where "shm_ring_buf_hdr_size = 4"

definition init_hdr :: "nat \<Rightarrow> bmem \<Rightarrow> bmem" where
  "init_hdr h m = store32 (store32 (store32 (store32 m (h + 4) 0) h 0) (h + 8) 0) (h + 12) 0"

definition opt_shm_size :: "msg_ring_option \<Rightarrow> u32" where
  "opt_shm_size opt = opt_tx_depth opt * opt_tx_max_buf_size opt + opt_rx_depth opt * opt_rx_max_buf_size opt
     + NUM_RING_HEADERS * of_nat shm_ring_hdr_size"

text \<open>
  \<open>alloc_ok\<close> is whether the handle could be allocated; \<open>map_shm\<close> stands for opening, sizing and
  mapping the shared-memory object and returns the mapped address.  The receive header is
  placed as the code does: \<open>shm_tx_ring_hdr\<close> is a pointer to the header structure, so adding
  \<open>sizeof(shm_ring_hdr_t)\<close> to it moves 16 structures on.
\<close>

definition msg_ring_create ::
  "bool \<Rightarrow> (bool \<Rightarrow> u32 \<Rightarrow> nat option) \<Rightarrow> nat \<Rightarrow> msg_ring_option \<Rightarrow> bmem \<Rightarrow> bmem \<times> msg_ring option" where
  "msg_ring_create alloc_ok map_shm name_len opt m =
    (if name_len > MAX_MSG_RING_NAME then (m, None)
     else if \<not> alloc_ok then (m, None)
     else case (case opt_addr opt of None \<Rightarrow> map_shm (opt_owner opt) (opt_shm_size opt) | Some a \<Rightarrow> Some a) of
       None \<Rightarrow> (m, None)
     | Some ptr \<Rightarrow>
         (let rx = ptr + unat (opt_tx_depth opt * opt_tx_max_buf_size opt);
              txh = rx + unat (opt_rx_depth opt * opt_rx_max_buf_size opt);
              rxh = txh + shm_ring_hdr_size * shm_ring_hdr_size
          in (if opt_owner opt then init_hdr rxh (init_hdr txh m) else m,
              Some \<lparr>mr_shm_size = (if opt_addr opt = None then opt_shm_size opt else 0),
                    mr_owner = (opt_addr opt = None \<and> opt_owner opt),
                    mr_tx = \<lparr>rg_base = ptr, rg_hdr = txh, rg_max = opt_tx_max_buf_size opt, rg_depth = opt_tx_depth opt\<rparr>,
                    mr_rx = \<lparr>rg_base = rx, rg_hdr = rxh, rg_max = opt_rx_max_buf_size opt, rg_depth = opt_rx_depth opt\<rparr>\<rparr>)))"

subsection \<open>Posting and polling\<close>

definition rg_pi :: "ring \<Rightarrow> bmem \<Rightarrow> u32" where "rg_pi r m = load32 m (rg_hdr r)"
definition rg_ci :: "ring \<Rightarrow> bmem \<Rightarrow> u32" where "rg_ci r m = load32 m (rg_hdr r + 4)"

definition slot :: "ring \<Rightarrow> u32 \<Rightarrow> nat" where
  "slot r i = rg_base r + unat (i * rg_max r)"

definition EAGAIN :: int where "EAGAIN = 11"

text \<open>Writing one slot: payload, then length.\<close>

definition put_slot :: "ring \<Rightarrow> u32 \<Rightarrow> u8 list \<Rightarrow> bmem \<Rightarrow> bmem" where
  "put_slot r i bs m = store32 (store_bytes m (slot r i + shm_ring_buf_hdr_size) bs) (slot r i) (of_nat (length bs))"

definition set_pi :: "ring \<Rightarrow> u32 \<Rightarrow> bmem \<Rightarrow> bmem" where
  "set_pi r v m = store32 m (rg_hdr r) v"

definition set_ci :: "ring \<Rightarrow> u32 \<Rightarrow> bmem \<Rightarrow> bmem" where
  "set_ci r v m = store32 m (rg_hdr r + 4) v"

definition ring_post :: "ring \<Rightarrow> u8 list \<Rightarrow> bmem \<Rightarrow> bmem \<times> int" where
  "ring_post r bs m =
    (let payload_size = rg_max r - of_nat shm_ring_buf_hdr_size in
     if of_nat (length bs) > payload_size then (m, -1)
     else if (rg_pi r m + 1) mod rg_depth r = rg_ci r m then (m, - EAGAIN)
     else (let m1 = put_slot r (rg_pi r m) bs m in (set_pi r ((rg_pi r m1 + 1) mod rg_depth r) m1, 0)))"

fun put_slots :: "ring \<Rightarrow> u32 \<Rightarrow> u8 list list \<Rightarrow> bmem \<Rightarrow> bmem" where
  "put_slots r i [] m = m"
| "put_slots r i (bs # bss) m = put_slots r (i + 1) bss (put_slot r ((rg_pi r m + i) mod rg_depth r) bs m)"

definition ring_post_batch :: "ring \<Rightarrow> u8 list list \<Rightarrow> bmem \<Rightarrow> bmem \<times> int" where
  "ring_post_batch r bss m =
    (let left_cnt = (rg_ci r m + rg_depth r - rg_pi r m - 1) mod rg_depth r in
     if left_cnt < of_nat (length bss) then (m, -1)
     else (let m1 = put_slots r 0 bss m in (set_pi r ((rg_pi r m1 + of_nat (length bss)) mod rg_depth r) m1, 0)))"

text \<open>Reading one slot: \<open>None\<close> if the message is longer than the caller's buffer.\<close>

definition get_slot :: "ring \<Rightarrow> u32 \<Rightarrow> u32 \<Rightarrow> bmem \<Rightarrow> u8 list option" where
  "get_slot r i max_buf_size m =
    (let n = load32 m (slot r i) in
     if max_buf_size < n then None else Some (load_bytes m (slot r i + shm_ring_buf_hdr_size) (unat n)))"

definition ring_poll :: "ring \<Rightarrow> u32 \<Rightarrow> bmem \<Rightarrow> bmem \<times> u8 list option" where
  "ring_poll r max_buf_size m =
    (if rg_pi r m = rg_ci r m then (m, None)
     else case get_slot r (rg_ci r m) max_buf_size m of
       None \<Rightarrow> (m, None)
     | Some bs \<Rightarrow> (set_ci r ((rg_ci r m + 1) mod rg_depth r) m, Some bs))"

text \<open>The batch loop reads \<open>n\<close> slots from \<open>ci + i\<close> on; a message that is too long ends the call
  with \<open>-1\<close> and leaves \<open>ci\<close> where it was (\<open>None\<close>).\<close>

fun get_slots :: "ring \<Rightarrow> u32 \<Rightarrow> nat \<Rightarrow> u32 \<Rightarrow> bmem \<Rightarrow> u8 list list option" where
  "get_slots r i 0 max_buf_size m = Some []"
| "get_slots r i (Suc n) max_buf_size m =
    (case get_slot r ((rg_ci r m + i) mod rg_depth r) max_buf_size m of
       None \<Rightarrow> None
     | Some bs \<Rightarrow> map_option (\<lambda>bss. bs # bss) (get_slots r (i + 1) n max_buf_size m))"

definition ring_poll_batch :: "ring \<Rightarrow> u32 \<Rightarrow> u32 \<Rightarrow> bmem \<Rightarrow> bmem \<times> u8 list list option" where
  "ring_poll_batch r max_buf_size max_cnt m =
    (if rg_pi r m = rg_ci r m then (m, Some [])
     else
       (let left_cnt = (rg_pi r m + rg_depth r - rg_ci r m) mod rg_depth r;
            n = (if left_cnt < max_cnt then left_cnt else max_cnt) in
        case get_slots r 0 (unat n) max_buf_size m of
          None \<Rightarrow> (m, None)
        | Some bss \<Rightarrow> (set_ci r ((rg_ci r m + n) mod rg_depth r) m, Some bss)))"

definition msg_ring_post_tx where "msg_ring_post_tx h = ring_post (mr_tx h)"
definition msg_ring_post_tx_batch where "msg_ring_post_tx_batch h = ring_post_batch (mr_tx h)"
definition msg_ring_poll_tx where "msg_ring_poll_tx h = ring_poll (mr_tx h)"
definition msg_ring_poll_tx_batch where "msg_ring_poll_tx_batch h = ring_poll_batch (mr_tx h)"
definition msg_ring_post_rx where "msg_ring_post_rx h = ring_post (mr_rx h)"
definition msg_ring_poll_rx where "msg_ring_poll_rx h = ring_poll (mr_rx h)"
definition msg_ring_poll_rx_batch where "msg_ring_poll_rx_batch h = ring_poll_batch (mr_rx h)"

subsection \<open>Geometry\<close>

text \<open>
  The rings the code can serve: at least one slot and room for the length in each, offsets and
  index sums below \<open>2\<^sup>3\<^sup>2\<close>, and the indices outside the slots.
\<close>

definition ring_geom :: "ring \<Rightarrow> bool" where
  "ring_geom r \<longleftrightarrow> 0 < rg_depth r \<and> unat (rg_depth r) \<le> 2 ^ 31 \<and> 4 \<le> rg_max r \<and>
     unat (rg_depth r) * unat (rg_max r) < 2 ^ 32 \<and>
     (rg_base r + unat (rg_depth r) * unat (rg_max r) \<le> rg_hdr r \<or> rg_hdr r + 8 \<le> rg_base r)"

definition ring_ok :: "ring \<Rightarrow> bmem \<Rightarrow> bool" where
  "ring_ok r m \<longleftrightarrow> ring_geom r \<and> rg_pi r m < rg_depth r \<and> rg_ci r m < rg_depth r"

definition slot_n :: "ring \<Rightarrow> nat \<Rightarrow> nat" where
  "slot_n r k = rg_base r + k * unat (rg_max r)"

lemma slot_eq:
  assumes "ring_geom r" "unat i < unat (rg_depth r)"
  shows "slot r i = slot_n r (unat i)"
proof -
  have "unat i * unat (rg_max r) \<le> unat (rg_depth r) * unat (rg_max r)" using assms(2) by simp
  also have "\<dots> < 2 ^ 32" using assms(1) by (simp add: ring_geom_def)
  finally show ?thesis by (simp add: slot_def slot_n_def unat_word_ariths)
qed

text \<open>Indices as numbers.\<close>

abbreviation D :: "ring \<Rightarrow> nat" where "D r \<equiv> unat (rg_depth r)"
abbreviation P :: "ring \<Rightarrow> bmem \<Rightarrow> nat" where "P r m \<equiv> unat (rg_pi r m)"
abbreviation C :: "ring \<Rightarrow> bmem \<Rightarrow> nat" where "C r m \<equiv> unat (rg_ci r m)"

lemma ring_okD:
  assumes "ring_ok r m"
  shows "ring_geom r" "P r m < D r" "C r m < D r" "0 < D r" "D r \<le> 2 ^ 31"
  using assms by (auto simp: ring_ok_def ring_geom_def word_less_nat_alt)

definition wrap :: "nat \<Rightarrow> nat \<Rightarrow> nat" where
  "wrap d k = (if k < d then k else k - d)"

lemma wrap_mod: "k < 2 * d \<Longrightarrow> k mod d = wrap d k"
  by (auto simp: wrap_def mod_if)

lemma unat_add_mod:
  assumes "ring_geom r" "unat i < D r" "unat n \<le> D r"
  shows "unat ((i + n) mod rg_depth r) = wrap (D r) (unat i + unat n)"
proof -
  have "unat i + unat n < 2 ^ 32" "unat i + unat n < 2 * D r" using assms by (auto simp: ring_geom_def)
  then show ?thesis by (simp add: unat_mod unat_add_u32_small wrap_mod)
qed

definition ring_len :: "ring \<Rightarrow> bmem \<Rightarrow> nat" where
  "ring_len r m = (if C r m \<le> P r m then P r m - C r m else P r m + D r - C r m)"

lemma len_less: "ring_ok r m \<Longrightarrow> ring_len r m < D r"
  using ring_okD[of r m] by (auto simp: ring_len_def)

text \<open>\<open>left_cnt\<close> of the two batch functions: the messages in the ring, the free slots less one.\<close>

lemma unat_left_used:
  assumes "ring_ok r m"
  shows "unat ((rg_pi r m + rg_depth r - rg_ci r m) mod rg_depth r) = ring_len r m"
proof -
  note R = ring_okD[OF assms]
  have a: "unat (rg_pi r m + rg_depth r) = P r m + D r" using R by (intro unat_add_u32_small) simp
  have "unat (rg_pi r m + rg_depth r - rg_ci r m) = P r m + D r - C r m"
    using a R by (subst unat_sub_u32) (simp_all add: word_le_nat_alt)
  then show ?thesis using R by (auto simp: unat_mod ring_len_def mod_if)
qed

lemma unat_left_free:
  assumes "ring_ok r m"
  shows "unat ((rg_ci r m + rg_depth r - rg_pi r m - 1) mod rg_depth r) = D r - 1 - ring_len r m"
proof -
  note R = ring_okD[OF assms]
  have a: "unat (rg_ci r m + rg_depth r) = C r m + D r" using R by (intro unat_add_u32_small) simp
  have b: "unat (rg_ci r m + rg_depth r - rg_pi r m) = C r m + D r - P r m"
    using a R by (subst unat_sub_u32) (simp_all add: word_le_nat_alt)
  have "unat (rg_ci r m + rg_depth r - rg_pi r m - 1) = C r m + D r - P r m - 1"
    using b R by (subst unat_sub_u32) (simp_all add: word_le_nat_alt)
  then show ?thesis using R by (auto simp: unat_mod ring_len_def mod_if)
qed

subsection \<open>Slots\<close>

definition content :: "ring \<Rightarrow> bmem \<Rightarrow> nat \<Rightarrow> u8 list" where
  "content r m k = load_bytes m (slot_n r k + 4) (unat (load32 m (slot_n r k)))"

definition fits :: "ring \<Rightarrow> u8 list \<Rightarrow> bool" where
  "fits r bs \<longleftrightarrow> length bs + 4 \<le> unat (rg_max r)"

lemma content_cong:
  assumes "\<And>x. slot_n r k \<le> x \<Longrightarrow> x < slot_n r k + unat (rg_max r) \<Longrightarrow> m' x = m x" "fits r (content r m k)" "4 \<le> rg_max r"
  shows "content r m' k = content r m k"
proof -
  have l: "load32 m' (slot_n r k) = load32 m (slot_n r k)"
    using assms(1,3) by (intro load32_cong) (simp add: word_le_nat_alt)
  have "unat (load32 m (slot_n r k)) + 4 \<le> unat (rg_max r)" using assms(2) by (simp add: fits_def content_def load_bytes_def)
  then show ?thesis unfolding content_def l using assms(1) by (intro load_bytes_cong) simp
qed

lemma put_slot_content:
  assumes "fits r bs" "ring_geom r" "unat i < D r"
  shows "content r (put_slot r i bs m) (unat i) = bs"
proof -
  have "length bs < 4294967296" using assms(1) u32_lt_bound[of "rg_max r"] unfolding fits_def by linarith
  then have l: "unat (load32 (put_slot r i bs m) (slot_n r (unat i))) = length bs"
    using assms(2,3) by (simp add: put_slot_def slot_eq unat_of_nat)
  let ?a = "slot_n r (unat i)"
  have "load_bytes (put_slot r i bs m) (?a + 4) (length bs) = load_bytes (store_bytes m (?a + 4) bs) (?a + 4) (length bs)"
    using assms(2,3)
    by (intro load_bytes_cong) (simp add: put_slot_def slot_eq shm_ring_buf_hdr_size_def store32_frame)
  then show ?thesis unfolding content_def l by simp
qed

lemma put_slot_frame:
  assumes "fits r bs" "ring_geom r" "unat i < D r" "x < slot_n r (unat i) \<or> slot_n r (unat i) + unat (rg_max r) \<le> x"
  shows "put_slot r i bs m x = m x"
  using assms by (auto simp: put_slot_def slot_eq fits_def shm_ring_buf_hdr_size_def store32_frame store_bytes_frame)

lemma slots_disjoint:
  "j \<noteq> k \<Longrightarrow> slot_n r j + unat (rg_max r) \<le> slot_n r k \<or> slot_n r k + unat (rg_max r) \<le> slot_n r j"
proof (cases "j < k")
  case True
  then have "Suc j * unat (rg_max r) \<le> k * unat (rg_max r)" by (intro mult_le_mono1) simp
  then show ?thesis by (simp add: slot_n_def add.commute)
next
  case False
  moreover assume "j \<noteq> k"
  ultimately have "Suc k * unat (rg_max r) \<le> j * unat (rg_max r)" by (intro mult_le_mono1) simp
  then show ?thesis by (simp add: slot_n_def add.commute)
qed

lemma slot_in_ring:
  assumes "k < D r"
  shows "rg_base r \<le> slot_n r k" "slot_n r k + unat (rg_max r) \<le> rg_base r + D r * unat (rg_max r)"
proof -
  have "Suc k * unat (rg_max r) \<le> D r * unat (rg_max r)" using assms by (intro mult_le_mono1) simp
  then show "slot_n r k + unat (rg_max r) \<le> rg_base r + D r * unat (rg_max r)" by (simp add: slot_n_def add.commute)
qed (simp add: slot_n_def)

subsection \<open>Indices and contents through the memory writes\<close>

lemma hdr_apart:
  assumes "ring_geom r" "k < D r"
  shows "slot_n r k + unat (rg_max r) \<le> rg_hdr r \<or> rg_hdr r + 8 \<le> slot_n r k"
  using assms slot_in_ring[OF assms(2)] by (auto simp: ring_geom_def)

lemma put_slot_idx:
  assumes "fits r bs" "ring_geom r" "unat i < D r"
  shows "rg_pi r (put_slot r i bs m) = rg_pi r m" "rg_ci r (put_slot r i bs m) = rg_ci r m"
  using hdr_apart[OF assms(2,3)] put_slot_frame[OF assms]
  by (auto simp: rg_pi_def rg_ci_def intro!: load32_cong)

lemma set_idx [simp]:
  "rg_pi r (set_pi r v m) = v" "rg_ci r (set_pi r v m) = rg_ci r m"
  "rg_pi r (set_ci r v m) = rg_pi r m" "rg_ci r (set_ci r v m) = v"
  by (simp_all add: rg_pi_def rg_ci_def set_pi_def set_ci_def load32_other)

lemma set_idx_content:
  assumes "ring_geom r" "k < D r" "fits r (content r m k)"
  shows "content r (set_pi r v m) k = content r m k" "content r (set_ci r v m) k = content r m k"
proof -
  have "4 \<le> rg_max r" using assms(1) by (simp add: ring_geom_def)
  note cc = content_cong[OF _ assms(3) this]
  show "content r (set_pi r v m) k = content r m k"
    by (rule cc) (use hdr_apart[OF assms(1,2)] in \<open>auto simp: set_pi_def store32_frame\<close>)
  show "content r (set_ci r v m) k = content r m k"
    by (rule cc) (use hdr_apart[OF assms(1,2)] in \<open>auto simp: set_ci_def store32_frame\<close>)
qed

lemma put_slot_other:
  assumes "fits r bs" "ring_geom r" "unat i < D r" "k \<noteq> unat i" "fits r (content r m k)"
  shows "content r (put_slot r i bs m) k = content r m k"
proof (rule content_cong[OF _ assms(5)])
  show "4 \<le> rg_max r" using assms(2) by (simp add: ring_geom_def)
  show "put_slot r i bs m x = m x" if "slot_n r k \<le> x" "x < slot_n r k + unat (rg_max r)" for x
    using slots_disjoint[OF assms(4), of r] that by (intro put_slot_frame[OF assms(1-3)]) auto
qed

subsection \<open>The queue a ring represents\<close>

definition ring_abs :: "ring \<Rightarrow> bmem \<Rightarrow> u8 list list" where
  "ring_abs r m = map (\<lambda>j. content r m (wrap (D r) (C r m + j))) [0 ..< ring_len r m]"

definition ring_inv :: "ring \<Rightarrow> bmem \<Rightarrow> bool" where
  "ring_inv r m \<longleftrightarrow> ring_ok r m \<and> (\<forall>bs \<in> set (ring_abs r m). fits r bs)"

lemma length_ring_abs [simp]: "length (ring_abs r m) = ring_len r m"
  by (simp add: ring_abs_def)

lemma ring_abs_nth: "j < ring_len r m \<Longrightarrow> ring_abs r m ! j = content r m (wrap (D r) (C r m + j))"
  by (simp add: ring_abs_def)

lemma ring_inv_fits:
  "ring_inv r m \<Longrightarrow> j < ring_len r m \<Longrightarrow> fits r (content r m (wrap (D r) (C r m + j)))"
  by (metis length_ring_abs nth_mem ring_abs_nth ring_inv_def)

lemma wrap_less: "C r m < D r \<Longrightarrow> j < D r \<Longrightarrow> wrap (D r) (C r m + j) < D r"
  by (auto simp: wrap_def)

text \<open>A write outside the used slots and the header leaves the queue alone.\<close>

lemma ring_abs_eqI:
  assumes "rg_ci r m' = rg_ci r m" "rg_pi r m' = rg_pi r m"
    and "\<And>j. j < ring_len r m \<Longrightarrow> content r m' (wrap (D r) (C r m + j)) = content r m (wrap (D r) (C r m + j))"
  shows "ring_abs r m' = ring_abs r m"
  using assms by (auto simp: ring_abs_def ring_len_def)

lemma free_slot:
  assumes "ring_ok r m" "j < ring_len r m" "ring_len r m + n < D r"
  shows "wrap (D r) (C r m + j) \<noteq> wrap (D r) (P r m + n)"
  using ring_okD[OF assms(1)] assms(2,3) by (auto simp: wrap_def ring_len_def split: if_splits)

lemma put_slot_abs:
  assumes "ring_inv r m" "fits r bs" "unat i = wrap (D r) (P r m + n)" "ring_len r m + n < D r"
  shows "ring_abs r (put_slot r i bs m) = ring_abs r m"
proof -
  have ok: "ring_ok r m" using assms(1) by (simp add: ring_inv_def)
  note R = ring_okD[OF ok]
  have i: "unat i < D r" using assms(3,4) R by (auto simp: wrap_def)
  show ?thesis
  proof (rule ring_abs_eqI)
    show "rg_ci r (put_slot r i bs m) = rg_ci r m" "rg_pi r (put_slot r i bs m) = rg_pi r m"
      using put_slot_idx[OF assms(2) R(1) i] by auto
    fix j assume j: "j < ring_len r m"
    show "content r (put_slot r i bs m) (wrap (D r) (C r m + j)) = content r m (wrap (D r) (C r m + j))"
      using put_slot_other[OF assms(2) R(1) i _ ring_inv_fits[OF assms(1) j]] free_slot[OF ok j assms(4)] assms(3)
      by simp
  qed
qed

text \<open>Moving \<open>pi\<close> over a written slot appends its message; moving \<open>ci\<close> drops the first one.\<close>

lemma advance_pi:
  assumes "ring_inv r m" "ring_len r m + unat n < D r" "\<And>j. j < unat n \<Longrightarrow> fits r (content r m (wrap (D r) (P r m + j)))"
  defines "m' \<equiv> set_pi r ((rg_pi r m + n) mod rg_depth r) m"
  shows "ring_inv r m'"
    "ring_abs r m' = ring_abs r m @ map (\<lambda>j. content r m (wrap (D r) (P r m + j))) [0 ..< unat n]"
proof -
  have ok: "ring_ok r m" using assms(1) by (simp add: ring_inv_def)
  note R = ring_okD[OF ok]
  have p: "P r m' = wrap (D r) (P r m + unat n)" using unat_add_mod[OF R(1,2), of n] assms(2) by (simp add: m'_def)
  have c: "C r m' = C r m" by (simp add: m'_def)
  have len: "ring_len r m' = ring_len r m + unat n"
    using R assms(2) unfolding ring_len_def p c by (auto simp: wrap_def split: if_splits)
  have ok': "ring_ok r m'" using R p c assms(2) by (auto simp: ring_ok_def word_less_nat_alt wrap_def)
  have w: "wrap (D r) (C r m + (j + ring_len r m)) = wrap (D r) (P r m + j)" if "j < unat n" for j
    using R assms(2) that by (auto simp: ring_len_def wrap_def split: if_splits)
  have pw: "wrap (D r) (P r m + j) < D r" if "j < unat n" for j using R assms(2) that by (auto simp: wrap_def)
  have old: "content r m' (wrap (D r) (C r m + j)) = content r m (wrap (D r) (C r m + j))" if "j < ring_len r m" for j
    using set_idx_content(1)[OF R(1) wrap_less[OF R(3)] ring_inv_fits[OF assms(1)]] that len_less[OF ok] by (simp add: m'_def)
  have new: "content r m' (wrap (D r) (P r m + j)) = content r m (wrap (D r) (P r m + j))" if "j < unat n" for j
    using set_idx_content(1)[OF R(1) pw assms(3)] that by (simp add: m'_def)
  show abs: "ring_abs r m' = ring_abs r m @ map (\<lambda>j. content r m (wrap (D r) (P r m + j))) [0 ..< unat n]"
  proof -
    have "[0 ..< ring_len r m + unat n] = [0 ..< ring_len r m] @ map (\<lambda>j. j + ring_len r m) [0 ..< unat n]"
      using upt_add_eq_append[of 0 "ring_len r m" "unat n"] map_add_upt[of "ring_len r m" "unat n"]
      by (simp add: add.commute)
    then show ?thesis unfolding ring_abs_def c len by (simp add: old new w del: add.assoc)
  qed
  show "ring_inv r m'" using assms(1,3) ok' abs by (auto simp: ring_inv_def)
qed

lemma advance_ci:
  assumes "ring_inv r m" "unat n \<le> ring_len r m"
  defines "m' \<equiv> set_ci r ((rg_ci r m + n) mod rg_depth r) m"
  shows "ring_inv r m'" "ring_abs r m' = drop (unat n) (ring_abs r m)"
proof -
  have ok: "ring_ok r m" using assms(1) by (simp add: ring_inv_def)
  note R = ring_okD[OF ok]
  have c: "C r m' = wrap (D r) (C r m + unat n)"
    using unat_add_mod[OF R(1,3), of n] len_less[OF ok] assms(2) by (simp add: m'_def)
  have p: "P r m' = P r m" by (simp add: m'_def)
  have len: "ring_len r m' = ring_len r m - unat n"
    using R assms(2) unfolding ring_len_def p c by (auto simp: wrap_def split: if_splits)
  have ok': "ring_ok r m'" using R p c len_less[OF ok] assms(2) by (auto simp: ring_ok_def word_less_nat_alt wrap_def)
  have w: "wrap (D r) (wrap (D r) (C r m + unat n) + j) = wrap (D r) (C r m + (unat n + j))"
    if "j < ring_len r m - unat n" for j
    using that R len_less[OF ok] by (auto simp: wrap_def)
  have k: "content r m' (wrap (D r) (C r m + j)) = content r m (wrap (D r) (C r m + j))" if "j < ring_len r m" for j
    using set_idx_content(2)[OF R(1) wrap_less[OF R(3)] ring_inv_fits[OF assms(1)]] that len_less[OF ok] by (simp add: m'_def)
  show abs: "ring_abs r m' = drop (unat n) (ring_abs r m)"
    by (rule nth_equalityI) (simp_all add: len ring_abs_nth c w k)
  show "ring_inv r m'" using assms(1) ok' abs by (auto simp: ring_inv_def dest: in_set_dropD)
qed

subsection \<open>Posting and polling refine a bounded queue\<close>

lemma full_iff:
  assumes "ring_ok r m"
  shows "(rg_pi r m + 1) mod rg_depth r = rg_ci r m \<longleftrightarrow> ring_len r m + 1 = D r"
proof -
  note R = ring_okD[OF assms]
  have "unat ((rg_pi r m + 1) mod rg_depth r) = wrap (D r) (P r m + 1)" using unat_add_mod[OF R(1,2), of 1] R(4) by simp
  then show ?thesis using R unfolding word_unat_eq_iff ring_len_def by (auto simp: wrap_def split: if_splits)
qed

lemma empty_iff:
  assumes "ring_ok r m"
  shows "rg_pi r m = rg_ci r m \<longleftrightarrow> ring_len r m = 0"
  using ring_okD[OF assms] by (auto simp: ring_len_def word_unat_eq_iff split: if_splits)

lemma payload_check:
  assumes "ring_geom r" "length bs < 2 ^ 32"
  shows "of_nat (length bs) > rg_max r - of_nat shm_ring_buf_hdr_size \<longleftrightarrow> \<not> fits r bs"
proof -
  have "unat (rg_max r - 4) = unat (rg_max r) - 4"
    using assms(1) unat_sub_u32[of 4 "rg_max r"] by (simp add: ring_geom_def)
  then show ?thesis using assms
    by (auto simp: word_less_nat_alt shm_ring_buf_hdr_size_def unat_of_nat fits_def ring_geom_def word_le_nat_alt)
qed

lemma ring_post_cases:
  assumes "ring_inv r m" "length bs < 2 ^ 32" "ring_post r bs m = (m', ret)"
  shows "ring_inv r m' \<and>
    (if \<not> fits r bs then ret = -1 \<and> m' = m
     else if length (ring_abs r m) + 1 = D r then ret = - EAGAIN \<and> m' = m
     else ret = 0 \<and> ring_abs r m' = ring_abs r m @ [bs])"
proof (cases "fits r bs \<and> length (ring_abs r m) + 1 \<noteq> D r")
  case False
  have ok: "ring_ok r m" using assms(1) by (simp add: ring_inv_def)
  from False assms show ?thesis
    by (auto simp: ring_post_def Let_def payload_check[OF ring_okD(1)[OF ok]] full_iff[OF ok])
next
  case True
  have ok: "ring_ok r m" using assms(1) by (simp add: ring_inv_def)
  note R = ring_okD[OF ok]
  let ?m = "put_slot r (rg_pi r m) bs m"
  have len: "ring_len r m + 1 < D r" using True len_less[OF ok] by simp
  have I: "rg_pi r ?m = rg_pi r m" "rg_ci r ?m = rg_ci r m" using put_slot_idx[OF _ R(1,2)] True by auto
  have A: "ring_abs r ?m = ring_abs r m"
    using put_slot_abs[OF assms(1), of bs "rg_pi r m" 0] True R len by (simp add: wrap_def)
  have L: "ring_len r ?m = ring_len r m" using I by (simp add: ring_len_def)
  have inv: "ring_inv r ?m" using assms(1) A I by (simp add: ring_inv_def ring_ok_def)
  have K: "content r ?m (P r ?m) = bs" using put_slot_content[OF _ R(1,2)] True I by simp
  have m': "m' = set_pi r ((rg_pi r ?m + 1) mod rg_depth r) ?m" "ret = 0"
    using assms(3) True by (auto simp: ring_post_def Let_def payload_check[OF R(1) assms(2)] full_iff[OF ok])
  have "P r ?m < D r" using I R(2) by simp
  then show ?thesis using advance_pi[OF inv, of 1] len True A K L m' by (simp add: wrap_def)
qed

lemma get_slot_content:
  assumes "ring_geom r" "unat i < D r"
  shows "get_slot r i max_buf m = (if unat max_buf < length (content r m (unat i)) then None else Some (content r m (unat i)))"
  using assms by (simp add: get_slot_def content_def load_bytes_def slot_eq shm_ring_buf_hdr_size_def word_less_nat_alt Let_def)

lemma ring_abs_hd:
  assumes "ring_ok r m" "0 < ring_len r m"
  shows "ring_abs r m = content r m (C r m) # tl (ring_abs r m)"
proof -
  have "hd (ring_abs r m) = content r m (C r m)"
    using assms ring_okD[OF assms(1)] by (simp add: hd_conv_nth ring_abs_nth wrap_def flip: length_0_conv)
  moreover have "ring_abs r m \<noteq> []" using assms(2) by (metis length_ring_abs list.size(3) less_irrefl)
  ultimately show ?thesis by (metis list.collapse)
qed

lemma ring_poll_cases:
  assumes "ring_inv r m" "ring_poll r k m = (m', res)"
  shows "ring_inv r m' \<and>
    (case ring_abs r m of
       [] \<Rightarrow> res = None \<and> m' = m
     | bs # rest \<Rightarrow> if unat k < length bs then res = None \<and> m' = m else res = Some bs \<and> ring_abs r m' = rest)"
proof -
  have ok: "ring_ok r m" using assms(1) by (simp add: ring_inv_def)
  note R = ring_okD[OF ok]
  show ?thesis
  proof (cases "ring_len r m = 0")
    case True
    then have "ring_abs r m = []" by (metis length_0_conv length_ring_abs)
    then show ?thesis using assms True by (simp add: ring_poll_def empty_iff[OF ok])
  next
    case False
    note A = ring_abs_hd[OF ok] and E = advance_ci[OF assms(1), of 1]
    have "get_slot r (rg_ci r m) k m = (if unat k < length (content r m (C r m)) then None else Some (content r m (C r m)))"
      by (rule get_slot_content[OF R(1,3)])
    then show ?thesis using assms False A E
      by (auto simp: ring_poll_def empty_iff[OF ok] drop_Suc split: if_splits list.splits)
  qed
qed

subsection \<open>The batch functions\<close>

lemma put_slots_inv:
  assumes "ring_inv r m" "\<forall>bs \<in> set bss. fits r bs" "ring_len r m + unat i + length bss < D r"
  shows "rg_pi r (put_slots r i bss m) = rg_pi r m \<and> rg_ci r (put_slots r i bss m) = rg_ci r m \<and>
    ring_inv r (put_slots r i bss m) \<and> ring_abs r (put_slots r i bss m) = ring_abs r m \<and>
    (\<forall>k < D r. (\<forall>j < length bss. k \<noteq> wrap (D r) (P r m + unat i + j)) \<longrightarrow> fits r (content r m k) \<longrightarrow>
       content r (put_slots r i bss m) k = content r m k) \<and>
    (\<forall>j < length bss. content r (put_slots r i bss m) (wrap (D r) (P r m + unat i + j)) = bss ! j)"
  using assms
proof (induction bss arbitrary: i m)
  case (Cons bs bss)
  have ok: "ring_ok r m" using Cons.prems(1) by (simp add: ring_inv_def)
  note R = ring_okD[OF ok]
  let ?k = "(rg_pi r m + i) mod rg_depth r"
  let ?m = "put_slot r ?k bs m"
  have k: "unat ?k = wrap (D r) (P r m + unat i)" using unat_add_mod[OF R(1,2), of i] Cons.prems(3) by simp
  have kD: "unat ?k < D r" using k R Cons.prems(3) by (auto simp: wrap_def)
  have fit: "fits r bs" using Cons.prems(2) by simp
  have I: "rg_pi r ?m = rg_pi r m" "rg_ci r ?m = rg_ci r m" using put_slot_idx[OF fit R(1) kD] by auto
  have A: "ring_abs r ?m = ring_abs r m" using put_slot_abs[OF Cons.prems(1) fit k] Cons.prems(3) by simp
  have inv: "ring_inv r ?m" using Cons.prems(1) A I by (simp add: ring_inv_def ring_ok_def)
  have i1: "unat (i + 1) = unat i + 1" using Cons.prems(3) R(5) by (subst unat_add_u32_small) auto
  have L: "ring_len r ?m = ring_len r m" using I by (simp add: ring_len_def)
  note IH = Cons.IH[of ?m "i + 1", unfolded I L i1, OF inv]
  have IH': "ring_inv r (put_slots r (i + 1) bss ?m)" "rg_pi r (put_slots r (i + 1) bss ?m) = rg_pi r m"
    "rg_ci r (put_slots r (i + 1) bss ?m) = rg_ci r m" "ring_abs r (put_slots r (i + 1) bss ?m) = ring_abs r ?m"
    "\<And>k. k < D r \<Longrightarrow> (\<And>j. j < length bss \<Longrightarrow> k \<noteq> wrap (D r) (P r m + (unat i + 1) + j)) \<Longrightarrow> fits r (content r ?m k) \<Longrightarrow>
       content r (put_slots r (i + 1) bss ?m) k = content r ?m k"
    "\<And>j. j < length bss \<Longrightarrow> content r (put_slots r (i + 1) bss ?m) (wrap (D r) (P r m + (unat i + 1) + j)) = bss ! j"
    using IH Cons.prems(2,3) by auto
  have K: "content r ?m (unat ?k) = bs" by (rule put_slot_content[OF fit R(1) kD])
  have first: "content r (put_slots r (i + 1) bss ?m) (wrap (D r) (P r m + unat i)) = bs"
  proof -
    have "unat ?k \<noteq> wrap (D r) (P r m + (unat i + 1) + j)" if "j < length bss" for j
      using that k Cons.prems(3) R(2) by (auto simp: wrap_def split: if_splits)
    then show ?thesis using IH'(5)[OF kD] K fit k by simp
  qed
  have frame: "content r (put_slots r (i + 1) bss ?m) q = content r m q"
    if q: "q < D r" "\<forall>j < length (bs # bss). q \<noteq> wrap (D r) (P r m + unat i + j)" "fits r (content r m q)" for q
  proof -
    have "q \<noteq> unat ?k" using q(2) k by (metis add.right_neutral length_greater_0_conv list.discI)
    then have "content r ?m q = content r m q" using put_slot_other[OF fit R(1) kD _ q(3)] by simp
    moreover have "q \<noteq> wrap (D r) (P r m + (unat i + 1) + j)" if "j < length bss" for j
      using q(2)[rule_format, of "Suc j"] that by simp
    ultimately show ?thesis using IH'(5)[OF q(1)] q(3) by simp
  qed
  have nth: "content r (put_slots r (i + 1) bss ?m) (wrap (D r) (P r m + unat i + j)) = (bs # bss) ! j"
    if "j < length (bs # bss)" for j
    using that first IH'(6)[of "j - 1"] by (cases j) auto
  show ?case using IH'(1-4) A frame nth by simp
qed simp

lemma ring_post_batch_cases:
  assumes "ring_inv r m" "\<forall>bs \<in> set bss. fits r bs" "length bss < 2 ^ 32" "ring_post_batch r bss m = (m', ret)"
  shows "ring_inv r m' \<and>
    (if length (ring_abs r m) + length bss < D r then ret = 0 \<and> ring_abs r m' = ring_abs r m @ bss
     else ret = -1 \<and> m' = m)"
proof -
  have ok: "ring_ok r m" using assms(1) by (simp add: ring_inv_def)
  note R = ring_okD[OF ok]
  have n: "unat (of_nat (length bss) :: u32) = length bss" using assms(3) by (simp add: unat_of_nat)
  have chk: "(rg_ci r m + rg_depth r - rg_pi r m - 1) mod rg_depth r < of_nat (length bss) \<longleftrightarrow>
    \<not> ring_len r m + length bss < D r"
    using unat_left_free[OF ok] n len_less[OF ok] by (auto simp: word_less_nat_alt)
  show ?thesis
  proof (cases "ring_len r m + length bss < D r")
    case False
    then show ?thesis using assms(1,4) chk by (auto simp: ring_post_batch_def Let_def)
  next
    case True
    let ?m = "put_slots r 0 bss m"
    have Q: "rg_pi r ?m = rg_pi r m" "rg_ci r ?m = rg_ci r m" "ring_inv r ?m" "ring_abs r ?m = ring_abs r m"
      "\<And>j. j < length bss \<Longrightarrow> content r ?m (wrap (D r) (P r m + j)) = bss ! j"
      using put_slots_inv[OF assms(1,2), of 0] True by auto
    have "map (\<lambda>j. content r ?m (wrap (D r) (P r m + j))) [0 ..< length bss] = bss"
      by (rule nth_equalityI) (simp_all add: Q)
    moreover have "ring_len r ?m = ring_len r m" using Q by (simp add: ring_len_def)
    ultimately show ?thesis
      using advance_pi[OF Q(3), of "of_nat (length bss)"] assms(2,4) chk True Q n
      by (auto simp: ring_post_batch_def Let_def)
  qed
qed

lemma get_slots_content:
  assumes "ring_ok r m" "unat i + n \<le> D r"
  shows "get_slots r i n k m =
    (if \<exists>j < n. unat k < length (content r m (wrap (D r) (C r m + unat i + j))) then None
     else Some (map (\<lambda>j. content r m (wrap (D r) (C r m + unat i + j))) [0 ..< n]))"
  using assms(2)
proof (induction n arbitrary: i)
  case (Suc n)
  note R = ring_okD[OF assms(1)]
  let ?c = "\<lambda>j. content r m (wrap (D r) (C r m + unat i + j))"
  have i: "unat ((rg_ci r m + i) mod rg_depth r) = wrap (D r) (C r m + unat i)"
    using unat_add_mod[OF R(1,3), of i] Suc.prems by simp
  have iD: "wrap (D r) (C r m + unat i) < D r" using R Suc.prems by (auto simp: wrap_def)
  have g: "get_slot r ((rg_ci r m + i) mod rg_depth r) k m = (if unat k < length (?c 0) then None else Some (?c 0))"
    using get_slot_content[OF R(1), of "(rg_ci r m + i) mod rg_depth r"] i iD by simp
  have i1: "unat (i + 1) = unat i + 1" using Suc.prems R(5) by (subst unat_add_u32_small) auto
  have ex: "(\<exists>j < Suc n. Q j) \<longleftrightarrow> Q 0 \<or> (\<exists>j < n. Q (Suc j))" for Q :: "nat \<Rightarrow> bool"
    using less_Suc_eq_0_disj by auto
  have mp: "map f [0 ..< Suc n] = f 0 # map (\<lambda>j. f (Suc j)) [0 ..< n]" for f :: "nat \<Rightarrow> u8 list"
    by (simp add: upt_conv_Cons flip: map_Suc_upt del: upt_Suc)
  show ?case using Suc.IH[of "i + 1"] Suc.prems unfolding ex mp by (simp add: g i1 del: upt_Suc)
qed simp

lemma ring_poll_batch_cases:
  assumes "ring_inv r m" "ring_poll_batch r k max_cnt m = (m', res)"
  shows "ring_inv r m' \<and>
    (let n = min (length (ring_abs r m)) (unat max_cnt) in
     if \<exists>bs \<in> set (take n (ring_abs r m)). unat k < length bs then res = None \<and> m' = m
     else res = Some (take n (ring_abs r m)) \<and> ring_abs r m' = drop n (ring_abs r m))"
proof -
  have ok: "ring_ok r m" using assms(1) by (simp add: ring_inv_def)
  let ?left = "(rg_pi r m + rg_depth r - rg_ci r m) mod rg_depth r"
  let ?n = "if ?left < max_cnt then ?left else max_cnt"
  have n: "unat ?n = min (ring_len r m) (unat max_cnt)"
    using unat_left_used[OF ok] by (auto simp: word_less_nat_alt)
  have t: "map (\<lambda>j. content r m (wrap (D r) (C r m + j))) [0 ..< unat ?n] = take (unat ?n) (ring_abs r m)"
    by (rule nth_equalityI) (simp_all add: n ring_abs_nth)
  have ex: "(\<exists>j < unat ?n. unat k < length (content r m (wrap (D r) (C r m + j)))) \<longleftrightarrow>
    (\<exists>bs \<in> set (take (unat ?n) (ring_abs r m)). unat k < length bs)"
    unfolding t[symmetric] by auto
  have G: "get_slots r 0 (unat ?n) k m = (if \<exists>bs \<in> set (take (unat ?n) (ring_abs r m)). unat k < length bs then None
      else Some (take (unat ?n) (ring_abs r m)))"
    using get_slots_content[OF ok, of 0 "unat ?n" k] n len_less[OF ok] ex t by simp
  show ?thesis
  proof (cases "ring_len r m = 0")
    case True
    then have "ring_abs r m = []" by (metis length_0_conv length_ring_abs)
    with True show ?thesis using assms by (simp add: ring_poll_batch_def empty_iff[OF ok] Let_def)
  next
    case False
    then show ?thesis
      using assms G advance_ci[OF assms(1), of ?n] n
      by (auto simp: ring_poll_batch_def empty_iff[OF ok] Let_def min_def split: if_splits)
  qed
qed

subsection \<open>Producer and consumer interleaved\<close>

text \<open>
  The two ends run in different processes.  A state of the system is the shared memory, the
  program point of each end, and the messages posted and delivered so far.  A producer checks
  for room, writes the slot (in any number of partial writes, \<open>p_write\<close>, the last of which
  leaves the complete slot, \<open>p_done\<close>) and publishes it by storing \<open>pi\<close>; a consumer checks for a
  message, copies it and releases the slot by storing \<open>ci\<close>.  The fences of the code order these
  stores, so the steps are taken in this order.
\<close>

datatype producer = P_Idle | P_Room "u8 list" | P_Written "u8 list"
datatype consumer = C_Idle | C_Avail | C_Copied "u8 list"

record spsc =
  sp_mem :: bmem
  sp_prod :: producer
  sp_cons :: consumer
  sp_sent :: "u8 list list"
  sp_recv :: "u8 list list"

definition room :: "ring \<Rightarrow> bmem \<Rightarrow> bool" where
  "room r m \<longleftrightarrow> (rg_pi r m + 1) mod rg_depth r \<noteq> rg_ci r m"

definition same_outside :: "nat \<Rightarrow> nat \<Rightarrow> bmem \<Rightarrow> bmem \<Rightarrow> bool" where
  "same_outside a n m m' \<longleftrightarrow> (\<forall>x. x < a \<or> a + n \<le> x \<longrightarrow> m' x = m x)"

inductive spsc_step :: "ring \<Rightarrow> spsc \<Rightarrow> spsc \<Rightarrow> bool" for r where
  p_check: "sp_prod s = P_Idle \<Longrightarrow> fits r bs \<Longrightarrow> room r (sp_mem s) \<Longrightarrow> spsc_step r s (s\<lparr>sp_prod := P_Room bs\<rparr>)"
| p_write: "sp_prod s = P_Room bs \<Longrightarrow> same_outside (slot r (rg_pi r (sp_mem s))) (unat (rg_max r)) (sp_mem s) m' \<Longrightarrow>
    spsc_step r s (s\<lparr>sp_mem := m'\<rparr>)"
| p_done: "sp_prod s = P_Room bs \<Longrightarrow>
    spsc_step r s (s\<lparr>sp_mem := put_slot r (rg_pi r (sp_mem s)) bs (sp_mem s), sp_prod := P_Written bs\<rparr>)"
| p_publish: "sp_prod s = P_Written bs \<Longrightarrow>
    spsc_step r s (s\<lparr>sp_mem := set_pi r ((rg_pi r (sp_mem s) + 1) mod rg_depth r) (sp_mem s),
      sp_prod := P_Idle, sp_sent := sp_sent s @ [bs]\<rparr>)"
| c_check: "sp_cons s = C_Idle \<Longrightarrow> rg_pi r (sp_mem s) \<noteq> rg_ci r (sp_mem s) \<Longrightarrow> spsc_step r s (s\<lparr>sp_cons := C_Avail\<rparr>)"
| c_small: "sp_cons s = C_Avail \<Longrightarrow> get_slot r (rg_ci r (sp_mem s)) k (sp_mem s) = None \<Longrightarrow>
    spsc_step r s (s\<lparr>sp_cons := C_Idle\<rparr>)"
| c_copy: "sp_cons s = C_Avail \<Longrightarrow> get_slot r (rg_ci r (sp_mem s)) k (sp_mem s) = Some bs \<Longrightarrow>
    spsc_step r s (s\<lparr>sp_cons := C_Copied bs\<rparr>)"
| c_release: "sp_cons s = C_Copied bs \<Longrightarrow>
    spsc_step r s (s\<lparr>sp_mem := set_ci r ((rg_ci r (sp_mem s) + 1) mod rg_depth r) (sp_mem s),
      sp_cons := C_Idle, sp_recv := sp_recv s @ [bs]\<rparr>)"

inductive_simps spsc_step_simps: "spsc_step r s t"

definition spsc_init :: "ring \<Rightarrow> spsc \<Rightarrow> bool" where
  "spsc_init r s \<longleftrightarrow> ring_inv r (sp_mem s) \<and> ring_abs r (sp_mem s) = [] \<and> sp_prod s = P_Idle \<and> sp_cons s = C_Idle \<and>
     sp_sent s = [] \<and> sp_recv s = []"

definition prod_ok :: "ring \<Rightarrow> bmem \<Rightarrow> producer \<Rightarrow> bool" where
  "prod_ok r m p \<longleftrightarrow> (case p of P_Idle \<Rightarrow> True | P_Room bs \<Rightarrow> fits r bs \<and> ring_len r m + 1 < D r
     | P_Written bs \<Rightarrow> fits r bs \<and> ring_len r m + 1 < D r \<and> content r m (P r m) = bs)"

definition cons_ok :: "ring \<Rightarrow> bmem \<Rightarrow> consumer \<Rightarrow> bool" where
  "cons_ok r m c \<longleftrightarrow> (case c of C_Idle \<Rightarrow> True | C_Avail \<Rightarrow> ring_abs r m \<noteq> []
     | C_Copied bs \<Rightarrow> ring_abs r m \<noteq> [] \<and> hd (ring_abs r m) = bs)"

definition spsc_inv :: "ring \<Rightarrow> spsc \<Rightarrow> bool" where
  "spsc_inv r s \<longleftrightarrow> ring_inv r (sp_mem s) \<and> sp_sent s = sp_recv s @ ring_abs r (sp_mem s) \<and>
     prod_ok r (sp_mem s) (sp_prod s) \<and> cons_ok r (sp_mem s) (sp_cons s)"

text \<open>Writing anything into the free slot at \<open>pi\<close> leaves indices and queue alone.\<close>

lemma scribble:
  assumes "ring_inv r m" "ring_len r m + 1 < D r" "same_outside (slot r (rg_pi r m)) (unat (rg_max r)) m m'"
  shows "rg_pi r m' = rg_pi r m" "rg_ci r m' = rg_ci r m" "ring_inv r m'" "ring_abs r m' = ring_abs r m"
proof -
  have ok: "ring_ok r m" using assms(1) by (simp add: ring_inv_def)
  note R = ring_okD[OF ok]
  have same: "m' x = m x" if "x < slot_n r (P r m) \<or> slot_n r (P r m) + unat (rg_max r) \<le> x" for x
    using assms(3) that slot_eq[OF R(1,2)] by (auto simp: same_outside_def)
  show I: "rg_pi r m' = rg_pi r m" "rg_ci r m' = rg_ci r m"
    using hdr_apart[OF R(1,2)] by (auto simp: rg_pi_def rg_ci_def intro!: load32_cong same)
  have four: "4 \<le> rg_max r" using R(1) by (simp add: ring_geom_def)
  show abs: "ring_abs r m' = ring_abs r m"
  proof (rule ring_abs_eqI[OF I(2,1)])
    fix j assume j: "j < ring_len r m"
    let ?k = "wrap (D r) (C r m + j)"
    have "?k \<noteq> P r m" using free_slot[OF ok j, of 0] assms(2) R(2) by (simp add: wrap_def)
    from slots_disjoint[OF this, of r] show "content r m' ?k = content r m ?k"
      by (intro content_cong[OF same ring_inv_fits[OF assms(1) j] four]) auto
  qed
  show "ring_inv r m'" using assms(1) abs I by (simp add: ring_inv_def ring_ok_def)
qed

lemma put_slot_same_outside:
  "ring_ok r m \<Longrightarrow> fits r bs \<Longrightarrow> same_outside (slot r (rg_pi r m)) (unat (rg_max r)) m (put_slot r (rg_pi r m) bs m)"
  using put_slot_frame[of r bs "rg_pi r m"] ring_okD[of r m] by (simp add: same_outside_def slot_eq)

lemma cons_ok_congI: "ring_abs r m' = ring_abs r m \<Longrightarrow> cons_ok r m' c = cons_ok r m c"
  by (cases c) (simp_all add: cons_ok_def)

lemma len_congI: "rg_pi r m' = rg_pi r m \<Longrightarrow> rg_ci r m' = rg_ci r m \<Longrightarrow> ring_len r m' = ring_len r m"
  by (simp add: ring_len_def)

lemma spsc_step_inv:
  assumes i: "spsc_inv r s" and step: "spsc_step r s t"
  shows "spsc_inv r t"
  using step
proof cases
  case (p_check bs)
  have ok: "ring_ok r (sp_mem s)" using i by (simp add: spsc_inv_def ring_inv_def)
  then have "ring_len r (sp_mem s) + 1 < D r"
    using p_check(4) full_iff[OF ok] len_less[OF ok] by (auto simp: room_def)
  then show ?thesis using i p_check by (simp add: spsc_inv_def prod_ok_def)
next
  case (p_write bs m')
  from i p_write(2) have "ring_inv r (sp_mem s)" "ring_len r (sp_mem s) + 1 < D r"
    by (auto simp: spsc_inv_def prod_ok_def)
  note S = scribble[OF this p_write(3)]
  show ?thesis using i p_write(1,2) S len_congI[OF S(1,2)] by (simp add: spsc_inv_def prod_ok_def cons_ok_congI[OF S(4)])
next
  case (p_done bs)
  let ?m = "sp_mem s" and ?m' = "put_slot r (rg_pi r (sp_mem s)) bs (sp_mem s)"
  from i p_done(2) have inv: "ring_inv r ?m" and len: "ring_len r ?m + 1 < D r" and fit: "fits r bs"
    by (auto simp: spsc_inv_def prod_ok_def)
  have ok: "ring_ok r ?m" using inv by (simp add: ring_inv_def)
  note S = scribble[OF inv len put_slot_same_outside[OF ok fit]]
  have "content r ?m' (P r ?m') = bs" unfolding S(1) by (rule put_slot_content[OF fit ring_okD(1,2)[OF ok]])
  then show ?thesis using i p_done(1) S len fit len_congI[OF S(1,2)] by (simp add: spsc_inv_def prod_ok_def cons_ok_congI[OF S(4)])
next
  case (p_publish bs)
  let ?m = "sp_mem s"
  from i p_publish(2) have inv: "ring_inv r ?m" and len: "ring_len r ?m + 1 < D r" and c: "fits r bs" "content r ?m (P r ?m) = bs"
    by (auto simp: spsc_inv_def prod_ok_def)
  have "P r ?m < D r" using inv ring_okD(2) by (simp add: ring_inv_def)
  then show ?thesis using advance_pi[OF inv, of 1] len c i p_publish(1)
    by (cases "sp_cons s") (auto simp: spsc_inv_def prod_ok_def cons_ok_def wrap_def)
next
  case c_check
  have ok: "ring_ok r (sp_mem s)" using i by (simp add: spsc_inv_def ring_inv_def)
  have "ring_abs r (sp_mem s) \<noteq> []" using c_check(3) empty_iff[OF ok] by (metis length_ring_abs list.size(3))
  then show ?thesis using i c_check(1) by (simp add: spsc_inv_def cons_ok_def)
next
  case (c_small k)
  then show ?thesis using i by (simp add: spsc_inv_def cons_ok_def)
next
  case (c_copy k bs)
  let ?m = "sp_mem s"
  have ok: "ring_ok r ?m" and ne: "ring_abs r ?m \<noteq> []" using i c_copy(2) by (auto simp: spsc_inv_def ring_inv_def cons_ok_def)
  have "0 < ring_len r ?m" using ne by (metis length_greater_0_conv length_ring_abs)
  from ring_abs_hd[OF ok this] have "hd (ring_abs r ?m) = content r ?m (C r ?m)" by (metis list.sel(1))
  also have "\<dots> = bs" using c_copy(3) get_slot_content[OF ring_okD(1,3)[OF ok]] by (auto split: if_splits)
  finally show ?thesis using i c_copy(1) ne by (simp add: spsc_inv_def cons_ok_def)
next
  case (c_release bs)
  let ?m = "sp_mem s" and ?m' = "set_ci r ((rg_ci r (sp_mem s) + 1) mod rg_depth r) (sp_mem s)"
  from i c_release(2) have inv: "ring_inv r ?m" and ne: "ring_abs r ?m \<noteq> []" "hd (ring_abs r ?m) = bs"
    by (auto simp: spsc_inv_def cons_ok_def)
  have pos: "0 < ring_len r ?m" using ne(1) by (metis length_greater_0_conv length_ring_abs)
  have A: "ring_inv r ?m'" "ring_abs r ?m' = tl (ring_abs r ?m)"
    using advance_ci[OF inv, of 1] pos by (auto simp: drop_Suc)
  have "ring_len r ?m' = ring_len r ?m - 1" using A(2) by (metis length_ring_abs length_tl)
  moreover have "content r ?m' (P r ?m') = content r ?m (P r ?m)" if "fits r (content r ?m (P r ?m))"
    using set_idx_content(2)[OF _ _ that] ring_okD(1,2) inv by (auto simp: ring_inv_def)
  ultimately have "prod_ok r ?m' (sp_prod s)" using i by (auto simp: spsc_inv_def prod_ok_def split: producer.splits)
  moreover have "bs # tl (ring_abs r ?m) = ring_abs r ?m" using ne by (metis list.collapse)
  ultimately show ?thesis using i c_release(1) A by (simp add: spsc_inv_def cons_ok_def)
qed

interpretation spsc: step_system "spsc_init r" "spsc_step r" "spsc_inv r"
proof
  show "spsc_init r s \<Longrightarrow> spsc_inv r s" for s by (simp add: spsc_init_def spsc_inv_def prod_ok_def cons_ok_def)
  show "spsc_inv r s \<Longrightarrow> spsc_step r s t \<Longrightarrow> spsc_inv r t" for s t by (rule spsc_step_inv)
qed

subsection \<open>A channel interface\<close>

text \<open>
  What a user of a ring relies on: a post of an admissible message either appends it or fails
  and changes nothing, a poll takes the oldest message.  \<open>fifo_run\<close> is a user: a sequence of
  posts (\<open>Some x\<close>) and polls (\<open>None\<close>), with the messages accepted and the messages delivered.
\<close>

fun fifo_run :: "('a \<Rightarrow> 's \<Rightarrow> 's \<times> int) \<Rightarrow> ('s \<Rightarrow> 's \<times> 'a option) \<Rightarrow> 'a option list \<Rightarrow> 's \<Rightarrow> 's \<times> 'a list \<times> 'a list" where
  "fifo_run post poll [] s = (s, [], [])"
| "fifo_run post poll (Some x # evs) s =
    (let (s', ret) = post x s; (s'', sent, got) = fifo_run post poll evs s'
     in (s'', (if ret = 0 then [x] else []) @ sent, got))"
| "fifo_run post poll (None # evs) s =
    (let (s', res) = poll s; (s'', sent, got) = fifo_run post poll evs s'
     in (s'', sent, (case res of None \<Rightarrow> [] | Some x \<Rightarrow> [x]) @ got))"

locale fifo_channel =
  fixes inv :: "'s \<Rightarrow> bool" and abs :: "'s \<Rightarrow> 'a list" and cap :: nat and legal :: "'a \<Rightarrow> bool"
    and small :: "'a \<Rightarrow> bool" and post :: "'a \<Rightarrow> 's \<Rightarrow> 's \<times> int" and poll :: "'s \<Rightarrow> 's \<times> 'a option"
  assumes post_law: "inv s \<Longrightarrow> legal x \<Longrightarrow> post x s = (s', ret) \<Longrightarrow> inv s' \<and>
      (if small x \<and> length (abs s) < cap then ret = 0 \<and> abs s' = abs s @ [x] else ret \<noteq> 0 \<and> s' = s)"
    and poll_law: "inv s \<Longrightarrow> poll s = (s', res) \<Longrightarrow> inv s' \<and>
      (case abs s of [] \<Rightarrow> res = None \<and> s' = s | x # xs \<Rightarrow> res = Some x \<and> abs s' = xs)"
begin

lemma run_fifo:
  "inv s \<Longrightarrow> (\<forall>x. Some x \<in> set evs \<longrightarrow> legal x) \<Longrightarrow> fifo_run post poll evs s = (s', sent, got) \<Longrightarrow>
    inv s' \<and> abs s @ sent = got @ abs s'"
proof (induction evs arbitrary: s s' sent got)
  case (Cons ev evs)
  show ?case
  proof (cases ev)
    case None
    obtain s1 res where poll: "poll s = (s1, res)" by fastforce
    obtain s2 sent2 got2 where R: "fifo_run post poll evs s1 = (s2, sent2, got2)" by (metis prod_cases3)
    from poll_law[OF Cons.prems(1) poll] Cons.IH[OF _ _ R] Cons.prems(2,3) None poll R show ?thesis
      by (cases "abs s") auto
  next
    case (Some x)
    obtain s1 ret where post: "post x s = (s1, ret)" by fastforce
    obtain s2 sent2 got2 where R: "fifo_run post poll evs s1 = (s2, sent2, got2)" by (metis prod_cases3)
    have "legal x" using Cons.prems(2) Some by simp
    from post_law[OF Cons.prems(1) this post] Cons.IH[OF _ _ R] Cons.prems(2,3) Some post R show ?thesis
      by (cases "small x \<and> length (abs s) < cap") auto
  qed
qed simp

lemma run_delivers_in_order:
  "inv s \<Longrightarrow> abs s = [] \<Longrightarrow> (\<forall>x. Some x \<in> set evs \<longrightarrow> legal x) \<Longrightarrow> fifo_run post poll evs s = (s', sent, got) \<Longrightarrow>
    sent = got @ abs s'"
  using run_fifo by fastforce

end

interpretation ring: fifo_channel "ring_inv r" "ring_abs r" "D r - 1" "\<lambda>bs. length bs < 2 ^ 32" "fits r"
  "ring_post r" "ring_poll r (rg_max r)"
proof
  fix m x m' ret assume "ring_inv r m" "length x < 2 ^ 32" "ring_post r x m = (m', ret)"
  moreover from this have "ring_len r m < D r" using len_less by (simp add: ring_inv_def)
  ultimately show "ring_inv r m' \<and> (if fits r x \<and> length (ring_abs r m) < D r - 1
      then ret = 0 \<and> ring_abs r m' = ring_abs r m @ [x] else ret \<noteq> 0 \<and> m' = m)"
    using ring_post_cases[of r m x m' ret] by (auto simp: EAGAIN_def split: if_splits)
next
  fix m m' res assume "ring_inv r m" "ring_poll r (rg_max r) m = (m', res)"
  with ring_poll_cases[OF this] show "ring_inv r m' \<and>
      (case ring_abs r m of [] \<Rightarrow> res = None \<and> m' = m | x # xs \<Rightarrow> res = Some x \<and> ring_abs r m' = xs)"
    by (auto simp: ring_inv_def fits_def split: list.splits if_splits)
qed

subsection \<open>Creation\<close>

lemma init_hdr_idx:
  "load32 (init_hdr h m) h = 0" "load32 (init_hdr h m) (h + 4) = 0"
  "a + 4 \<le> h \<or> h + 16 \<le> a \<Longrightarrow> load32 (init_hdr h m) a = load32 m a"
  by (auto simp: init_hdr_def load32_other)

definition opt_ok :: "msg_ring_option \<Rightarrow> bool" where
  "opt_ok opt \<longleftrightarrow> 0 < opt_tx_depth opt \<and> unat (opt_tx_depth opt) \<le> 2 ^ 31 \<and> 4 \<le> opt_tx_max_buf_size opt \<and>
     0 < opt_rx_depth opt \<and> unat (opt_rx_depth opt) \<le> 2 ^ 31 \<and> 4 \<le> opt_rx_max_buf_size opt \<and>
     unat (opt_tx_depth opt) * unat (opt_tx_max_buf_size opt) + unat (opt_rx_depth opt) * unat (opt_rx_max_buf_size opt)
       + 32 < 2 ^ 32"

lemma create_layout:
  assumes "opt_ok opt" "msg_ring_create alloc_ok map_shm n opt m = (m', Some h)"
  obtains ptr where
    "mr_tx h = \<lparr>rg_base = ptr, rg_hdr = ptr + unat (opt_tx_depth opt) * unat (opt_tx_max_buf_size opt) +
        unat (opt_rx_depth opt) * unat (opt_rx_max_buf_size opt), rg_max = opt_tx_max_buf_size opt, rg_depth = opt_tx_depth opt\<rparr>"
    "mr_rx h = \<lparr>rg_base = ptr + unat (opt_tx_depth opt) * unat (opt_tx_max_buf_size opt),
        rg_hdr = rg_hdr (mr_tx h) + 256, rg_max = opt_rx_max_buf_size opt, rg_depth = opt_rx_depth opt\<rparr>"
    "m' = (if opt_owner opt then init_hdr (rg_hdr (mr_rx h)) (init_hdr (rg_hdr (mr_tx h)) m) else m)"
    "opt_addr opt = None \<Longrightarrow> mr_shm_size h = opt_shm_size opt"
proof -
  have "unat (opt_tx_depth opt * opt_tx_max_buf_size opt) = unat (opt_tx_depth opt) * unat (opt_tx_max_buf_size opt)"
    "unat (opt_rx_depth opt * opt_rx_max_buf_size opt) = unat (opt_rx_depth opt) * unat (opt_rx_max_buf_size opt)"
    using assms(1) by (simp_all add: opt_ok_def unat_word_ariths)
  then show thesis using assms(2) that
    by (auto simp: msg_ring_create_def shm_ring_hdr_size_def Let_def split: if_splits option.splits)
qed

lemma ring_emptyI:
  assumes "ring_geom r" "load32 m (rg_hdr r) = 0" "load32 m (rg_hdr r + 4) = 0"
  shows "ring_inv r m" "ring_abs r m = []"
  using assms by (auto simp: ring_inv_def ring_ok_def ring_abs_def ring_len_def rg_pi_def rg_ci_def ring_geom_def)

lemma create_ready:
  assumes "opt_ok opt" "opt_owner opt" "msg_ring_create alloc_ok map_shm n opt m = (m', Some h)"
  shows "ring_inv (mr_tx h) m'" "ring_abs (mr_tx h) m' = []" "ring_inv (mr_rx h) m'" "ring_abs (mr_rx h) m' = []"
proof -
  obtain ptr where L: "mr_tx h = \<lparr>rg_base = ptr, rg_hdr = ptr + unat (opt_tx_depth opt) * unat (opt_tx_max_buf_size opt) +
      unat (opt_rx_depth opt) * unat (opt_rx_max_buf_size opt), rg_max = opt_tx_max_buf_size opt, rg_depth = opt_tx_depth opt\<rparr>"
    "mr_rx h = \<lparr>rg_base = ptr + unat (opt_tx_depth opt) * unat (opt_tx_max_buf_size opt),
      rg_hdr = rg_hdr (mr_tx h) + 256, rg_max = opt_rx_max_buf_size opt, rg_depth = opt_rx_depth opt\<rparr>"
    "m' = (if opt_owner opt then init_hdr (rg_hdr (mr_rx h)) (init_hdr (rg_hdr (mr_tx h)) m) else m)"
    using create_layout[OF assms(1,3)] by metis
  let ?t = "rg_hdr (mr_tx h)"
  have m': "m' = init_hdr (?t + 256) (init_hdr ?t m)" using L(2,3) assms(2) by simp
  have t: "load32 m' ?t = 0" "load32 m' (?t + 4) = 0" unfolding m' by (simp_all add: init_hdr_idx)
  have r: "load32 m' (rg_hdr (mr_rx h)) = 0" "load32 m' (rg_hdr (mr_rx h) + 4) = 0"
    using init_hdr_idx[of "?t + 256"] unfolding m' L(2) by simp_all
  have G: "ring_geom (mr_tx h)" "ring_geom (mr_rx h)"
    using assms(1) unfolding L(2) L(1) by (auto simp: ring_geom_def opt_ok_def)
  show "ring_inv (mr_tx h) m'" "ring_abs (mr_tx h) m' = []" using ring_emptyI[OF G(1) t] by auto
  show "ring_inv (mr_rx h) m'" "ring_abs (mr_rx h) m' = []" using ring_emptyI[OF G(2) r] by auto
qed

text \<open>A small ring pair at a given address, for the instances below.\<close>

definition demo_opt :: msg_ring_option where
  "demo_opt = \<lparr>opt_owner = True, opt_tx_max_buf_size = 16, opt_tx_depth = 4, opt_rx_max_buf_size = 16, opt_rx_depth = 4,
     opt_addr = Some 1000\<rparr>"

definition demo_ring :: "bmem \<times> msg_ring" where
  "demo_ring = (case msg_ring_create True (\<lambda>_ _. None) 0 demo_opt (\<lambda>_. 0) of (m, h) \<Rightarrow> (m, the h))"

lemma demo_created: "msg_ring_create True (\<lambda>_ _. None) 0 demo_opt (\<lambda>_. 0) = (fst demo_ring, Some (snd demo_ring))"
  by (simp add: demo_ring_def msg_ring_create_def demo_opt_def Let_def)

lemma demo_opt_ok: "opt_ok demo_opt" "opt_owner demo_opt"
  by (simp_all add: opt_ok_def demo_opt_def)

subsection \<open>Properties\<close>

text \<open>
  Property C20.  The ring is a FIFO channel between two processes: for every interleaving of the
  producer's and the consumer's memory actions, with the slot's bytes in any state while
  the producer fills it, the messages delivered are a prefix of the messages posted, in order
  and without loss or duplication, what is still missing is exactly the content of the ring,
  and the ring never holds more than \<open>depth - 1\<close> messages.
\<close>

theorem spsc_fifo:
  assumes "spsc_init r a" "(spsc_step r)\<^sup>*\<^sup>* a s"
  shows "sp_sent s = sp_recv s @ ring_abs r (sp_mem s) \<and> length (ring_abs r (sp_mem s)) < unat (rg_depth r)"
  using spsc.inv_reachable[OF assms] len_less by (auto simp: spsc_inv_def ring_inv_def)

theorem spsc_fifo_witness:
  "let s = \<lparr>sp_mem = fst demo_ring, sp_prod = P_Idle, sp_cons = C_Idle, sp_sent = [], sp_recv = []\<rparr>
   in \<exists>t. (spsc_step (mr_tx (snd demo_ring)))\<^sup>*\<^sup>* s t \<and> sp_sent t = [[7]] \<and>
        sp_sent t = sp_recv t @ ring_abs (mr_tx (snd demo_ring)) (sp_mem t)"
proof -
  let ?r = "mr_tx (snd demo_ring)" and ?m = "fst demo_ring"
  let ?s = "\<lparr>sp_mem = ?m, sp_prod = P_Idle, sp_cons = C_Idle, sp_sent = [], sp_recv = []\<rparr>"
  note E = create_ready[OF demo_opt_ok demo_created]
  have init: "spsc_init ?r ?s" using E by (simp add: spsc_init_def)
  have r: "rg_max ?r = 16" "rg_depth ?r = 4" by (simp_all add: demo_ring_def msg_ring_create_def demo_opt_def Let_def)
  have ok: "ring_ok ?r ?m" using E(1) by (simp add: ring_inv_def)
  have "ring_len ?r ?m = 0" using E(2) by (metis length_ring_abs list.size(3))
  then have room: "room ?r ?m" using full_iff[OF ok] r(2) by (simp add: room_def)
  let ?s1 = "?s\<lparr>sp_prod := P_Room [7]\<rparr>"
  let ?s2 = "?s1\<lparr>sp_mem := put_slot ?r (rg_pi ?r ?m) [7] ?m, sp_prod := P_Written [7]\<rparr>"
  let ?s3 = "?s2\<lparr>sp_mem := set_pi ?r ((rg_pi ?r (sp_mem ?s2) + 1) mod rg_depth ?r) (sp_mem ?s2), sp_prod := P_Idle, sp_sent := [[7]]\<rparr>"
  have "spsc_step ?r ?s ?s1" by (rule spsc_step.p_check) (simp_all add: fits_def r room)
  moreover have "spsc_step ?r ?s1 ?s2" using spsc_step.p_done[of ?s1 "[7]" ?r] by simp
  moreover have "spsc_step ?r ?s2 ?s3" using spsc_step.p_publish[of ?s2 "[7]" ?r] by simp
  ultimately have run: "(spsc_step ?r)\<^sup>*\<^sup>* ?s ?s3" by (meson converse_rtranclp_into_rtranclp rtranclp.rtrancl_refl)
  show ?thesis unfolding Let_def using spsc_fifo[OF init run] run by (intro exI[of _ ?s3]) simp
qed





text \<open>
  Property C23.  The receive header lies outside the shared-memory object: when the ring pair is
  created in an object of its own, the header of the receive ring starts 224 bytes behind the
  end of the object, because \<open>sizeof(shm_ring_hdr_t)\<close> is added to a pointer to that structure.
\<close>

theorem msg_ring_rx_hdr_outside:
  assumes "opt_ok opt" "opt_addr opt = None" "msg_ring_create alloc_ok map_shm n opt m = (m', Some h)"
  shows "rg_hdr (mr_rx h) = rg_base (mr_tx h) + unat (mr_shm_size h) + 224"
proof -
  obtain ptr where "mr_tx h = \<lparr>rg_base = ptr, rg_hdr = ptr + unat (opt_tx_depth opt) * unat (opt_tx_max_buf_size opt) +
      unat (opt_rx_depth opt) * unat (opt_rx_max_buf_size opt), rg_max = opt_tx_max_buf_size opt, rg_depth = opt_tx_depth opt\<rparr>"
    "rg_hdr (mr_rx h) = rg_hdr (mr_tx h) + 256" "mr_shm_size h = opt_shm_size opt"
    using create_layout[OF assms(1,3)] assms(2) by (metis ring.select_convs(2))
  moreover have "unat (opt_shm_size opt) = unat (opt_tx_depth opt) * unat (opt_tx_max_buf_size opt) +
      unat (opt_rx_depth opt) * unat (opt_rx_max_buf_size opt) + 32"
    using assms(1) by (simp add: opt_shm_size_def opt_ok_def NUM_RING_HEADERS_def shm_ring_hdr_size_def unat_word_ariths)
  ultimately show ?thesis by simp
qed

theorem msg_ring_rx_hdr_outside_witness:
  "case msg_ring_create True (\<lambda>_ _. Some 4096) 0 (demo_opt\<lparr>opt_addr := None\<rparr>) (\<lambda>_. 0) of
     (m, Some h) \<Rightarrow> rg_hdr (mr_rx h) = rg_base (mr_tx h) + unat (mr_shm_size h) + 224 | (m, None) \<Rightarrow> False"
proof -
  obtain m h where c: "msg_ring_create True (\<lambda>_ _. Some 4096) 0 (demo_opt\<lparr>opt_addr := None\<rparr>) (\<lambda>_. 0) = (m, Some h)"
    by (simp add: msg_ring_create_def demo_opt_def Let_def)
  have "opt_ok (demo_opt\<lparr>opt_addr := None\<rparr>)" by (simp add: opt_ok_def demo_opt_def)
  from msg_ring_rx_hdr_outside[OF this _ c] c show ?thesis by simp
qed

end
