(* ===== verification/UMQ_Flow.thy ===== *)
theory UMQ_Flow
  imports Umdk_Prelude
begin

section \<open>UMQ over UB: flow control\<close>

text \<open>
  Module \<^verbatim>\<open>umq_ub/core/flow_control/umq_ub_flow_control.c\<close>: a receiver grants the sender credits
  for the receive buffers it has posted, and the sender takes a credit per message that uses up a
  receive buffer.  The theory holds the immediate data that carries credits (\<^verbatim>\<open>umq_ub_imm_data.h\<close>),
  the window counters with their plain and their atomic operations, the queue they belong to
  (\<open>ub_queue_t\<close>, restricted to the fields the data path uses) and the functions that take, return,
  publish and announce credits.

  The device is part of the queue: \<open>q_sq\<close> and \<open>q_rq\<close> hold the send and receive requests it has accepted, and
  \<open>q_post\<close>, \<open>q_post_rx\<close> say how it answers the next calls of \<open>urma_post_jetty_send_wr\<close> and
  \<open>urma_post_jetty_recv_wr\<close> (an empty list means success).
\<close>

subsection \<open>Immediate data\<close>

text \<open>\<open>umq_ub_imm_t\<close>: bit fields of a 64-bit word.\<close>

definition IMM_TYPE_UB_PLUS :: nat where "IMM_TYPE_UB_PLUS = 0"
definition IMM_TYPE_FLOW_CONTROL :: nat where "IMM_TYPE_FLOW_CONTROL = 1"
definition IMM_TYPE_MEM :: nat where "IMM_TYPE_MEM = 2"
definition IMM_TYPE_MEM_IMPORT :: nat where "IMM_TYPE_MEM_IMPORT = 0"
definition IMM_TYPE_MEM_IMPORT_DONE :: nat where "IMM_TYPE_MEM_IMPORT_DONE = 1"

definition imm_private :: "u64 \<Rightarrow> bool" where "imm_private v = bit v 0"
definition imm_type :: "u64 \<Rightarrow> nat" where "imm_type v = unat (take_bit 5 (drop_bit 1 v))"
definition imm_sub_type :: "u64 \<Rightarrow> nat" where "imm_sub_type v = unat (take_bit 5 (drop_bit 6 v))"
definition imm_in_user_buf :: "u64 \<Rightarrow> bool" where "imm_in_user_buf v = bit v 6"
definition imm_window :: "u64 \<Rightarrow> u16" where "imm_window v = ucast (drop_bit 16 v)"
definition imm_mempool_id :: "u64 \<Rightarrow> u16" where "imm_mempool_id v = ucast (drop_bit 16 v)"

definition mk_fc_imm :: "bool \<Rightarrow> u16 \<Rightarrow> u64" where
  "mk_fc_imm in_user_buf window = 3 OR push_bit 6 (of_bool in_user_buf) OR push_bit 16 (ucast window)"

definition mk_mem_imm :: "nat \<Rightarrow> u16 \<Rightarrow> u64" where
  "mk_mem_imm sub_type mempool_id = 5 OR push_bit 6 (of_nat sub_type) OR push_bit 16 (ucast mempool_id)"

definition UMQ_UB_IMM_WITHOUT_PRIVATE_BITS :: u64 where "UMQ_UB_IMM_WITHOUT_PRIVATE_BITS = 0xFFFFFFFFFFFFFFFE"

text \<open>The flow-control credits an immediate value carries.\<close>

definition fc_imm :: "u64 \<Rightarrow> bool" where
  "fc_imm v = (imm_private v \<and> imm_type v = IMM_TYPE_FLOW_CONTROL)"

lemma bits_3: "bit (3 :: u64) n \<longleftrightarrow> n = 0 \<or> n = 1"
  by (cases n; cases "n - 1") (auto simp: bit_simps bit_0 simp flip: bit_Suc)

lemma mk_fc_imm_private [simp]: "imm_private (mk_fc_imm b w)"
  by (simp add: imm_private_def mk_fc_imm_def bit_simps bits_3)

lemma mk_fc_imm_type [simp]: "imm_type (mk_fc_imm b w) = 1"
proof -
  have "take_bit 5 (drop_bit 1 (mk_fc_imm b w)) = (1 :: u64)"
    by (rule bit_word_eqI) (auto simp: mk_fc_imm_def bit_simps bits_3 bit_1_iff)
  then show ?thesis by (simp add: imm_type_def)
qed

lemma mk_fc_imm_window [simp]: "imm_window (mk_fc_imm b w) = w"
  unfolding imm_window_def mk_fc_imm_def by (rule bit_word_eqI) (auto simp: bit_simps bits_3)

lemma fc_imm_mk [simp]: "fc_imm (mk_fc_imm b w)"
  by (simp add: fc_imm_def IMM_TYPE_FLOW_CONTROL_def)

lemma masked_not_private [simp]: "\<not> imm_private (v AND UMQ_UB_IMM_WITHOUT_PRIVATE_BITS)"
  unfolding imm_private_def UMQ_UB_IMM_WITHOUT_PRIVATE_BITS_def bit_and_iff by simp

lemma masked_not_fc [simp]: "\<not> fc_imm (v AND UMQ_UB_IMM_WITHOUT_PRIVATE_BITS)"
  by (simp add: fc_imm_def)

subsection \<open>Window counters\<close>

text \<open>
  \<open>ub_flow_control_t\<close>.  \<open>fc_atomic\<close> stands for the table of function pointers \<open>ops\<close>: which of the two sets of
  operations \<open>umq_ub_flow_control_init\<close> installed.
\<close>

record ub_flow_control =
  fc_atomic :: bool
  total_local_rx_posted :: u64
  total_local_rx_notified :: u64
  total_local_rx_posted_error :: u64
  total_remote_rx_received :: u64
  total_remote_rx_consumed :: u64
  total_remote_rx_received_error :: u64
  total_flow_controlled_wr :: u64
  remote_win_buf_addr :: u64
  remote_win_buf_len :: u32
  local_rx_posted :: u16
  remote_rx_window :: u16
  initial_window :: u16
  notify_interval :: u16
  local_tx_depth :: u16
  local_rx_depth :: u16
  remote_tx_depth :: u16
  remote_rx_depth :: u16
  fc_local_set :: bool
  fc_remote_get :: bool
  fc_enabled :: bool

definition remote_rx_window_inc_non_atomic :: "ub_flow_control \<Rightarrow> u16 \<Rightarrow> ub_flow_control \<times> u16" where
  "remote_rx_window_inc_non_atomic fc new_win =
    (let win_sum = unat (remote_rx_window fc) + unat new_win in
     if win_sum > UINT16_MAX then
       (fc\<lparr>total_remote_rx_received_error := total_remote_rx_received_error fc + ucast new_win\<rparr>, remote_rx_window fc)
     else (fc\<lparr>total_remote_rx_received := total_remote_rx_received fc + ucast new_win, remote_rx_window := of_nat win_sum\<rparr>,
           of_nat win_sum))"

definition remote_rx_window_exchange_non_atomic :: "ub_flow_control \<Rightarrow> ub_flow_control \<times> u16" where
  "remote_rx_window_exchange_non_atomic fc =
    (fc\<lparr>total_remote_rx_consumed := total_remote_rx_consumed fc + ucast (remote_rx_window fc), remote_rx_window := 0\<rparr>,
     remote_rx_window fc)"

definition remote_rx_window_dec_non_atomic :: "ub_flow_control \<Rightarrow> u16 \<Rightarrow> ub_flow_control \<times> u16" where
  "remote_rx_window_dec_non_atomic fc required_win =
    (if required_win \<le> remote_rx_window fc then
       (fc\<lparr>remote_rx_window := remote_rx_window fc - required_win,
           total_remote_rx_consumed := total_remote_rx_consumed fc + ucast required_win\<rparr>, required_win)
     else remote_rx_window_exchange_non_atomic
       (fc\<lparr>total_flow_controlled_wr := total_flow_controlled_wr fc + ucast (required_win - remote_rx_window fc)\<rparr>))"

definition local_rx_posted_inc_non_atomic :: "ub_flow_control \<Rightarrow> u16 \<Rightarrow> ub_flow_control \<times> u16" where
  "local_rx_posted_inc_non_atomic fc rx_posted =
    (let rx_sum = unat (local_rx_posted fc) + unat rx_posted in
     if rx_sum > UINT16_MAX then
       (fc\<lparr>total_local_rx_posted_error := total_local_rx_posted_error fc + ucast rx_posted\<rparr>, local_rx_posted fc)
     else (fc\<lparr>total_local_rx_posted := total_local_rx_posted fc + ucast rx_posted, local_rx_posted := of_nat rx_sum\<rparr>,
           of_nat rx_sum))"

definition local_rx_posted_exchange_non_atomic :: "ub_flow_control \<Rightarrow> ub_flow_control \<times> u16" where
  "local_rx_posted_exchange_non_atomic fc =
    (fc\<lparr>total_local_rx_notified := total_local_rx_notified fc + ucast (local_rx_posted fc), local_rx_posted := 0\<rparr>,
     local_rx_posted fc)"

text \<open>
  The atomic operations are compare-and-exchange loops.  The list gives the value another thread has
  left in the counter at each compare that fails (the same value for a spurious failure of the weak
  exchange); at the end of the list the compare succeeds.
\<close>

fun remote_rx_window_inc_cas :: "u16 list \<Rightarrow> u16 \<Rightarrow> ub_flow_control \<Rightarrow> u16 \<Rightarrow> ub_flow_control \<times> u16 \<times> u16" where
  "remote_rx_window_inc_cas vs before fc new_win =
    (let win_sum = unat before + unat new_win in
     if win_sum > UINT16_MAX then (fc, before, before)
     else case vs of
       [] \<Rightarrow> (fc\<lparr>remote_rx_window := of_nat win_sum\<rparr>, of_nat win_sum, before)
     | v # vs' \<Rightarrow> remote_rx_window_inc_cas vs' v (fc\<lparr>remote_rx_window := v\<rparr>) new_win)"

definition remote_rx_window_inc_atomic :: "u16 list \<Rightarrow> ub_flow_control \<Rightarrow> u16 \<Rightarrow> ub_flow_control \<times> u16" where
  "remote_rx_window_inc_atomic vs fc new_win =
    (let (fc1, ret, before) = remote_rx_window_inc_cas vs (remote_rx_window fc) fc new_win in
     if ret = before
     then (fc1\<lparr>total_remote_rx_received_error := total_remote_rx_received_error fc1 + ucast new_win\<rparr>, ret)
     else (fc1\<lparr>total_remote_rx_received := total_remote_rx_received fc1 + ucast new_win\<rparr>, ret))"

definition remote_rx_window_exchange_atomic :: "ub_flow_control \<Rightarrow> ub_flow_control \<times> u16" where
  "remote_rx_window_exchange_atomic fc = (fc\<lparr>remote_rx_window := 0\<rparr>, remote_rx_window fc)"

fun remote_rx_window_dec_cas :: "u16 list \<Rightarrow> u16 \<Rightarrow> ub_flow_control \<Rightarrow> u16 \<Rightarrow> ub_flow_control \<times> u16" where
  "remote_rx_window_dec_cas vs before fc required_win =
    (if before = 0 then (fc, 0)
     else let after = (if before > required_win then before - required_win else 0) in
       case vs of
         [] \<Rightarrow> (fc\<lparr>remote_rx_window := after\<rparr>, before - after)
       | v # vs' \<Rightarrow> remote_rx_window_dec_cas vs' v (fc\<lparr>remote_rx_window := v\<rparr>) required_win)"

definition remote_rx_window_dec_atomic :: "u16 list \<Rightarrow> ub_flow_control \<Rightarrow> u16 \<Rightarrow> ub_flow_control \<times> u16" where
  "remote_rx_window_dec_atomic vs fc required_win =
    (let (fc1, ret) = remote_rx_window_dec_cas vs (remote_rx_window fc) fc required_win;
         fc2 = (if ret < required_win
                then fc1\<lparr>total_flow_controlled_wr := total_flow_controlled_wr fc1 + ucast (required_win - ret)\<rparr> else fc1)
     in (if ret > 0 then fc2\<lparr>total_remote_rx_consumed := total_remote_rx_consumed fc2 + ucast ret\<rparr> else fc2, ret))"

fun local_rx_posted_inc_cas :: "u16 list \<Rightarrow> u16 \<Rightarrow> ub_flow_control \<Rightarrow> u16 \<Rightarrow> ub_flow_control \<times> u16 \<times> u16" where
  "local_rx_posted_inc_cas vs before fc rx_posted =
    (let rx_sum = unat before + unat rx_posted in
     if rx_sum > UINT16_MAX then (fc, before, before)
     else case vs of
       [] \<Rightarrow> (fc\<lparr>local_rx_posted := of_nat rx_sum\<rparr>, of_nat rx_sum, before)
     | v # vs' \<Rightarrow> local_rx_posted_inc_cas vs' v (fc\<lparr>local_rx_posted := v\<rparr>) rx_posted)"

definition local_rx_posted_inc_atomic :: "u16 list \<Rightarrow> ub_flow_control \<Rightarrow> u16 \<Rightarrow> ub_flow_control \<times> u16" where
  "local_rx_posted_inc_atomic vs fc rx_posted =
    (let (fc1, ret, before) = local_rx_posted_inc_cas vs (local_rx_posted fc) fc rx_posted in
     if ret = before
     then (fc1\<lparr>total_local_rx_posted_error := total_local_rx_posted_error fc1 + ucast rx_posted\<rparr>, ret)
     else (fc1\<lparr>total_local_rx_posted := total_local_rx_posted fc1 + ucast rx_posted\<rparr>, ret))"

definition local_rx_posted_exchange_atomic :: "ub_flow_control \<Rightarrow> ub_flow_control \<times> u16" where
  "local_rx_posted_exchange_atomic fc =
    (let posted = local_rx_posted fc; fc1 = fc\<lparr>local_rx_posted := 0\<rparr> in
     (if posted > 0 then fc1\<lparr>total_local_rx_notified := total_local_rx_notified fc1 + ucast posted\<rparr> else fc1, posted))"

declare remote_rx_window_inc_cas.simps [simp del] remote_rx_window_dec_cas.simps [simp del]
  local_rx_posted_inc_cas.simps [simp del]

text \<open>The calls through \<open>fc->ops\<close>, without interference.\<close>

definition remote_rx_window_inc :: "ub_flow_control \<Rightarrow> u16 \<Rightarrow> ub_flow_control \<times> u16" where
  "remote_rx_window_inc fc w =
    (if fc_atomic fc then remote_rx_window_inc_atomic [] fc w else remote_rx_window_inc_non_atomic fc w)"

definition remote_rx_window_dec :: "ub_flow_control \<Rightarrow> u16 \<Rightarrow> ub_flow_control \<times> u16" where
  "remote_rx_window_dec fc w =
    (if fc_atomic fc then remote_rx_window_dec_atomic [] fc w else remote_rx_window_dec_non_atomic fc w)"

definition local_rx_posted_inc :: "ub_flow_control \<Rightarrow> u16 \<Rightarrow> ub_flow_control \<times> u16" where
  "local_rx_posted_inc fc w =
    (if fc_atomic fc then local_rx_posted_inc_atomic [] fc w else local_rx_posted_inc_non_atomic fc w)"

definition local_rx_posted_exchange :: "ub_flow_control \<Rightarrow> ub_flow_control \<times> u16" where
  "local_rx_posted_exchange fc =
    (if fc_atomic fc then local_rx_posted_exchange_atomic fc else local_rx_posted_exchange_non_atomic fc)"

text \<open>\<open>umq_flow_control_stats_t\<close> and the two query functions, which only differ in how they load.\<close>

record umq_flow_control_stats =
  st_local_rx_posted :: u64
  st_remote_rx_window :: u64
  st_total_local_rx_posted :: u64
  st_total_local_rx_notified :: u64
  st_total_local_rx_posted_error :: u64
  st_total_remote_rx_received :: u64
  st_total_remote_rx_consumed :: u64
  st_total_remote_rx_received_error :: u64
  st_total_flow_controlled_wr :: u64

definition flow_control_stats_query :: "ub_flow_control \<Rightarrow> umq_flow_control_stats" where
  "flow_control_stats_query fc = \<lparr>st_local_rx_posted = ucast (local_rx_posted fc),
     st_remote_rx_window = ucast (remote_rx_window fc),
     st_total_local_rx_posted = total_local_rx_posted fc,
     st_total_local_rx_notified = total_local_rx_notified fc,
     st_total_local_rx_posted_error = total_local_rx_posted_error fc,
     st_total_remote_rx_received = total_remote_rx_received fc,
     st_total_remote_rx_consumed = total_remote_rx_consumed fc,
     st_total_remote_rx_received_error = total_remote_rx_received_error fc,
     st_total_flow_controlled_wr = total_flow_controlled_wr fc\<rparr>"

subsection \<open>Initialisation\<close>

record umq_flow_control_cfg =
  cfg_initial_window :: u16
  cfg_notify_interval :: u16
  cfg_use_atomic_window :: bool

definition fc_zero :: ub_flow_control where
  "fc_zero = \<lparr>fc_atomic = False, total_local_rx_posted = 0, total_local_rx_notified = 0, total_local_rx_posted_error = 0,
     total_remote_rx_received = 0, total_remote_rx_consumed = 0, total_remote_rx_received_error = 0,
     total_flow_controlled_wr = 0, remote_win_buf_addr = 0, remote_win_buf_len = 0, local_rx_posted = 0,
     remote_rx_window = 0, initial_window = 0, notify_interval = 0, local_tx_depth = 0, local_rx_depth = 0,
     remote_tx_depth = 0, remote_rx_depth = 0, fc_local_set = False, fc_remote_get = False, fc_enabled = False\<rparr>"

definition UMQ_FEATURE_API_PRO :: u32 where "UMQ_FEATURE_API_PRO = 1"
definition UMQ_FEATURE_ENABLE_FLOW_CONTROL :: u32 where "UMQ_FEATURE_ENABLE_FLOW_CONTROL = 16"
definition UMQ_UB_FLOW_CONTROL_NOTIFY_THR :: nat where "UMQ_UB_FLOW_CONTROL_NOTIFY_THR = 4"

text \<open>\<open>rx_depth\<close> and \<open>tx_depth\<close> are the depths of the queue; they are cut to 16 bits.\<close>

definition umq_ub_flow_control_init :: "u32 \<Rightarrow> u32 \<Rightarrow> u32 \<Rightarrow> umq_flow_control_cfg \<Rightarrow> ub_flow_control" where
  "umq_ub_flow_control_init rx_depth tx_depth feature cfg =
    (if feature AND UMQ_FEATURE_ENABLE_FLOW_CONTROL = 0 then fc_zero
     else let depth = ucast rx_depth;
              window = (if cfg_initial_window cfg = 0 \<or> ucast (cfg_initial_window cfg) > rx_depth
                        then drop_bit 1 depth else cfg_initial_window cfg);
              interval = (if cfg_notify_interval cfg = 0 \<or> ucast (cfg_notify_interval cfg) > rx_depth
                          then drop_bit UMQ_UB_FLOW_CONTROL_NOTIFY_THR depth else cfg_notify_interval cfg)
       in fc_zero\<lparr>fc_enabled := True, local_rx_depth := depth, local_tx_depth := ucast tx_depth,
            initial_window := (if window = 0 then 1 else window),
            notify_interval := (if interval = 0 then 1 else interval),
            fc_atomic := cfg_use_atomic_window cfg\<rparr>)"

text \<open>\<open>umq_ub_window_init\<close> on the fields of the peer's bind information; \<open>False\<close> is \<open>UMQ_FAIL\<close>.\<close>

definition umq_ub_window_init :: "ub_flow_control \<Rightarrow> u64 \<Rightarrow> u32 \<Rightarrow> u32 \<Rightarrow> u32 \<Rightarrow> ub_flow_control \<times> bool" where
  "umq_ub_window_init fc win_buf_addr win_buf_len rx_depth tx_depth =
    (if \<not> fc_enabled fc then (fc, True)
     else if win_buf_addr = 0 \<or> win_buf_len < 2 then (fc, False)
     else (fc\<lparr>remote_win_buf_addr := win_buf_addr, remote_win_buf_len := win_buf_len,
              remote_rx_depth := ucast rx_depth, remote_tx_depth := ucast tx_depth, remote_rx_window := 0\<rparr>, True))"

subsection \<open>Buffers, work requests and the queue\<close>

datatype umq_opcode = UMQ_OPC_WRITE | UMQ_OPC_WRITE_IMM | UMQ_OPC_READ | UMQ_OPC_SEND | UMQ_OPC_SEND_IMM | UMQ_OPC_NOP

datatype urma_opcode = URMA_OPC_WRITE | URMA_OPC_WRITE_IMM | URMA_OPC_READ | URMA_OPC_SEND | URMA_OPC_SEND_IMM

text \<open>
  What the data path reads from \<open>buf_data\<close> of a message that announces memory pools: the head
  \<open>umq_imm_head_t\<close> (\<open>ih_none\<close>: its type is \<open>IMM_PROTOCAL_TYPE_NONE\<close>) and the pool ids of the \<open>ub_import_mempool_info_t\<close> entries.
\<close>

record umq_imm_head =
  ih_none :: bool
  ih_mempool_num :: u8
  ih_mempool_ids :: "nat \<Rightarrow> u8"

text \<open>\<open>umq_buf_t\<close> with its extension \<open>umq_buf_pro_t\<close>; pointers are 64-bit values, 0 is \<open>NULL\<close>.\<close>

record umq_buf =
  qbuf_next :: u64
  total_data_size :: u32
  data_size :: u32
  buf_data :: u64
  mempool_id :: u8
  buf_status :: nat
  io_direction :: nat
  bp_opcode :: umq_opcode
  bp_flag :: u32
  bp_imm_data :: u64
  bp_remote_addr :: u64
  bp_remote_length :: u32
  bp_remote_mempool_id :: u8
  bp_umq_ctx :: u64
  buf_head :: umq_imm_head

text \<open>A scatter entry: address, length and memory pool.\<close>

type_synonym urma_sge = "u64 \<times> u32 \<times> u8"

record urma_jfs_wr =
  wr_user_ctx :: u64
  wr_opcode :: urma_opcode
  wr_imm :: u64
  wr_flag :: u32
  wr_sges :: "urma_sge list"
  wr_remote :: "urma_sge option"

record urma_jfr_wr =
  rwr_user_ctx :: u64
  rwr_sges :: "urma_sge list"

datatype post_outcome = Post_ok | Post_fail int "nat option"

datatype umq_state = QUEUE_STATE_IDLE | QUEUE_STATE_READY | QUEUE_STATE_ERR

text \<open>
  \<open>ub_queue_t\<close>: \<open>q_bound\<close> says that \<open>bind_ctx\<close> is set, \<open>q_imported\<close> and \<open>q_remote_imported\<close> are
  the non-null entries of \<open>imported_tseg_list\<close> and \<open>tesg_imported\<close>, \<open>q_win_local\<close> and \<open>q_win_remote\<close> the two
  16-bit cells at \<open>OFFSET_FLOW_CONTROL\<close> of the notify buffer, \<open>q_idle\<close>, \<open>q_used\<close> and \<open>q_ctx_buffer\<close> the receive contexts
  of \<open>rx_buf_ctx_list\<close>, \<open>q_bufs\<close> the buffers and \<open>q_freed\<close> those given back with \<open>umq_buf_free\<close>.
  \<open>q_import_ok\<close> says which pools \<open>import_mem\<close> succeeds for.
\<close>

record ub_queue =
  q_fc :: ub_flow_control
  q_bound :: bool
  q_ref_cnt :: u32
  q_tx_outstanding :: u32
  q_state :: umq_state
  q_tx_flush_done :: bool
  q_rx_flush_done :: bool
  q_trans_rc :: bool
  q_feature :: u32
  q_max_tx_sge :: u8
  q_max_rx_sge :: u8
  q_tx_buf_size :: u32
  q_remote_rx_buf_size :: u32
  q_umq_ctx_table :: "u32 \<Rightarrow> u64"
  q_imported :: "u8 \<Rightarrow> bool"
  q_remote_imported :: "nat \<Rightarrow> bool"
  q_import_ok :: "u8 \<Rightarrow> bool"
  q_remote_notify_addr :: u64
  q_win_local :: u16
  q_win_remote :: u16
  q_idle :: "u64 list"
  q_used :: "u64 list"
  q_ctx_buffer :: "u64 \<Rightarrow> u64"
  q_bufs :: "u64 \<rightharpoonup> umq_buf"
  q_freed :: "u64 list"
  q_sq :: "urma_jfs_wr list"
  q_rq :: "urma_jfr_wr list"
  q_post :: "post_outcome list"
  q_post_rx :: "post_outcome list"

definition upd_buf :: "u64 \<Rightarrow> (umq_buf \<Rightarrow> umq_buf) \<Rightarrow> ub_queue \<Rightarrow> ub_queue" where
  "upd_buf b f q = q\<lparr>q_bufs := (q_bufs q)(b := map_option f (q_bufs q b))\<rparr>"

text \<open>
  The device accepts the requests of a list, or the ones before the bad one it names; without a name none.
\<close>

definition bad_index :: "nat option \<Rightarrow> 'a list \<Rightarrow> nat option" where
  "bad_index bad wrs = (case bad of Some i \<Rightarrow> if i < length wrs then Some i else None | None \<Rightarrow> None)"

definition accepted :: "nat option \<Rightarrow> 'a list \<Rightarrow> 'a list" where
  "accepted bad wrs = (case bad_index bad wrs of Some i \<Rightarrow> take i wrs | None \<Rightarrow> [])"

definition urma_post_jetty_send_wr :: "urma_jfs_wr list \<Rightarrow> ub_queue \<Rightarrow> ub_queue \<times> (int \<times> nat option) option" where
  "urma_post_jetty_send_wr wrs q =
    (case q_post q of
       [] \<Rightarrow> (q\<lparr>q_sq := q_sq q @ wrs\<rparr>, None)
     | Post_ok # r \<Rightarrow> (q\<lparr>q_sq := q_sq q @ wrs, q_post := r\<rparr>, None)
     | Post_fail st bad # r \<Rightarrow>
         (q\<lparr>q_sq := q_sq q @ accepted bad wrs, q_post := r\<rparr>, Some (st, bad_index bad wrs)))"

definition urma_post_jetty_recv_wr :: "urma_jfr_wr list \<Rightarrow> ub_queue \<Rightarrow> ub_queue \<times> nat option option" where
  "urma_post_jetty_recv_wr wrs q =
    (case q_post_rx q of
       [] \<Rightarrow> (q\<lparr>q_rq := q_rq q @ wrs\<rparr>, None)
     | Post_ok # r \<Rightarrow> (q\<lparr>q_rq := q_rq q @ wrs, q_post_rx := r\<rparr>, None)
     | Post_fail st bad # r \<Rightarrow>
         (q\<lparr>q_rq := q_rq q @ accepted bad wrs, q_post_rx := r\<rparr>, Some (bad_index bad wrs)))"

subsection \<open>Taking, returning and announcing credits\<close>

definition window_read_wr :: "ub_queue \<Rightarrow> urma_jfs_wr" where
  "window_read_wr q = \<lparr>wr_user_ctx = 0, wr_opcode = URMA_OPC_READ, wr_imm = 0, wr_flag = 0x20,
     wr_sges = [], wr_remote = Some (remote_win_buf_addr (q_fc q), 2, 0)\<rparr>"

definition umq_ub_window_read :: "ub_queue \<Rightarrow> ub_queue" where
  "umq_ub_window_read q =
    (if \<not> fc_enabled (q_fc q) \<or> \<not> q_bound q then q
     else let (q1, r) = urma_post_jetty_send_wr [window_read_wr q] q in
       if r = None then q1\<lparr>q_fc := (q_fc q1)\<lparr>fc_remote_get := True\<rparr>\<rparr> else q1)"

definition umq_ub_window_inc :: "u16 \<Rightarrow> ub_queue \<Rightarrow> ub_queue" where
  "umq_ub_window_inc win q =
    (if win = 0 \<or> \<not> fc_enabled (q_fc q) then q else q\<lparr>q_fc := fst (remote_rx_window_inc (q_fc q) win)\<rparr>)"

definition umq_ub_window_dec :: "u16 \<Rightarrow> ub_queue \<Rightarrow> ub_queue \<times> u16" where
  "umq_ub_window_dec win q =
    (if win = 0 \<or> \<not> fc_enabled (q_fc q) then (q, win)
     else if \<not> fc_remote_get (q_fc q) then (umq_ub_window_read q, 0)
     else let (fc, r) = remote_rx_window_dec (q_fc q) win in (q\<lparr>q_fc := fc\<rparr>, r))"

definition umq_ub_rq_posted_notifier_inc :: "u16 \<Rightarrow> ub_queue \<Rightarrow> ub_queue" where
  "umq_ub_rq_posted_notifier_inc rx_posted q =
    (if rx_posted = 0 \<or> \<not> fc_enabled (q_fc q) then q else q\<lparr>q_fc := fst (local_rx_posted_inc (q_fc q) rx_posted)\<rparr>)"

definition fc_message_wr :: "u16 \<Rightarrow> urma_jfs_wr" where
  "fc_message_wr notify = \<lparr>wr_user_ctx = ucast notify, wr_opcode = URMA_OPC_SEND_IMM, wr_imm = mk_fc_imm False notify,
     wr_flag = 0x60, wr_sges = [], wr_remote = None\<rparr>"

text \<open>The first announcement is published in the notify buffer, where the peer reads it.\<close>

definition publish_initial_window :: "ub_queue \<Rightarrow> ub_queue" where
  "publish_initial_window q =
    (let (fc, notify) = local_rx_posted_exchange (q_fc q); q1 = q\<lparr>q_fc := fc\<rparr> in
     if notify = 0 then q1
     else let q2 = q1\<lparr>q_win_local := notify, q_fc := fc\<lparr>fc_local_set := True\<rparr>\<rparr> in
       if \<not> fc_remote_get fc then umq_ub_window_read q2 else q2)"

text \<open>Later announcements are messages, which need a credit themselves.\<close>

definition send_window_update :: "ub_queue \<Rightarrow> ub_queue" where
  "send_window_update q =
    (let (q1, n) = umq_ub_window_dec 1 q in
     if n \<noteq> 1 then q1
     else let (fc, notify) = local_rx_posted_exchange (q_fc q1); q2 = q1\<lparr>q_fc := fc\<rparr> in
       if notify = 0 then umq_ub_window_inc 1 q2
       else let (q3, r) = urma_post_jetty_send_wr [fc_message_wr notify] q2 in
         if r = None then q3 else umq_ub_rq_posted_notifier_inc notify (umq_ub_window_inc 1 q3))"

definition umq_ub_rq_posted_notifier_update :: "u16 \<Rightarrow> ub_queue \<Rightarrow> ub_queue" where
  "umq_ub_rq_posted_notifier_update rx_posted q =
    (if rx_posted = 0 \<or> \<not> fc_enabled (q_fc q) then q
     else let (fc, notify) = local_rx_posted_inc (q_fc q) rx_posted; q1 = q\<lparr>q_fc := fc\<rparr> in
       if \<not> q_bound q1 then q1
       else if \<not> fc_local_set fc then (if notify < initial_window fc then q1 else publish_initial_window q1)
       else if notify < notify_interval fc then q1
       else send_window_update q1)"

text \<open>A user message can carry an announcement.\<close>

definition umq_ub_fill_tx_imm :: "u64 \<Rightarrow> urma_jfs_wr \<Rightarrow> ub_queue \<Rightarrow> ub_queue \<times> urma_jfs_wr" where
  "umq_ub_fill_tx_imm b wr q =
    (if \<not> fc_enabled (q_fc q) \<or> wr_opcode wr \<noteq> URMA_OPC_SEND then (q, wr)
     else if local_rx_posted (q_fc q) < notify_interval (q_fc q) then (q, wr)
     else let (fc, notify) = local_rx_posted_exchange (q_fc q); q1 = q\<lparr>q_fc := fc\<rparr> in
       if notify = 0 then (q1, wr)
       else let imm = mk_fc_imm True notify in
         (upd_buf b (\<lambda>e. e\<lparr>bp_opcode := UMQ_OPC_SEND_IMM, bp_imm_data := imm\<rparr>) q1,
          wr\<lparr>wr_opcode := URMA_OPC_SEND_IMM, wr_imm := imm\<rparr>))"

text \<open>The requests from the bad one on were not sent: their announcements go back to the counter.\<close>

fun recover_tx_imm_loop :: "u64 \<Rightarrow> bool \<Rightarrow> urma_jfs_wr list \<Rightarrow> ub_queue \<Rightarrow> ub_queue" where
  "recover_tx_imm_loop bad found [] q = q"
| "recover_tx_imm_loop bad found (wr # wrs) q =
    (let found1 = (found \<or> wr_user_ctx wr = bad) in
     if found1 \<and> wr_opcode wr = URMA_OPC_SEND_IMM \<and> fc_imm (wr_imm wr)
     then recover_tx_imm_loop bad found1 wrs
       (upd_buf (wr_user_ctx wr) (\<lambda>e. e\<lparr>bp_opcode := UMQ_OPC_SEND, bp_imm_data := 0\<rparr>)
         (umq_ub_rq_posted_notifier_update (imm_window (wr_imm wr)) q))
     else recover_tx_imm_loop bad found1 wrs q)"

definition umq_ub_recover_tx_imm :: "urma_jfs_wr list \<Rightarrow> u64 \<Rightarrow> ub_queue \<Rightarrow> ub_queue" where
  "umq_ub_recover_tx_imm wrs bad q = (if \<not> fc_enabled (q_fc q) then q else recover_tx_imm_loop bad False wrs q)"

end
