(* ===== verification/UMQ_UbPro.thy ===== *)
theory UMQ_UbPro
  imports UMQ_Flow "HOL-Library.Monad_Syntax"
begin

section \<open>UMQ over UB: posting and polling\<close>

text \<open>
  Module \<^verbatim>\<open>umq_ub/core/private/umq_pro_ub.c\<close>: \<open>umq_ub_post_tx\<close>, \<open>umq_ub_post_rx\<close>, \<open>umq_ub_poll_tx\<close> and
  \<open>umq_ub_poll_rx\<close> on a queue, with the receive contexts, the conversion of buffer chains into work
  requests and the messages the data path handles itself (credits, memory import; the latter from \<^verbatim>\<open>umq_ub.c\<close>).
  A result \<open>None\<close> is the use of a null or dangling pointer, or a walk along a cyclic buffer chain that never ends.
  Completion records come from the device and are arguments of the polling functions.
\<close>

definition UMQ_ERR_EAGAIN :: int where "UMQ_ERR_EAGAIN = 11"
definition UMQ_ERR_ENOMEM :: int where "UMQ_ERR_ENOMEM = 12"
definition UMQ_ERR_ENODEV :: int where "UMQ_ERR_ENODEV = 19"
definition UMQ_ERR_EINVAL :: int where "UMQ_ERR_EINVAL = 22"
definition UMQ_ERR_ETSEG_NON_IMPORTED :: int where "UMQ_ERR_ETSEG_NON_IMPORTED = 0x0201"
definition UMQ_BATCH_SIZE :: nat where "UMQ_BATCH_SIZE = 64"
definition UMQ_POST_POLL_BATCH :: nat where "UMQ_POST_POLL_BATCH = 64"
definition UMQ_MAX_TSEG_NUM :: nat where "UMQ_MAX_TSEG_NUM = 255"

subsection \<open>Receive contexts\<close>

definition rx_buf_ctx_list_init :: "u64 list \<Rightarrow> ub_queue \<Rightarrow> ub_queue" where
  "rx_buf_ctx_list_init ctxs q = q\<lparr>q_idle := ctxs, q_used := []\<rparr>"

definition queue_rx_buf_ctx_get :: "ub_queue \<Rightarrow> ub_queue \<times> u64 option" where
  "queue_rx_buf_ctx_get q =
    (case q_idle q of [] \<Rightarrow> (q, None) | c # cs \<Rightarrow> (q\<lparr>q_idle := cs, q_used := q_used q @ [c]\<rparr>, Some c))"

definition queue_rx_buf_ctx_put :: "u64 \<Rightarrow> ub_queue \<Rightarrow> ub_queue" where
  "queue_rx_buf_ctx_put c q =
    (if c = 0 then q else q\<lparr>q_idle := removeAll c (q_idle q) @ [c], q_used := removeAll c (q_used q)\<rparr>)"

definition queue_rx_buf_ctx_flush :: "ub_queue \<Rightarrow> ub_queue \<times> u64" where
  "queue_rx_buf_ctx_flush q = (case q_used q of [] \<Rightarrow> (q, 0) | c # cs \<Rightarrow> (queue_rx_buf_ctx_put c q, c))"

definition umq_get_buf_by_user_ctx :: "u64 \<Rightarrow> ub_queue \<Rightarrow> ub_queue \<times> u64" where
  "umq_get_buf_by_user_ctx c q = (queue_rx_buf_ctx_put c q, q_ctx_buffer q c)"

subsection \<open>Sending\<close>

definition inc_ref :: "ub_queue \<Rightarrow> ub_queue" where "inc_ref q = q\<lparr>q_ref_cnt := q_ref_cnt q + 1\<rparr>"
definition dec_ref :: "ub_queue \<Rightarrow> ub_queue" where "dec_ref q = q\<lparr>q_ref_cnt := q_ref_cnt q - 1\<rparr>"

text \<open>\<open>umq_ub_tx_failed_num\<close> and its twin for receive requests: the position of the bad request, counted from the end.\<close>

fun failed_num :: "('a \<Rightarrow> u64) \<Rightarrow> 'a list \<Rightarrow> u64 \<Rightarrow> nat" where
  "failed_num ctx [] bad = 0"
| "failed_num ctx (wr # wrs) bad = (if ctx wr = bad then length (wr # wrs) else failed_num ctx wrs bad)"

definition umq_ub_tx_failed_num :: "urma_jfs_wr list \<Rightarrow> u64 \<Rightarrow> u16" where
  "umq_ub_tx_failed_num wrs bad = of_nat (failed_num wr_user_ctx wrs bad)"

definition umq_ub_post_rx_failed_num :: "urma_jfr_wr list \<Rightarrow> u64 \<Rightarrow> u16" where
  "umq_ub_post_rx_failed_num wrs bad = of_nat (failed_num rwr_user_ctx wrs bad)"

definition transform_op_code :: "umq_opcode \<Rightarrow> urma_opcode" where
  "transform_op_code opcode = (case opcode of
     UMQ_OPC_WRITE \<Rightarrow> URMA_OPC_WRITE | UMQ_OPC_WRITE_IMM \<Rightarrow> URMA_OPC_WRITE_IMM | UMQ_OPC_READ \<Rightarrow> URMA_OPC_READ
   | UMQ_OPC_SEND \<Rightarrow> URMA_OPC_SEND | UMQ_OPC_SEND_IMM \<Rightarrow> URMA_OPC_SEND_IMM | UMQ_OPC_NOP \<Rightarrow> URMA_OPC_SEND)"

definition opcode_consume_rqe :: "umq_opcode \<Rightarrow> bool" where
  "opcode_consume_rqe opcode = (opcode = UMQ_OPC_SEND \<or> opcode = UMQ_OPC_SEND_IMM \<or> opcode = UMQ_OPC_WRITE_IMM)"

text \<open>
  \<open>umq_ub_fill_wr\<close>.  The remote end of a read and of a write lives in one local variable each
  (\<open>src_sge\<close>, \<open>dst_sge\<close>), shared by all requests of a call, which point to it; the result is the
  immediate value and the new contents of the two variables.
\<close>

definition umq_ub_fill_wr ::
  "ub_queue \<Rightarrow> umq_buf \<Rightarrow> urma_sge option \<times> urma_sge option \<Rightarrow> int + u64 \<times> urma_sge option \<times> urma_sge option" where
  "umq_ub_fill_wr q e sd =
    (let m = bp_remote_mempool_id e; r = (bp_remote_addr e, bp_remote_length e, m);
         ok = (unat m < UMQ_MAX_TSEG_NUM \<and> q_imported q m);
         masked = bp_imm_data e AND UMQ_UB_IMM_WITHOUT_PRIVATE_BITS in
     case bp_opcode e of
       UMQ_OPC_READ \<Rightarrow>
         if bp_remote_length e > total_data_size e then Inl (- UMQ_ERR_EINVAL)
         else if \<not> ok then Inl (- UMQ_ERR_ETSEG_NON_IMPORTED) else Inr (0, Some r, snd sd)
     | UMQ_OPC_WRITE_IMM \<Rightarrow>
         if bp_remote_length e < total_data_size e then Inl (- UMQ_ERR_EINVAL)
         else if \<not> ok then Inl (- UMQ_ERR_ETSEG_NON_IMPORTED) else Inr (masked, fst sd, Some r)
     | UMQ_OPC_WRITE \<Rightarrow>
         if bp_remote_length e < total_data_size e then Inl (- UMQ_ERR_EINVAL)
         else if \<not> ok then Inl (- UMQ_ERR_ETSEG_NON_IMPORTED) else Inr (0, fst sd, Some r)
     | UMQ_OPC_SEND_IMM \<Rightarrow> Inr (masked, sd)
     | UMQ_OPC_SEND \<Rightarrow> Inr (0, sd)
     | UMQ_OPC_NOP \<Rightarrow> Inr (0, sd))"

text \<open>
  The inner loop collects buffers until they add up to \<open>rest\<close> bytes; \<open>n\<close> counts the scatter entries that are left.
  \<open>tight\<close> holds the last buffer that made up the rest exactly.
\<close>

fun collect_sges ::
  "nat \<Rightarrow> ub_queue \<Rightarrow> u64 \<Rightarrow> u32 \<Rightarrow> u64 \<Rightarrow> urma_sge list \<Rightarrow> (unit + urma_sge list \<times> u64 \<times> u32 \<times> u64) option" where
  "collect_sges 0 q b rest tight acc =
    (if b = 0 \<or> rest = 0 then Some (Inr (acc, b, rest, tight)) else Some (Inl ()))"
| "collect_sges (Suc n) q b rest tight acc =
    (if b = 0 \<or> rest = 0 then Some (Inr (acc, b, rest, tight))
     else do { e \<leftarrow> q_bufs q b;
               if rest < data_size e then Some (Inl ())
               else collect_sges n q (qbuf_next e) (rest - data_size e) (if rest = data_size e then b else tight)
                 (acc @ [(buf_data e, data_size e, mempool_id e)]) })"

text \<open>
  The outer loop: one request per message.  \<open>n\<close> is what is left of \<open>UMQ_BATCH_SIZE\<close>; the flag is
  \<open>opcode_consume_rqe\<close>, overwritten in every round.  \<open>Inl\<close>: the loop was left with an error after the given requests.
\<close>

record tx_build =
  tb_q :: ub_queue
  tb_wrs :: "urma_jfs_wr list"
  tb_consume :: bool
  tb_remote :: "urma_sge option \<times> urma_sge option"

fun build_tx :: "nat \<Rightarrow> u32 \<Rightarrow> u64 \<Rightarrow> tx_build \<Rightarrow> (int \<times> tx_build + tx_build) option" where
  "build_tx 0 max_send_size b t = (if b = 0 then Some (Inr t) else Some (Inl (- UMQ_ERR_EINVAL, t)))"
| "build_tx (Suc n) max_send_size b t =
    (if b = 0 then Some (Inr t)
     else do {
       e \<leftarrow> q_bufs (tb_q t) b;
       if total_data_size e > max_send_size \<and> (bp_opcode e = UMQ_OPC_SEND \<or> bp_opcode e = UMQ_OPC_SEND_IMM)
       then Some (Inl (- UMQ_ERR_EINVAL, t))
       else do {
         r \<leftarrow> collect_sges (unat (q_max_tx_sge (tb_q t))) (tb_q t) b (total_data_size e) 0 [];
         (case r of
            Inl _ \<Rightarrow> Some (Inl (- UMQ_ERR_EINVAL, t))
          | Inr (sges, b', rest, _) \<Rightarrow>
              if rest \<noteq> 0 then Some (Inl (- UMQ_ERR_ENOMEM, t))
              else (case umq_ub_fill_wr (tb_q t) e (tb_remote t) of
                Inl err \<Rightarrow> Some (Inl (err, t))
              | Inr (imm, remote) \<Rightarrow>
                  (let (q1, wr) = umq_ub_fill_tx_imm b \<lparr>wr_user_ctx = b, wr_opcode = transform_op_code (bp_opcode e),
                         wr_imm = imm, wr_flag = bp_flag e, wr_sges = sges, wr_remote = None\<rparr> (tb_q t)
                   in build_tx n max_send_size b' \<lparr>tb_q = q1, tb_wrs = tb_wrs t @ [wr],
                        tb_consume = opcode_consume_rqe (bp_opcode e), tb_remote = remote\<rparr>))) } })"

text \<open>When the list is handed to the device, the pointers to the shared variables are followed.\<close>

definition resolve_remote :: "urma_sge option \<times> urma_sge option \<Rightarrow> urma_jfs_wr \<Rightarrow> urma_jfs_wr" where
  "resolve_remote sd wr = wr\<lparr>wr_remote := (case wr_opcode wr of
     URMA_OPC_READ \<Rightarrow> fst sd | URMA_OPC_WRITE \<Rightarrow> snd sd | URMA_OPC_WRITE_IMM \<Rightarrow> snd sd | _ \<Rightarrow> None)\<rparr>"

text \<open>The part of \<open>umq_ub_post_tx\<close> after the requests have been built.\<close>

definition post_tx_send :: "u64 \<Rightarrow> tx_build \<Rightarrow> ub_queue \<times> u64 \<times> int" where
  "post_tx_send qbuf t =
    (let wrs = tb_wrs t;
         (q1, max_tx) = (if tb_consume t then umq_ub_window_dec (of_nat (length wrs)) (tb_q t)
                         else (tb_q t, of_nat (length wrs))) in
     if max_tx = 0 then (umq_ub_recover_tx_imm wrs qbuf q1, qbuf, - UMQ_ERR_EAGAIN)
     else let first = take (unat max_tx) wrs;
              (q2, r) = urma_post_jetty_send_wr (map (resolve_remote (tb_remote t)) first) q1 in
       case r of
         Some (status, bad) \<Rightarrow>
           (let bad_qbuf = (case bad of Some i \<Rightarrow> wr_user_ctx (wrs ! i) | None \<Rightarrow> qbuf);
                q3 = (if tb_consume t then umq_ub_window_inc (umq_ub_tx_failed_num first bad_qbuf) q2 else q2)
            in (umq_ub_recover_tx_imm wrs bad_qbuf q3, bad_qbuf, - status))
       | None \<Rightarrow>
           if unat max_tx < length wrs then
             (let bad_qbuf = wr_user_ctx (wrs ! unat max_tx) in
              (umq_ub_recover_tx_imm wrs bad_qbuf q2, bad_qbuf, - UMQ_ERR_EAGAIN))
           else (q2, 0, 0))"

text \<open>The result: the queue, \<open>*bad_qbuf\<close> and the return value.  A null \<open>qbuf\<close> makes the code write before its array.\<close>

definition umq_ub_post_tx :: "u64 \<Rightarrow> ub_queue \<Rightarrow> (ub_queue \<times> u64 \<times> int) option" where
  "umq_ub_post_tx qbuf q =
    (if \<not> q_bound q then Some (q, qbuf, - UMQ_ERR_ENODEV)
     else if qbuf = 0 then None
     else do {
       r \<leftarrow> build_tx UMQ_BATCH_SIZE
              (if q_remote_rx_buf_size q > q_tx_buf_size q then q_tx_buf_size q else q_remote_rx_buf_size q)
              qbuf \<lparr>tb_q = inc_ref q, tb_wrs = [], tb_consume = False, tb_remote = (None, None)\<rparr>;
       (let (q1, bad, ret) = (case r of
              Inl (err, t) \<Rightarrow> (umq_ub_recover_tx_imm (tb_wrs t) qbuf (tb_q t), qbuf, err)
            | Inr t \<Rightarrow> post_tx_send qbuf t)
        in Some (dec_ref q1, bad, ret)) })"

subsection \<open>Posting receive buffers\<close>

record rx_build =
  rb_q :: ub_queue
  rb_wrs :: "urma_jfr_wr list"
  rb_last :: u64

text \<open>
  One request per message again.  \<open>Inl\<close>: the loop was left at the given buffer.  The chain is cut after the last
  buffer of a message; a message of size 0 has none, and the code follows a null pointer if it is the first.
\<close>

fun build_rx :: "nat \<Rightarrow> u64 \<Rightarrow> rx_build \<Rightarrow> (u64 \<times> rx_build + rx_build) option" where
  "build_rx 0 b t = (if b = 0 then Some (Inr t) else Some (Inl (b, t)))"
| "build_rx (Suc n) b t =
    (if b = 0 then Some (Inr t)
     else do {
       e \<leftarrow> q_bufs (rb_q t) b;
       (case queue_rx_buf_ctx_get (rb_q t) of
          (_, None) \<Rightarrow> Some (Inl (b, t))
        | (q1, Some c) \<Rightarrow>
            (let q2 = q1\<lparr>q_ctx_buffer := (q_ctx_buffer q1)(c := b)\<rparr>;
                 put = Inl (b, t\<lparr>rb_q := queue_rx_buf_ctx_put c q2\<rparr>) in
             do { r \<leftarrow> collect_sges (unat (q_max_rx_sge q2)) q2 b (total_data_size e) (rb_last t) [];
                  (case r of
                     Inl _ \<Rightarrow> Some put
                   | Inr (sges, b', rest, last_buf) \<Rightarrow>
                       if rest \<noteq> 0 then Some put
                       else if last_buf = 0 then None
                       else build_rx n b' \<lparr>rb_q = upd_buf last_buf (\<lambda>e. e\<lparr>qbuf_next := 0\<rparr>) q2,
                              rb_wrs = rb_wrs t @ [\<lparr>rwr_user_ctx = c, rwr_sges = sges\<rparr>], rb_last = last_buf\<rparr>) })) })"

text \<open>The end of a buffer chain; no result for a cyclic one.\<close>

partial_function (option) chain_last :: "ub_queue \<Rightarrow> u64 \<Rightarrow> u64 option" where
  "chain_last q b = do { e \<leftarrow> q_bufs q b; if qbuf_next e = 0 then Some b else chain_last q (qbuf_next e) }"

text \<open>The chains of the requests that were not posted are linked again, and their contexts freed.\<close>

fun process_bad_wr_loop :: "u64 \<Rightarrow> urma_jfr_wr list \<Rightarrow> ub_queue \<Rightarrow> (ub_queue \<times> u64) option" where
  "process_bad_wr_loop last_fail_end [] q = Some (q, last_fail_end)"
| "process_bad_wr_loop last_fail_end (wr # wrs) q =
    (let fail = q_ctx_buffer q (rwr_user_ctx wr);
         q1 = (if last_fail_end \<noteq> 0 then upd_buf last_fail_end (\<lambda>e. e\<lparr>qbuf_next := fail\<rparr>) q else q)
     in do { e \<leftarrow> chain_last q1 fail;
             process_bad_wr_loop e wrs (queue_rx_buf_ctx_put (rwr_user_ctx wr) q1) })"

definition process_bad_wr :: "urma_jfr_wr list \<Rightarrow> u64 \<Rightarrow> ub_queue \<Rightarrow> ub_queue option" where
  "process_bad_wr wrs end_buf q =
    do { (q1, e) \<leftarrow> process_bad_wr_loop 0 wrs q;
         Some (if e \<noteq> 0 then upd_buf e (\<lambda>b. b\<lparr>qbuf_next := end_buf\<rparr>) q1 else q1) }"

definition umq_ub_post_rx_inner_impl :: "u64 \<Rightarrow> ub_queue \<Rightarrow> (ub_queue \<times> u64 \<times> int) option" where
  "umq_ub_post_rx_inner_impl qbuf q =
    (if qbuf = 0 then None
     else do {
       r \<leftarrow> build_rx UMQ_BATCH_SIZE qbuf \<lparr>rb_q = q, rb_wrs = [], rb_last = 0\<rparr>;
       (case r of
          Inl (b, t) \<Rightarrow>
            (case rb_wrs t of
               [] \<Rightarrow> Some (rb_q t, qbuf, - 1)
             | wr # _ \<Rightarrow> do { q1 \<leftarrow> process_bad_wr (rb_wrs t) b (rb_q t);
                              Some (q1, q_ctx_buffer (rb_q t) (rwr_user_ctx wr), - 1) })
        | Inr t \<Rightarrow>
            (case urma_post_jetty_recv_wr (rb_wrs t) (rb_q t) of
               (q1, None) \<Rightarrow> Some (umq_ub_rq_posted_notifier_update (of_nat (length (rb_wrs t))) q1, 0, 0)
             | (q1, Some bad) \<Rightarrow>
                 (let bad_qbuf = (case bad of Some i \<Rightarrow> rwr_user_ctx (rb_wrs t ! i) | None \<Rightarrow> qbuf);
                      q2 = umq_ub_rq_posted_notifier_update (umq_ub_post_rx_failed_num (rb_wrs t) bad_qbuf) q1
                  in do { q3 \<leftarrow> process_bad_wr (case bad of Some i \<Rightarrow> drop i (rb_wrs t) | None \<Rightarrow> []) 0 q2;
                          Some (q3, bad_qbuf, - UMQ_ERR_EAGAIN) }))) })"

definition umq_ub_post_rx :: "u64 \<Rightarrow> ub_queue \<Rightarrow> (ub_queue \<times> u64 \<times> int) option" where
  "umq_ub_post_rx qbuf q =
    do { (q1, bad, ret) \<leftarrow> umq_ub_post_rx_inner_impl qbuf (inc_ref q); Some (dec_ref q1, bad, ret) }"

subsection \<open>Memory import\<close>

definition umq_ub_write_imm :: "u64 \<Rightarrow> u32 \<Rightarrow> u64 \<Rightarrow> ub_queue \<Rightarrow> ub_queue \<times> int" where
  "umq_ub_write_imm target_addr len imm_value q =
    (if \<not> q_bound q then (q, - UMQ_ERR_ENODEV)
     else let (q1, r) = urma_post_jetty_send_wr [\<lparr>wr_user_ctx = 0xFFFF, wr_opcode = URMA_OPC_WRITE_IMM,
                wr_imm = imm_value, wr_flag = 0x50, wr_sges = [], wr_remote = Some (target_addr, len, 0)\<rparr>] q
       in (q1, case r of None \<Rightarrow> 0 | Some (status, _) \<Rightarrow> - status))"

definition umq_ub_import_mem_done :: "u8 \<Rightarrow> ub_queue \<Rightarrow> ub_queue \<times> int" where
  "umq_ub_import_mem_done mempool q =
    (let (q1, max_tx) = umq_ub_window_dec 1 q in
     if max_tx = 0 then (q1, - UMQ_ERR_EAGAIN)
     else let (q2, ret) = umq_ub_write_imm (q_remote_notify_addr q1) 1 (mk_mem_imm IMM_TYPE_MEM_IMPORT_DONE (ucast mempool)) q1
       in (if ret \<noteq> 0 then umq_ub_window_inc max_tx q2 else q2, ret))"

fun import_mem_loop :: "nat \<Rightarrow> nat \<Rightarrow> (nat \<Rightarrow> u8) \<Rightarrow> ub_queue \<Rightarrow> ub_queue \<times> int" where
  "import_mem_loop 0 i ids q = (q, 0)"
| "import_mem_loop (Suc n) i ids q =
    (let m = ids i in
     if unat m \<ge> UMQ_MAX_TSEG_NUM then (q, - UMQ_ERR_EINVAL)
     else if q_imported q m then import_mem_loop n (Suc i) ids (fst (umq_ub_import_mem_done m q))
     else if \<not> q_import_ok q m then (q, - 1)
     else let q1 = fst (umq_ub_import_mem_done m q)
       in import_mem_loop n (Suc i) ids (q1\<lparr>q_imported := (q_imported q1)(m := True)\<rparr>))"

definition umq_ub_data_plan_import_mem :: "umq_imm_head \<Rightarrow> ub_queue \<Rightarrow> ub_queue \<times> int" where
  "umq_ub_data_plan_import_mem h q =
    (if ih_none h then (q, 0)
     else if unat (ih_mempool_num h) \<ge> UMQ_MAX_TSEG_NUM then (q, - UMQ_ERR_EINVAL)
     else if \<not> q_bound q then (q, - UMQ_ERR_EINVAL)
     else import_mem_loop (unat (ih_mempool_num h)) 0 (ih_mempool_ids h) q)"

subsection \<open>Polling receive completions\<close>

datatype urma_cr_opcode = URMA_CR_OPC_SEND | URMA_CR_OPC_SEND_WITH_IMM | URMA_CR_OPC_SEND_WITH_INV | URMA_CR_OPC_WRITE_WITH_IMM

record urma_cr =
  cr_status :: nat
  cr_user_ctx :: u64
  cr_opcode :: urma_cr_opcode
  cr_completion_len :: u32
  cr_local_id :: u32
  cr_imm_data :: u64

definition URMA_CR_SUCCESS :: nat where "URMA_CR_SUCCESS = 0"
definition URMA_CR_WR_SUSPEND_DONE :: nat where "URMA_CR_WR_SUSPEND_DONE = 12"
definition URMA_CR_WR_FLUSH_ERR_DONE :: nat where "URMA_CR_WR_FLUSH_ERR_DONE = 13"
definition UMQ_BUF_WR_FLUSH_ERR :: nat where "UMQ_BUF_WR_FLUSH_ERR = 11"
definition UMQ_BUF_FLOW_CONTROL_UPDATE :: nat where "UMQ_BUF_FLOW_CONTROL_UPDATE = 128"
definition UMQ_MEMPOOL_UPDATE_SUCCESS :: nat where "UMQ_MEMPOOL_UPDATE_SUCCESS = 129"
definition UMQ_MEMPOOL_UPDATE_FAILED :: nat where "UMQ_MEMPOOL_UPDATE_FAILED = 130"
definition UMQ_IO_TX :: nat where "UMQ_IO_TX = 1"
definition UMQ_IO_RX :: nat where "UMQ_IO_RX = 2"

definition umq_buf_free :: "u64 \<Rightarrow> ub_queue \<Rightarrow> ub_queue" where
  "umq_buf_free b q = q\<lparr>q_freed := b # q_freed q\<rparr>"

text \<open>A completion with immediate data; the second component is the status reported for the buffer.\<close>

definition umq_ub_on_rx_done :: "urma_cr \<Rightarrow> u64 \<Rightarrow> nat \<Rightarrow> ub_queue \<Rightarrow> (ub_queue \<times> nat) option" where
  "umq_ub_on_rx_done cr b st q =
    (if cr_opcode cr \<noteq> URMA_CR_OPC_SEND_WITH_IMM then Some (q, st)
     else do {
       e \<leftarrow> q_bufs q b;
       (let imm = cr_imm_data cr;
            q1 = upd_buf b (\<lambda>e. e\<lparr>bp_umq_ctx := q_umq_ctx_table q (cr_local_id cr)\<rparr>) q in
        Some (if \<not> imm_private imm then (upd_buf b (\<lambda>e. e\<lparr>bp_imm_data := imm\<rparr>) q1, st)
          else if imm_type imm = IMM_TYPE_FLOW_CONTROL then
            (let q2 = umq_ub_window_inc (imm_window imm) q1 in
             (if imm_in_user_buf imm then upd_buf b (\<lambda>e. e\<lparr>bp_opcode := UMQ_OPC_SEND, bp_imm_data := 0\<rparr>) q2 else q2,
              UMQ_BUF_FLOW_CONTROL_UPDATE))
          else if imm_type imm = IMM_TYPE_MEM \<and> imm_sub_type imm = IMM_TYPE_MEM_IMPORT then
            (let (q2, ret) = umq_ub_data_plan_import_mem (buf_head e) q1 in
             (q2, if ret \<noteq> 0 then UMQ_MEMPOOL_UPDATE_FAILED else UMQ_MEMPOOL_UPDATE_SUCCESS))
          else (q1, st))) })"

text \<open>\<open>True\<close>: the completion is not reported (\<open>UMQ_CONTINUE_FLAG\<close>).\<close>

definition process_rx_msg :: "urma_cr \<Rightarrow> u64 \<Rightarrow> ub_queue \<Rightarrow> (ub_queue \<times> bool \<times> nat) option" where
  "process_rx_msg cr b q =
    (let st = cr_status cr; imm = cr_imm_data cr in
     case cr_opcode cr of
       URMA_CR_OPC_WRITE_WITH_IMM \<Rightarrow>
         if q_feature q AND UMQ_FEATURE_API_PRO = 0 then
           (let (q1, wb) = umq_get_buf_by_user_ctx (cr_user_ctx cr) q in
            do { (q2, bad, ret) \<leftarrow> umq_ub_post_rx_inner_impl wb q1;
                 Some (if ret \<noteq> 0 then umq_buf_free wb q2 else q2, True, st) })
         else if \<not> imm_private imm then Some (upd_buf b (\<lambda>e. e\<lparr>bp_imm_data := imm\<rparr>) q, False, st)
         else if imm_type imm = IMM_TYPE_MEM \<and> imm_sub_type imm = IMM_TYPE_MEM_IMPORT_DONE then
           (if unat (imm_mempool_id imm) \<ge> UMQ_MAX_TSEG_NUM \<or> \<not> q_bound q
            then Some (q, False, UMQ_MEMPOOL_UPDATE_FAILED)
            else Some (q\<lparr>q_remote_imported := (q_remote_imported q)(unat (imm_mempool_id imm) := True)\<rparr>, False,
                       UMQ_MEMPOOL_UPDATE_SUCCESS))
         else Some (q, False, st)
     | URMA_CR_OPC_SEND_WITH_IMM \<Rightarrow> do { (q1, st1) \<leftarrow> umq_ub_on_rx_done cr b st q; Some (q1, False, st1) }
     | URMA_CR_OPC_SEND \<Rightarrow>
         Some (upd_buf b (\<lambda>e. e\<lparr>bp_umq_ctx := q_umq_ctx_table q (cr_local_id cr)\<rparr>) q, False, st)
     | URMA_CR_OPC_SEND_WITH_INV \<Rightarrow> Some (q, False, st))"

text \<open>The received bytes are spread over the chain.\<close>

partial_function (option) set_data_sizes :: "u64 \<Rightarrow> u32 \<Rightarrow> ub_queue \<Rightarrow> ub_queue option" where
  "set_data_sizes b rest q =
    (if b = 0 \<or> rest = 0 then Some q
     else do { e \<leftarrow> q_bufs q b;
               set_data_sizes (qbuf_next e) (rest - min rest (data_size e))
                 (upd_buf b (\<lambda>e. e\<lparr>data_size := min rest (data_size e)\<rparr>) q) })"

definition poll_rx_cr :: "urma_cr \<Rightarrow> ub_queue \<Rightarrow> (ub_queue \<times> u64 list) option" where
  "poll_rx_cr cr q =
    (let (q1, b) = umq_get_buf_by_user_ctx (cr_user_ctx cr) q in
     do { e \<leftarrow> q_bufs q1 b;
          (q2, continue, st) \<leftarrow> process_rx_msg cr b q1;
          if continue then Some (q2, [])
          else let q3 = upd_buf b (\<lambda>e. e\<lparr>io_direction := UMQ_IO_RX, buf_status := st\<rparr>) q2 in
            if cr_status cr \<noteq> URMA_CR_SUCCESS then Some (q3, [b])
            else do { q4 \<leftarrow> set_data_sizes b (cr_completion_len cr)
                        (upd_buf b (\<lambda>e. e\<lparr>total_data_size := cr_completion_len cr\<rparr>) q3);
                      Some (q4, [b]) } })"

fun poll_loop :: "(urma_cr \<Rightarrow> ub_queue \<Rightarrow> (ub_queue \<times> u64 list) option) \<Rightarrow> urma_cr list \<Rightarrow> ub_queue
    \<Rightarrow> (ub_queue \<times> u64 list) option" where
  "poll_loop f [] q = Some (q, [])"
| "poll_loop f (cr # crs) q =
    do { (q1, bs) \<leftarrow> f cr q; (q2, bs') \<leftarrow> poll_loop f crs q1; Some (q2, bs @ bs') }"

fun report_incomplete_rx_loop :: "nat \<Rightarrow> ub_queue \<Rightarrow> ub_queue \<times> u64 list" where
  "report_incomplete_rx_loop 0 q = (q, [])"
| "report_incomplete_rx_loop (Suc n) q =
    (let (q1, c) = queue_rx_buf_ctx_flush q in
     if c = 0 then (q1, [])
     else let b = q_ctx_buffer q1 c;
              (q2, bs) = report_incomplete_rx_loop n
                (upd_buf b (\<lambda>e. e\<lparr>io_direction := UMQ_IO_RX, buf_status := UMQ_BUF_WR_FLUSH_ERR\<rparr>) q1)
       in (q2, b # bs))"

definition umq_report_incomplete_rx :: "nat \<Rightarrow> ub_queue \<Rightarrow> ub_queue \<times> u64 list" where
  "umq_report_incomplete_rx max_rx_ctx q =
    (if \<not> q_tx_flush_done q \<or> q_rx_flush_done q \<or> q_state q \<noteq> QUEUE_STATE_ERR \<or> \<not> q_trans_rc q then (q, [])
     else let (q1, bs) = report_incomplete_rx_loop max_rx_ctx q in
       (if bs = [] then q1\<lparr>q_rx_flush_done := True\<rparr> else q1, bs))"

text \<open>\<open>crs\<close>: the answer of \<open>urma_poll_jfc\<close>, \<open>Inl\<close> a negative count.\<close>

definition umq_ub_poll_rx :: "int + urma_cr list \<Rightarrow> nat \<Rightarrow> ub_queue \<Rightarrow> (ub_queue \<times> (int + u64 list)) option" where
  "umq_ub_poll_rx crs buf_count q =
    (if buf_count = 0 then Some (q, Inr [])
     else let max_batch = min buf_count UMQ_POST_POLL_BATCH; q0 = inc_ref q in
       if q_state q0 = QUEUE_STATE_ERR then
         (let (q1, bs) = umq_report_incomplete_rx max_batch q0 in Some (dec_ref q1, Inr bs))
       else case crs of
         Inl n \<Rightarrow> Some (dec_ref q0, Inl n)
       | Inr cs \<Rightarrow> do { (q1, bs) \<leftarrow> poll_loop poll_rx_cr (take max_batch cs) q0; Some (dec_ref q1, Inr bs) })"

subsection \<open>Polling send completions\<close>

definition umq_ub_on_tx_done :: "u64 \<Rightarrow> umq_buf \<Rightarrow> bool \<Rightarrow> ub_queue \<Rightarrow> ub_queue" where
  "umq_ub_on_tx_done b e failed q =
    (let q1 = (if failed \<and> opcode_consume_rqe (bp_opcode e) then umq_ub_window_inc 1 q else q) in
     if bp_opcode e \<noteq> UMQ_OPC_SEND_IMM \<or> \<not> fc_imm (bp_imm_data e) then q1
     else upd_buf b (\<lambda>e. e\<lparr>bp_opcode := UMQ_OPC_SEND, bp_imm_data := 0\<rparr>)
       (if failed then umq_ub_rq_posted_notifier_inc (imm_window (bp_imm_data e)) q1 else q1))"

text \<open>\<open>True\<close>: the buffer is not reported.\<close>

definition process_tx_msg :: "u64 \<Rightarrow> umq_buf \<Rightarrow> ub_queue \<Rightarrow> ub_queue \<times> bool" where
  "process_tx_msg b e q =
    (let imm = bp_imm_data e in
     if \<not> imm_private imm then (q, False)
     else if bp_opcode e = UMQ_OPC_WRITE_IMM then
       (q, imm_type imm = IMM_TYPE_MEM \<and> imm_sub_type imm = IMM_TYPE_MEM_IMPORT_DONE)
     else if bp_opcode e = UMQ_OPC_SEND_IMM \<and> imm_type imm = IMM_TYPE_MEM \<and> imm_sub_type imm = IMM_TYPE_MEM_IMPORT
     then (umq_buf_free b q, True)
     else (q, False))"

definition poll_tx_buf :: "urma_cr \<Rightarrow> ub_queue \<Rightarrow> (ub_queue \<times> u64 list) option" where
  "poll_tx_buf cr q =
    (let b = cr_user_ctx cr in
     do { e \<leftarrow> q_bufs q b;
          (let q1 = umq_ub_on_tx_done b e (cr_status cr \<noteq> URMA_CR_SUCCESS)
                 (upd_buf b (\<lambda>e. e\<lparr>io_direction := UMQ_IO_TX, buf_status := cr_status cr\<rparr>) q)
           in do { e1 \<leftarrow> q_bufs q1 b;
                   (let (q2, continue) = process_tx_msg b e1 q1 in Some (q2, if continue then [] else [b])) }) })"

text \<open>Small values of \<open>user_ctx\<close> are requests of the flow control itself: 0 the read of the initial window.\<close>

definition poll_tx_cr :: "urma_cr \<Rightarrow> ub_queue \<Rightarrow> (ub_queue \<times> u64 list) option" where
  "poll_tx_cr cr q =
    (let c = cr_user_ctx cr; st = cr_status cr in
     if st = URMA_CR_WR_FLUSH_ERR_DONE then
       Some (if q_state q = QUEUE_STATE_ERR then q\<lparr>q_tx_flush_done := True\<rparr> else q, [])
     else if st = URMA_CR_WR_SUSPEND_DONE then Some (q, [])
     else if st \<noteq> URMA_CR_SUCCESS \<and> c = 0 then Some (q\<lparr>q_fc := (q_fc q)\<lparr>fc_remote_get := False\<rparr>\<rparr>, [])
     else if st \<noteq> URMA_CR_SUCCESS \<and> c \<le> 0xFFFF then
       Some (umq_ub_rq_posted_notifier_inc (ucast c) (umq_ub_window_inc 1 q), [])
     else if c = 0 then
       (if q_win_remote q = 0
        then Some (umq_ub_window_read (q\<lparr>q_fc := (q_fc q)\<lparr>fc_remote_get := False\<rparr>\<rparr>), [])
        else Some ((umq_ub_window_inc (q_win_remote q) q)\<lparr>q_state := QUEUE_STATE_READY\<rparr>, []))
     else if c \<le> 0xFFFF then Some (q, [])
     else poll_tx_buf cr q)"

text \<open>\<open>fcs\<close>: the answer of \<open>urma_flush_jetty\<close>.\<close>

fun umq_ub_flush_sqe :: "urma_cr list \<Rightarrow> ub_queue \<Rightarrow> (ub_queue \<times> u64 list) option" where
  "umq_ub_flush_sqe [] q = Some (q, [])"
| "umq_ub_flush_sqe (cr # crs) q =
    (if cr_status cr = URMA_CR_WR_SUSPEND_DONE \<or> cr_status cr = URMA_CR_WR_FLUSH_ERR_DONE \<or> cr_user_ctx cr \<le> 0xFFFF
     then umq_ub_flush_sqe crs q
     else do { e \<leftarrow> q_bufs q (cr_user_ctx cr);
               (q1, bs) \<leftarrow> umq_ub_flush_sqe crs
                 (upd_buf (cr_user_ctx cr) (\<lambda>e. e\<lparr>io_direction := UMQ_IO_TX, buf_status := cr_status cr\<rparr>) q);
               Some (q1, cr_user_ctx cr # bs) })"

definition umq_ub_poll_tx ::
  "int + urma_cr list \<Rightarrow> urma_cr list \<Rightarrow> nat \<Rightarrow> ub_queue \<Rightarrow> (ub_queue \<times> (int + u64 list)) option" where
  "umq_ub_poll_tx crs fcs buf_count q =
    (if buf_count = 0 then Some (q, Inr [])
     else case crs of
       Inl n \<Rightarrow> Some (dec_ref (inc_ref q), Inl n)
     | Inr cs \<Rightarrow>
         do { (q1, bs) \<leftarrow> poll_loop poll_tx_cr (take (min buf_count UMQ_POST_POLL_BATCH) cs) (inc_ref q);
              (q2, bs') \<leftarrow> (if q_state q1 = QUEUE_STATE_ERR \<and> q_tx_flush_done q1 \<and> buf_count > length bs
                          then umq_ub_flush_sqe (take (buf_count - length bs) fcs) q1 else Some (q1, []));
              Some (dec_ref q2, Inr (bs @ bs')) })"

text \<open>\<open>umq_ub_post_impl\<close> and \<open>umq_ub_poll_impl\<close>: the two directions behind one call.\<close>

definition umq_ub_post_impl :: "nat \<Rightarrow> u64 \<Rightarrow> ub_queue \<Rightarrow> (ub_queue \<times> u64 \<times> int) option" where
  "umq_ub_post_impl dir qbuf q =
    (if dir = UMQ_IO_TX then umq_ub_post_tx qbuf q
     else if dir = UMQ_IO_RX then umq_ub_post_rx qbuf q else Some (q, 0, - UMQ_ERR_EINVAL))"

definition umq_ub_poll_impl ::
  "nat \<Rightarrow> int + urma_cr list \<Rightarrow> int + urma_cr list \<Rightarrow> urma_cr list \<Rightarrow> nat \<Rightarrow> ub_queue \<Rightarrow> (ub_queue \<times> (int + u64 list)) option" where
  "umq_ub_poll_impl dir tx_crs rx_crs fcs n q =
    (if dir = UMQ_IO_RX then umq_ub_poll_rx rx_crs n q
     else if dir = UMQ_IO_TX then umq_ub_poll_tx tx_crs fcs n q
     else if dir = 0 then
       do { (q1, r) \<leftarrow> umq_ub_poll_tx tx_crs fcs (if n > 1 then n div 2 else 1) q;
            (case r of
               Inl _ \<Rightarrow> Some (q1, Inl (- UMQ_ERR_EAGAIN))
             | Inr bs \<Rightarrow>
                 do { (q2, r2) \<leftarrow> umq_ub_poll_rx rx_crs
                        (if length bs \<le> n then n - length bs else n + 2 ^ 32 - length bs) q1;
                      Some (q2, case r2 of Inl _ \<Rightarrow> Inr bs | Inr bs' \<Rightarrow> Inr (bs @ bs')) }) }
     else Some (q, Inl (- UMQ_ERR_EINVAL)))"

end
