(* ===== verification/UMQ_FlowLaws.thy ===== *)
theory UMQ_FlowLaws
  imports UMQ_UbPro
begin

section \<open>Credit accounts of a queue\<close>

text \<open>
  Two accounts follow the credits of one queue.  \<open>out\<close> is what the queue may still send plus what it has handed to the
  device; \<open>due\<close> is what it owes its peer: receive buffers not announced yet and announcements that are on their way.
  The lemmas say what each function of the flow control does to the accounts, and that it
  only adds requests of its own kinds to the send queue (\<open>own_wr\<close>).
\<close>

subsection \<open>Atomic and plain counters\<close>

lemma of_nat_unat_add: "of_nat (unat a + unat b) = (a + b :: u16)"
  by simp

lemma inc_cas_spec:
  "\<exists>v \<in> set (before # vs). remote_rx_window_inc_cas vs before (fc\<lparr>remote_rx_window := before\<rparr>) w =
     (if unat v + unat w > UINT16_MAX then (fc\<lparr>remote_rx_window := v\<rparr>, v, v) else (fc\<lparr>remote_rx_window := v + w\<rparr>, v + w, v))"
proof (induction vs arbitrary: before fc)
  case Nil
  show ?case by (simp add: remote_rx_window_inc_cas.simps[of "[]"] Let_def)
next
  case (Cons x vs)
  show ?case
  proof (cases "unat before + unat w > UINT16_MAX")
    case True
    then show ?thesis by (auto simp: remote_rx_window_inc_cas.simps[of "x # vs"] Let_def)
  next
    case False
    then show ?thesis using Cons.IH[of x fc] by (simp add: remote_rx_window_inc_cas.simps[of "x # vs"] Let_def)
  qed
qed

lemma posted_cas_spec:
  "\<exists>v \<in> set (before # vs). local_rx_posted_inc_cas vs before (fc\<lparr>local_rx_posted := before\<rparr>) w =
     (if unat v + unat w > UINT16_MAX then (fc\<lparr>local_rx_posted := v\<rparr>, v, v) else (fc\<lparr>local_rx_posted := v + w\<rparr>, v + w, v))"
proof (induction vs arbitrary: before fc)
  case Nil
  show ?case by (simp add: local_rx_posted_inc_cas.simps[of "[]"] Let_def)
next
  case (Cons x vs)
  show ?case
  proof (cases "unat before + unat w > UINT16_MAX")
    case True
    then show ?thesis by (auto simp: local_rx_posted_inc_cas.simps[of "x # vs"] Let_def)
  next
    case False
    then show ?thesis using Cons.IH[of x fc] by (simp add: local_rx_posted_inc_cas.simps[of "x # vs"] Let_def)
  qed
qed

lemma dec_cas_spec:
  "\<exists>v \<in> set (before # vs). remote_rx_window_dec_cas vs before (fc\<lparr>remote_rx_window := before\<rparr>) w =
     (fc\<lparr>remote_rx_window := (if v > w then v - w else 0)\<rparr>, if v > w then w else v)"
proof (induction vs arbitrary: before fc)
  case Nil
  show ?case by (simp add: remote_rx_window_dec_cas.simps[of "[]"] Let_def)
next
  case (Cons x vs)
  show ?case
  proof (cases "before = 0")
    case True
    then show ?thesis by (auto simp: remote_rx_window_dec_cas.simps[of "x # vs"])
  next
    case False
    then show ?thesis using Cons.IH[of x fc] by (simp add: remote_rx_window_dec_cas.simps[of "x # vs"] Let_def)
  qed
qed

lemma inc_atomic_linear:
  assumes "w \<noteq> 0"
  shows "\<exists>v \<in> set (remote_rx_window fc # vs).
    remote_rx_window_inc_atomic vs fc w = remote_rx_window_inc_non_atomic (fc\<lparr>remote_rx_window := v\<rparr>) w"
proof -
  obtain v where v: "v \<in> set (remote_rx_window fc # vs)"
    and e: "remote_rx_window_inc_cas vs (remote_rx_window fc) fc w =
     (if unat v + unat w > UINT16_MAX then (fc\<lparr>remote_rx_window := v\<rparr>, v, v) else (fc\<lparr>remote_rx_window := v + w\<rparr>, v + w, v))"
    using inc_cas_spec[of "remote_rx_window fc" vs fc w] by (auto split del: if_split)
  show ?thesis
    by (rule bexI[OF _ v])
      (use assms in \<open>simp add: remote_rx_window_inc_atomic_def remote_rx_window_inc_non_atomic_def e Let_def\<close>)
qed

lemma posted_atomic_linear:
  assumes "w \<noteq> 0"
  shows "\<exists>v \<in> set (local_rx_posted fc # vs).
    local_rx_posted_inc_atomic vs fc w = local_rx_posted_inc_non_atomic (fc\<lparr>local_rx_posted := v\<rparr>) w"
proof -
  obtain v where v: "v \<in> set (local_rx_posted fc # vs)"
    and e: "local_rx_posted_inc_cas vs (local_rx_posted fc) fc w =
     (if unat v + unat w > UINT16_MAX then (fc\<lparr>local_rx_posted := v\<rparr>, v, v) else (fc\<lparr>local_rx_posted := v + w\<rparr>, v + w, v))"
    using posted_cas_spec[of "local_rx_posted fc" vs fc w] by (auto split del: if_split)
  show ?thesis
    by (rule bexI[OF _ v])
      (use assms in \<open>simp add: local_rx_posted_inc_atomic_def local_rx_posted_inc_non_atomic_def e Let_def\<close>)
qed

lemma dec_atomic_linear:
  assumes "w \<noteq> 0"
  shows "\<exists>v \<in> set (remote_rx_window fc # vs).
    remote_rx_window_dec_atomic vs fc w = remote_rx_window_dec_non_atomic (fc\<lparr>remote_rx_window := v\<rparr>) w"
proof -
  obtain v where v: "v \<in> set (remote_rx_window fc # vs)"
    and e: "remote_rx_window_dec_cas vs (remote_rx_window fc) fc w =
      (fc\<lparr>remote_rx_window := (if v > w then v - w else 0)\<rparr>, if v > w then w else v)"
    using dec_cas_spec[of "remote_rx_window fc" vs fc w] by (auto split del: if_split)
  show ?thesis
    by (rule bexI[OF _ v])
      (use assms in \<open>auto simp: remote_rx_window_dec_atomic_def remote_rx_window_dec_non_atomic_def
        remote_rx_window_exchange_non_atomic_def e Let_def word_gt_0 not_less not_le\<close>)
qed

subsection \<open>Counters through the function table\<close>

lemma remote_rx_window_inc_eq:
  "w \<noteq> 0 \<Longrightarrow> remote_rx_window_inc fc w = remote_rx_window_inc_non_atomic fc w"
  using inc_atomic_linear[of w fc "[]"] by (simp add: remote_rx_window_inc_def)

lemma remote_rx_window_dec_eq:
  "w \<noteq> 0 \<Longrightarrow> remote_rx_window_dec fc w = remote_rx_window_dec_non_atomic fc w"
  using dec_atomic_linear[of w fc "[]"] by (simp add: remote_rx_window_dec_def)

lemma local_rx_posted_inc_eq:
  "w \<noteq> 0 \<Longrightarrow> local_rx_posted_inc fc w = local_rx_posted_inc_non_atomic fc w"
  using posted_atomic_linear[of w fc "[]"] by (simp add: local_rx_posted_inc_def)

lemma local_rx_posted_exchange_eq:
  "local_rx_posted_exchange fc = local_rx_posted_exchange_non_atomic fc"
  by (simp add: local_rx_posted_exchange_def local_rx_posted_exchange_atomic_def local_rx_posted_exchange_non_atomic_def
      Let_def word_gt_0)

lemmas counter_eqs = remote_rx_window_inc_eq remote_rx_window_dec_eq local_rx_posted_inc_eq local_rx_posted_exchange_eq

lemmas counter_defs = remote_rx_window_inc_non_atomic_def remote_rx_window_dec_non_atomic_def
  remote_rx_window_exchange_non_atomic_def local_rx_posted_inc_non_atomic_def local_rx_posted_exchange_non_atomic_def

subsection \<open>Requests and accounts\<close>

definition consuming :: "urma_jfs_wr \<Rightarrow> bool" where
  "consuming wr = (wr_opcode wr \<in> {URMA_OPC_SEND, URMA_OPC_SEND_IMM, URMA_OPC_WRITE_IMM})"

definition grant :: "urma_jfs_wr \<Rightarrow> nat" where
  "grant wr = (if wr_opcode wr = URMA_OPC_SEND_IMM \<and> fc_imm (wr_imm wr) then unat (imm_window (wr_imm wr)) else 0)"

definition win_read :: "urma_jfs_wr \<Rightarrow> bool" where
  "win_read wr = (wr_opcode wr = URMA_OPC_READ \<and> wr_user_ctx wr = 0)"

definition sends :: "urma_jfs_wr list \<Rightarrow> nat" where "sends wrs = length (filter consuming wrs)"
definition grants :: "urma_jfs_wr list \<Rightarrow> nat" where "grants wrs = sum_list (map grant wrs)"
definition win_reads :: "urma_jfs_wr list \<Rightarrow> nat" where "win_reads wrs = length (filter win_read wrs)"

lemma sends_simps [simp]: "sends [] = 0" "sends (wr # wrs) = (if consuming wr then 1 else 0) + sends wrs" "sends (as @ bs) = sends as + sends bs"
  by (simp_all add: sends_def)

lemma grants_simps [simp]: "grants [] = 0" "grants (wr # wrs) = grant wr + grants wrs" "grants (as @ bs) = grants as + grants bs"
  by (simp_all add: grants_def)

lemma win_reads_simps [simp]: "win_reads [] = 0" "win_reads (wr # wrs) = (if win_read wr then 1 else 0) + win_reads wrs"
    "win_reads (as @ bs) = win_reads as + win_reads bs"
  by (simp_all add: win_reads_def)

lemma fc_message_wr_simps [simp]:
  "consuming (fc_message_wr n)" "grant (fc_message_wr n) = unat n" "\<not> win_read (fc_message_wr n)"
  "wr_user_ctx (fc_message_wr n) = ucast n"
  by (simp_all add: fc_message_wr_def consuming_def grant_def win_read_def)

lemma window_read_wr_simps [simp]:
  "\<not> consuming (window_read_wr q)" "grant (window_read_wr q) = 0" "win_read (window_read_wr q)"
  "wr_user_ctx (window_read_wr q) = 0"
  by (simp_all add: window_read_wr_def consuming_def grant_def win_read_def)

abbreviation window :: "ub_queue \<Rightarrow> nat" where "window q \<equiv> unat (remote_rx_window (q_fc q))"
abbreviation posted :: "ub_queue \<Rightarrow> nat" where "posted q \<equiv> unat (local_rx_posted (q_fc q))"

definition out :: "ub_queue \<Rightarrow> nat" where "out q = window q + sends (q_sq q)"
definition due :: "ub_queue \<Rightarrow> nat" where "due q = posted q + grants (q_sq q) + unat (q_win_local q)"

text \<open>The requests the flow control and the memory import make themselves.\<close>

definition import_done_wr :: "urma_jfs_wr \<Rightarrow> bool" where
  "import_done_wr wr = (wr_user_ctx wr = 0xFFFF \<and> wr_opcode wr = URMA_OPC_WRITE_IMM)"

definition own_wr :: "urma_jfs_wr \<Rightarrow> bool" where
  "own_wr wr = (win_read wr \<or> (\<exists>n. n \<noteq> 0 \<and> wr = fc_message_wr n) \<or> import_done_wr wr)"

text \<open>
  What every function of the data path leaves alone, and what it may do to the send queue, to the cell
  of the initial window and to the state of its read.
\<close>

definition keeps :: "ub_queue \<Rightarrow> ub_queue \<Rightarrow> bool" where
  "keeps q t = (q_bound t = q_bound q \<and> fc_enabled (q_fc t) = fc_enabled (q_fc q) \<and> q_feature t = q_feature q
     \<and> q_win_remote t = q_win_remote q \<and> q_post_rx t = q_post_rx q \<and> q_ctx_buffer t = q_ctx_buffer q
     \<and> q_max_tx_sge t = q_max_tx_sge q \<and> q_rq t = q_rq q
     \<and> (if fc_local_set (q_fc q) then q_win_local t = q_win_local q \<and> fc_local_set (q_fc t)
        else fc_local_set (q_fc t) \<or> q_win_local t = q_win_local q))"

definition reads_ok :: "ub_queue \<Rightarrow> ub_queue \<Rightarrow> bool" where
  "reads_ok q t =
    ((fc_remote_get (q_fc t) = fc_remote_get (q_fc q) \<and> win_reads (q_sq t) = win_reads (q_sq q))
     \<or> (\<not> fc_remote_get (q_fc q) \<and> fc_remote_get (q_fc t) \<and> q_bound q \<and> win_reads (q_sq t) = Suc (win_reads (q_sq q))))"

definition grows :: "ub_queue \<Rightarrow> ub_queue \<Rightarrow> bool" where
  "grows q t = (\<exists>ws. q_sq t = q_sq q @ ws \<and> (\<forall>w \<in> set ws. own_wr w))"

definition evolves :: "ub_queue \<Rightarrow> ub_queue \<Rightarrow> bool" where
  "evolves q t = (keeps q t \<and> reads_ok q t \<and> grows q t)"

lemma keeps_trans: "keeps q t \<Longrightarrow> keeps t u \<Longrightarrow> keeps q u"
  by (auto simp: keeps_def split: if_splits)

lemma reads_ok_trans: "keeps q t \<Longrightarrow> reads_ok q t \<Longrightarrow> reads_ok t u \<Longrightarrow> reads_ok q u"
  by (auto simp: reads_ok_def keeps_def)

lemma grows_trans: "grows q t \<Longrightarrow> grows t u \<Longrightarrow> grows q u"
  by (fastforce simp: grows_def)

lemma evolves_refl [simp]: "evolves q q"
  by (auto simp: evolves_def keeps_def reads_ok_def grows_def)

lemma evolves_trans: "evolves q t \<Longrightarrow> evolves t u \<Longrightarrow> evolves q u"
  unfolding evolves_def by (meson keeps_trans reads_ok_trans grows_trans)

text \<open>A change of counters only.\<close>

lemma evolves_fc:
  assumes "fc_enabled fc = fc_enabled (q_fc q)" "fc_local_set fc = fc_local_set (q_fc q)" "fc_remote_get fc = fc_remote_get (q_fc q)"
  shows "evolves q (q\<lparr>q_fc := fc\<rparr>)"
  using assms by (auto simp: evolves_def keeps_def reads_ok_def grows_def)

subsection \<open>The functions of the flow control\<close>

text \<open>\<open>acct a b c d q t\<close>: from \<open>q\<close> to \<open>t\<close> the flow control spends \<open>a\<close> and gains \<open>b\<close> on \<open>out\<close>, and likewise on \<open>due\<close>.\<close>

definition acct :: "nat \<Rightarrow> nat \<Rightarrow> nat \<Rightarrow> nat \<Rightarrow> ub_queue \<Rightarrow> ub_queue \<Rightarrow> bool" where
  "acct a b c d q t = (evolves q t \<and> q_bufs t = q_bufs q \<and> out t + a \<le> out q + b \<and> due t + c \<le> due q + d)"

lemma acct_refl [simp]: "acct 0 0 0 0 q q"
  by (simp add: acct_def)

lemma acct_trans: "acct a b c d q t \<Longrightarrow> acct a' b' c' d' t u \<Longrightarrow> acct (a + a') (b + b') (c + c') (d + d') q u"
  by (auto simp: acct_def dest: evolves_trans)

lemma acct_mono: "acct a b c d q t \<Longrightarrow> a' + b \<le> a + b' \<Longrightarrow> c' + d \<le> c + d' \<Longrightarrow> acct a' b' c' d' q t"
  by (auto simp: acct_def)

lemma win_le: "(w :: u16) \<le> v \<Longrightarrow> unat (v - w) = unat v - unat w"
  by (rule unat_sub)

lemma u16_sum: "\<not> UINT16_MAX < unat (a :: u16) + unat b \<Longrightarrow> unat (a + b) = unat a + unat b"
  by (simp add: unat_word_ariths)

lemma acct_window_read:
  assumes "\<not> fc_remote_get (q_fc q)"
  shows "acct 0 0 0 0 q (umq_ub_window_read q)"
proof -
  have own: "own_wr (window_read_wr q)" by (simp add: own_wr_def)
  show ?thesis
    using assms own
    by (auto simp: umq_ub_window_read_def urma_post_jetty_send_wr_def acct_def evolves_def keeps_def reads_ok_def grows_def
        out_def due_def accepted_def bad_index_def Let_def split: list.splits post_outcome.splits option.splits)
qed

lemma acct_window_inc: "acct 0 (unat w) 0 0 q (umq_ub_window_inc w q)"
proof (cases "w = 0 \<or> \<not> fc_enabled (q_fc q)")
  case False
  then show ?thesis
    by (auto simp: umq_ub_window_inc_def acct_def counter_eqs counter_defs out_def due_def Let_def u16_sum intro!: evolves_fc)
qed (auto simp: umq_ub_window_inc_def acct_def)

lemma acct_notifier_inc: "acct 0 0 0 (unat w) q (umq_ub_rq_posted_notifier_inc w q)"
proof (cases "w = 0 \<or> \<not> fc_enabled (q_fc q)")
  case False
  then show ?thesis
    by (auto simp: umq_ub_rq_posted_notifier_inc_def acct_def counter_eqs counter_defs out_def due_def Let_def u16_sum intro!: evolves_fc)
qed (auto simp: umq_ub_rq_posted_notifier_inc_def acct_def)

lemma acct_window_dec:
  assumes d: "umq_ub_window_dec w q = (t, n)" and en: "fc_enabled (q_fc q)"
  shows "acct (unat n) 0 0 0 q t" "n \<le> w"
proof -
  consider "w = 0" | "w \<noteq> 0" "\<not> fc_remote_get (q_fc q)" | "w \<noteq> 0" "fc_remote_get (q_fc q)" by auto
  then have "acct (unat n) 0 0 0 q t \<and> n \<le> w"
  proof cases
    case 1
    then show ?thesis using d by (auto simp: umq_ub_window_dec_def)
  next
    case 2
    then show ?thesis using d en acct_window_read[of q] by (auto simp: umq_ub_window_dec_def)
  next
    case 3
    let ?v = "remote_rx_window (q_fc q)"
    have le: "unat w \<le> unat ?v" if "w \<le> ?v" using that by (simp add: word_le_nat_alt)
    show ?thesis using d en 3 le
      by (auto simp: umq_ub_window_dec_def acct_def counter_eqs counter_defs out_def due_def Let_def win_le not_le
          intro!: evolves_fc split: if_splits)
  qed
  then show "acct (unat n) 0 0 0 q t" "n \<le> w" by auto
qed

lemma exchange_spec:
  "local_rx_posted_exchange fc = (fc\<lparr>total_local_rx_notified := total_local_rx_notified fc + ucast (local_rx_posted fc), local_rx_posted := 0\<rparr>,
     local_rx_posted fc)"
  by (simp add: counter_eqs counter_defs)

lemma acct_publish:
  assumes "\<not> fc_local_set (q_fc q)"
  shows "acct 0 0 0 0 q (publish_initial_window q)"
proof (cases "local_rx_posted (q_fc q) = 0")
  case True
  then show ?thesis
    by (auto simp: publish_initial_window_def exchange_spec acct_def out_def due_def intro!: evolves_fc)
next
  case False
  let ?fc = "fst (local_rx_posted_exchange (q_fc q))"
  let ?q = "q\<lparr>q_win_local := local_rx_posted (q_fc q), q_fc := ?fc\<lparr>fc_local_set := True\<rparr>\<rparr>"
  have a: "acct 0 0 0 0 q ?q"
    using assms by (auto simp: acct_def evolves_def keeps_def reads_ok_def grows_def out_def due_def exchange_spec)
  have "publish_initial_window q = (if fc_remote_get (q_fc ?q) then ?q else umq_ub_window_read ?q)"
    using False by (simp add: publish_initial_window_def exchange_spec Let_def)
  then show ?thesis using acct_trans[OF a acct_window_read[of ?q]] a by auto
qed

lemma post_unchanged: "q_post q = [] \<Longrightarrow> q\<lparr>q_sq := x, q_post := []\<rparr> = q\<lparr>q_sq := x\<rparr>"
  by (cases q) simp

lemma send_wr_spec:
  assumes "urma_post_jetty_send_wr ws q = (t, r)"
  shows "t = q\<lparr>q_sq := q_sq q @ (case r of None \<Rightarrow> ws | Some (st, bad) \<Rightarrow> accepted bad ws), q_post := tl (q_post q)\<rparr>"
    "r = Some (st, Some i) \<Longrightarrow> i < length ws"
  using assms
  by (auto simp: urma_post_jetty_send_wr_def accepted_def bad_index_def post_unchanged
      split: list.splits post_outcome.splits option.splits if_splits)

lemma post_one_spec:
  assumes "urma_post_jetty_send_wr [w] q = (t, r)"
  shows "t = q\<lparr>q_sq := q_sq q @ (if r = None then [w] else []), q_post := tl (q_post q)\<rparr>"
proof -
  have "accepted bad [w] = []" for bad by (auto simp: accepted_def bad_index_def split: option.splits)
  then show ?thesis using send_wr_spec(1)[OF assms] by (cases r) auto
qed

lemma acct_send_update:
  assumes en: "fc_enabled (q_fc q)"
  shows "acct 0 0 0 0 q (send_window_update q)"
proof -
  obtain q1 n where d: "umq_ub_window_dec 1 q = (q1, n)" by fastforce
  note D = acct_window_dec[OF d en]
  show ?thesis
  proof (cases "n = 1")
    case False
    then have "send_window_update q = q1" using d by (simp add: send_window_update_def)
    then show ?thesis using acct_mono[OF D(1), of 0 0 0 0] by simp
  next
    case n1: True
    let ?v = "local_rx_posted (q_fc q1)"
    let ?q2 = "q1\<lparr>q_fc := fst (local_rx_posted_exchange (q_fc q1))\<rparr>"
    have a1: "acct 1 0 0 0 q q1" using D n1 by simp
    have a2: "acct 0 0 (unat ?v) 0 q1 ?q2"
      by (auto simp: acct_def out_def due_def exchange_spec intro!: evolves_fc)
    show ?thesis
    proof (cases "?v = 0")
      case True
      have "send_window_update q = umq_ub_window_inc 1 ?q2"
        using d n1 True by (simp add: send_window_update_def exchange_spec)
      then show ?thesis
        using acct_mono[OF acct_trans[OF acct_trans[OF a1 a2] acct_window_inc[of 1 ?q2]], of 0 0 0 0] by simp
    next
      case False
      obtain q3 r where p: "urma_post_jetty_send_wr [fc_message_wr ?v] ?q2 = (q3, r)" by fastforce
      note q3 = post_one_spec[OF p]
      have own: "own_wr (fc_message_wr ?v)" using False by (auto simp: own_wr_def)
      have a3: "acct 0 (if r = None then 1 else 0) 0 (if r = None then unat ?v else 0) ?q2 q3"
        using own unfolding q3 by (auto simp: acct_def evolves_def keeps_def reads_ok_def grows_def out_def due_def)
      have e: "send_window_update q =
          (if r = None then q3 else umq_ub_rq_posted_notifier_inc ?v (umq_ub_window_inc 1 q3))"
        using d n1 False p by (simp add: send_window_update_def exchange_spec Let_def)
      have A: "acct 1 (if r = None then 1 else 0) (unat ?v) (if r = None then unat ?v else 0) q q3"
        using acct_trans[OF acct_trans[OF a1 a2] a3] by simp
      show ?thesis
      proof (cases r)
        case None
        then show ?thesis using acct_mono[OF A, of 0 0 0 0] e by simp
      next
        case (Some x)
        then show ?thesis
          using acct_mono[OF acct_trans[OF acct_trans[OF A acct_window_inc[of 1 q3]] acct_notifier_inc[of ?v]], of 0 0 0 0] e
          by simp
      qed
    qed
  qed
qed

lemma acct_notifier_update: "acct 0 0 0 (unat w) q (umq_ub_rq_posted_notifier_update w q)"
proof (cases "w = 0 \<or> \<not> fc_enabled (q_fc q)")
  case True
  then show ?thesis by (auto simp: umq_ub_rq_posted_notifier_update_def acct_def)
next
  case False
  obtain fc n where i: "local_rx_posted_inc (q_fc q) w = (fc, n)" by fastforce
  let ?q1 = "q\<lparr>q_fc := fc\<rparr>"
  have a: "acct 0 0 0 (unat w) q ?q1"
    using acct_notifier_inc[of w q] False i by (simp add: umq_ub_rq_posted_notifier_inc_def)
  have en: "fc_enabled (q_fc ?q1)" using False i by (auto simp: counter_eqs counter_defs Let_def split: if_splits)
  let ?r = "umq_ub_rq_posted_notifier_update w q"
  have e: "?r = (if \<not> q_bound q then ?q1
      else if \<not> fc_local_set fc then (if n < initial_window fc then ?q1 else publish_initial_window ?q1)
      else if n < notify_interval fc then ?q1 else send_window_update ?q1)"
    using False by (simp add: umq_ub_rq_posted_notifier_update_def i Let_def)
  have "acct 0 0 0 (unat w) q (publish_initial_window ?q1)" if "\<not> fc_local_set fc"
    using acct_trans[OF a acct_publish[of ?q1]] that by simp
  moreover have "acct 0 0 0 (unat w) q (send_window_update ?q1)"
    using acct_trans[OF a acct_send_update[OF en]] by simp
  ultimately show ?thesis unfolding e using a by simp
qed

end
