(* ===== verification/UMQ_FlowPost.thy ===== *)
theory UMQ_FlowPost
  imports UMQ_FlowLaws
begin

section \<open>Credit accounts across posting\<close>

text \<open>
  What \<open>umq_ub_post_tx\<close> does to the accounts of a queue: it never sends more messages than it
  takes credits for, and an announcement a message carries is either handed to the device or goes back to the counter.
  This holds for calls as \<open>fit_tx\<close> describes them; what happens in other calls is the subject of theorems of their own.
\<close>

definition spent :: "nat \<Rightarrow> nat \<Rightarrow> nat \<Rightarrow> nat \<Rightarrow> ub_queue \<Rightarrow> ub_queue \<Rightarrow> bool" where
  "spent a b c d q t = (evolves q t \<and> out t + a \<le> out q + b \<and> due t + c \<le> due q + d)"

lemma acct_spent: "acct a b c d q t \<Longrightarrow> spent a b c d q t"
  by (simp add: acct_def spent_def)

lemma acct_bufs: "acct a b c d q t \<Longrightarrow> q_bufs t = q_bufs q"
  by (simp add: acct_def)

lemma spent_refl [simp]: "spent 0 0 0 0 q q"
  by (simp add: spent_def)

lemma spent_trans: "spent a b c d q t \<Longrightarrow> spent a' b' c' d' t u \<Longrightarrow> spent (a + a') (b + b') (c + c') (d + d') q u"
  by (auto simp: spent_def dest: evolves_trans)

lemma spent_mono: "spent a b c d q t \<Longrightarrow> a' + b \<le> a + b' \<Longrightarrow> c' + d \<le> c + d' \<Longrightarrow> spent a' b' c' d' q t"
  by (auto simp: spent_def)

lemma upd_buf_sel [simp]:
  "q_fc (upd_buf b f q) = q_fc q" "q_sq (upd_buf b f q) = q_sq q" "q_rq (upd_buf b f q) = q_rq q" "q_bound (upd_buf b f q) = q_bound q"
  "q_win_local (upd_buf b f q) = q_win_local q" "q_win_remote (upd_buf b f q) = q_win_remote q" "q_feature (upd_buf b f q) = q_feature q"
  "q_post_rx (upd_buf b f q) = q_post_rx q" "q_ctx_buffer (upd_buf b f q) = q_ctx_buffer q" "q_max_tx_sge (upd_buf b f q) = q_max_tx_sge q"
  "q_bufs (upd_buf b f q) = (q_bufs q)(b := map_option f (q_bufs q b))" "q_state (upd_buf b f q) = q_state q"
  by (simp_all add: upd_buf_def)

lemma spent_upd_buf [simp]: "spent 0 0 0 0 q (upd_buf b f q)"
  by (simp add: spent_def evolves_def keeps_def reads_ok_def grows_def out_def due_def)

subsection \<open>Recovery of announcements\<close>

lemma recover_loop:
  "spent 0 0 0 (grants ws) q (recover_tx_imm_loop bad True ws q) \<and>
   (\<forall>b. b \<notin> wr_user_ctx ` set ws \<longrightarrow> q_bufs (recover_tx_imm_loop bad True ws q) b = q_bufs q b)"
proof (induction ws arbitrary: q)
  case (Cons w ws)
  show ?case
  proof (cases "wr_opcode w = URMA_OPC_SEND_IMM \<and> fc_imm (wr_imm w)")
    case True
    let ?n = "umq_ub_rq_posted_notifier_update (imm_window (wr_imm w)) q"
    let ?u = "upd_buf (wr_user_ctx w) (\<lambda>e. e\<lparr>bp_opcode := UMQ_OPC_SEND, bp_imm_data := 0\<rparr>) ?n"
    have a: "acct 0 0 0 (grant w) q ?n" using acct_notifier_update[of "imm_window (wr_imm w)" q] True by (simp add: grant_def)
    note s = spent_trans[OF spent_trans[OF acct_spent[OF a] spent_upd_buf] Cons.IH[of ?u, THEN conjunct1]]
    show ?thesis
      using s Cons.IH[of ?u, THEN conjunct2] acct_bufs[OF a] True by (auto simp: Let_def)
  next
    case False
    then show ?thesis using Cons.IH[of q] by (auto simp: Let_def grant_def)
  qed
qed simp

lemma recover_found:
  "recover_tx_imm_loop bad False ws q = recover_tx_imm_loop bad True (dropWhile (\<lambda>w. wr_user_ctx w \<noteq> bad) ws) q"
  by (induction ws arbitrary: q) (auto simp: Let_def)

lemma recover_spec:
  fixes ws bad
  defines "rest \<equiv> dropWhile (\<lambda>w. wr_user_ctx w \<noteq> bad) ws"
  shows "spent 0 0 0 (grants rest) q (umq_ub_recover_tx_imm ws bad q)"
    and "b \<notin> wr_user_ctx ` set rest \<Longrightarrow> q_bufs (umq_ub_recover_tx_imm ws bad q) b = q_bufs q b"
proof -
  have z: "spent 0 0 0 (grants rest) q q" by (simp add: spent_def)
  show "spent 0 0 0 (grants rest) q (umq_ub_recover_tx_imm ws bad q)"
    using z recover_loop[of rest q bad] unfolding umq_ub_recover_tx_imm_def recover_found rest_def by simp
  show "b \<notin> wr_user_ctx ` set rest \<Longrightarrow> q_bufs (umq_ub_recover_tx_imm ws bad q) b = q_bufs q b"
    using recover_loop[of rest q bad] unfolding umq_ub_recover_tx_imm_def recover_found rest_def by simp
qed

text \<open>The part of a list of requests from the \<open>i\<close>-th on, found by its context.\<close>

lemma dropWhile_nth:
  assumes "distinct (map f ws)" "i < length ws"
  shows "dropWhile (\<lambda>w. f w \<noteq> f (ws ! i)) ws = drop i ws"
  using assms
proof (induction ws arbitrary: i)
  case (Cons w ws)
  show ?case
  proof (cases i)
    case (Suc j)
    then have j: "j < length ws" using Cons.prems by simp
    have "f (ws ! j) \<in> set (map f ws)" using j by simp
    then have "f w \<noteq> f (ws ! j)" using Cons.prems by auto
    then show ?thesis using Suc Cons.IH[of j] Cons.prems j by simp
  qed simp
qed simp

lemma failed_num_nth:
  assumes "distinct (map f ws)" "i < length ws"
  shows "failed_num f ws (f (ws ! i)) = length ws - i"
  using assms
proof (induction ws arbitrary: i)
  case (Cons w ws)
  show ?case
  proof (cases i)
    case (Suc j)
    then have j: "j < length ws" using Cons.prems by simp
    have "f (ws ! j) \<in> set (map f ws)" using j by simp
    then have "f w \<noteq> f (ws ! j)" using Cons.prems by auto
    then show ?thesis using Suc Cons.IH[of j] Cons.prems j by simp
  qed simp
qed simp

subsection \<open>Building requests\<close>

text \<open>A request in flight and the buffer it was made from agree on what they consume and announce.\<close>

definition buf_grant :: "umq_buf \<Rightarrow> nat" where
  "buf_grant e = (if bp_opcode e = UMQ_OPC_SEND_IMM \<and> fc_imm (bp_imm_data e) then unat (imm_window (bp_imm_data e)) else 0)"

definition matches :: "ub_queue \<Rightarrow> urma_jfs_wr \<Rightarrow> bool" where
  "matches q wr = (\<exists>e. q_bufs q (wr_user_ctx wr) = Some e \<and> opcode_consume_rqe (bp_opcode e) = consuming wr \<and> buf_grant e = grant wr)"

definition fit_buf :: "umq_buf \<Rightarrow> bool" where
  "fit_buf e = (bp_opcode e \<noteq> UMQ_OPC_NOP \<and> (bp_opcode e = UMQ_OPC_SEND_IMM \<longrightarrow> \<not> fc_imm (bp_imm_data e)))"

lemma fill_wr_imm: "umq_ub_fill_wr q e sd = Inr (imm, r) \<Longrightarrow> \<not> fc_imm imm"
proof -
  have "\<not> fc_imm 0" by (simp add: fc_imm_def imm_private_def)
  then show "umq_ub_fill_wr q e sd = Inr (imm, r) \<Longrightarrow> ?thesis"
    by (auto simp: umq_ub_fill_wr_def Let_def split: umq_opcode.splits if_splits)
qed

text \<open>The fields of buffers that \<open>umq_ub_fill_tx_imm\<close> does not touch.\<close>

definition shape :: "umq_buf \<Rightarrow> umq_buf" where
  "shape e = e\<lparr>bp_opcode := UMQ_OPC_SEND, bp_imm_data := 0\<rparr>"

definition same_shape :: "ub_queue \<Rightarrow> ub_queue \<Rightarrow> bool" where
  "same_shape q t = (q_max_tx_sge t = q_max_tx_sge q \<and> (\<forall>b. map_option shape (q_bufs t b) = map_option shape (q_bufs q b)))"

lemma shape_fields: "shape e = shape f \<Longrightarrow>
  qbuf_next e = qbuf_next f \<and> total_data_size e = total_data_size f \<and> data_size e = data_size f \<and> buf_data e = buf_data f \<and> mempool_id e = mempool_id f"
  unfolding shape_def by (cases e; cases f) auto

lemma collect_sges_cong:
  assumes "same_shape q t"
  shows "collect_sges n t b rest tight acc = collect_sges n q b rest tight acc"
proof (induction n arbitrary: b rest tight acc)
  case (Suc n)
  have s: "map_option shape (q_bufs t b) = map_option shape (q_bufs q b)" using assms by (simp add: same_shape_def)
  show ?case
  proof (cases "q_bufs q b")
    case None
    then show ?thesis using s by simp
  next
    case (Some e)
    then obtain e' where "q_bufs t b = Some e'" "shape e' = shape e" using s by auto
    then show ?thesis using Some Suc.IH shape_fields[of e' e] by simp
  qed
qed simp

text \<open>The first buffers of the messages of a chain, as far as the loop comes.\<close>

fun tx_heads :: "nat \<Rightarrow> ub_queue \<Rightarrow> u64 \<Rightarrow> u64 list" where
  "tx_heads 0 q b = []"
| "tx_heads (Suc n) q b =
    (if b = 0 then []
     else case q_bufs q b of
       None \<Rightarrow> []
     | Some e \<Rightarrow> b # (case collect_sges (unat (q_max_tx_sge q)) q b (total_data_size e) 0 [] of
         Some (Inr (_, b', _, _)) \<Rightarrow> tx_heads n q b'
       | _ \<Rightarrow> []))"

lemma tx_heads_cong:
  assumes "same_shape q t"
  shows "tx_heads n t b = tx_heads n q b"
proof (induction n arbitrary: b)
  case (Suc n)
  have s: "map_option shape (q_bufs t b) = map_option shape (q_bufs q b)" and m: "q_max_tx_sge t = q_max_tx_sge q"
    using assms by (simp_all add: same_shape_def)
  show ?case
  proof (cases "q_bufs q b")
    case None
    then show ?thesis using s by simp
  next
    case (Some e)
    then obtain e' where e': "q_bufs t b = Some e'" "shape e' = shape e" using s by auto
    then have "total_data_size e' = total_data_size e" using shape_fields by blast
    then show ?thesis using Some e' Suc.IH m collect_sges_cong[OF assms]
      by (simp cong: option.case_cong sum.case_cong)
  qed
qed simp

lemma fill_tx_imm_cases:
  assumes "umq_ub_fill_tx_imm b wr q = (t, w)"
  defines "v \<equiv> local_rx_posted (q_fc q)"
  defines "q1 \<equiv> q\<lparr>q_fc := fst (local_rx_posted_exchange (q_fc q))\<rparr>"
  obtains (plain) "t = q" "w = wr" | (none) "v = 0" "t = q1" "w = wr"
    | (carry) "wr_opcode wr = URMA_OPC_SEND" "w = wr\<lparr>wr_opcode := URMA_OPC_SEND_IMM, wr_imm := mk_fc_imm True v\<rparr>"
      "t = upd_buf b (\<lambda>e. e\<lparr>bp_opcode := UMQ_OPC_SEND_IMM, bp_imm_data := mk_fc_imm True v\<rparr>) q1"
proof -
  let ?c = "\<not> fc_enabled (q_fc q) \<or> wr_opcode wr \<noteq> URMA_OPC_SEND \<or> local_rx_posted (q_fc q) < notify_interval (q_fc q)"
  consider "?c" | "\<not> ?c" "v = 0" | "\<not> ?c" "v \<noteq> 0" by blast
  then show ?thesis
  proof cases
    case 1
    then have "t = q \<and> w = wr" using assms(1) by (auto simp: umq_ub_fill_tx_imm_def split: if_splits)
    then show ?thesis using plain by blast
  next
    case 2
    then have "t = q1 \<and> w = wr" using assms by (simp add: umq_ub_fill_tx_imm_def exchange_spec)
    then show ?thesis using none 2 by blast
  next
    case 3
    then have "w = wr\<lparr>wr_opcode := URMA_OPC_SEND_IMM, wr_imm := mk_fc_imm True v\<rparr> \<and>
      t = upd_buf b (\<lambda>e. e\<lparr>bp_opcode := UMQ_OPC_SEND_IMM, bp_imm_data := mk_fc_imm True v\<rparr>) q1"
      using assms by (simp add: umq_ub_fill_tx_imm_def exchange_spec Let_def)
    then show ?thesis using carry 3 by blast
  qed
qed

lemma fill_tx_imm_spec:
  assumes f: "umq_ub_fill_tx_imm b wr q = (t, w)"
    and e: "q_bufs q b = Some e" "fit_buf e"
    and wr: "wr_user_ctx wr = b" "wr_opcode wr = transform_op_code (bp_opcode e)" "\<not> fc_imm (wr_imm wr)"
  shows "spent 0 0 (grant w) 0 q t" "q_sq t = q_sq q" "same_shape q t" "\<And>c. c \<noteq> b \<Longrightarrow> q_bufs t c = q_bufs q c"
    "matches t w" "wr_user_ctx w = b" "consuming w = opcode_consume_rqe (bp_opcode e)"
proof -
  let ?v = "local_rx_posted (q_fc q)"
  let ?q1 = "q\<lparr>q_fc := fst (local_rx_posted_exchange (q_fc q))\<rparr>"
  have plain: "matches q wr \<and> grant wr = 0 \<and> consuming wr = opcode_consume_rqe (bp_opcode e)"
    using e wr by (auto simp: matches_def fit_buf_def buf_grant_def grant_def consuming_def opcode_consume_rqe_def transform_op_code_def
        split: umq_opcode.splits)
  have "evolves q ?q1" by (rule evolves_fc) (simp_all add: exchange_spec)
  then have sp: "spent 0 0 (unat ?v) 0 q ?q1" by (simp add: spent_def out_def due_def exchange_spec)
  from f have "spent 0 0 (grant w) 0 q t \<and> q_sq t = q_sq q \<and> same_shape q t \<and> (\<forall>c. c \<noteq> b \<longrightarrow> q_bufs t c = q_bufs q c)
    \<and> matches t w \<and> wr_user_ctx w = b \<and> consuming w = opcode_consume_rqe (bp_opcode e)"
  proof (cases rule: fill_tx_imm_cases)
    case plain
    then show ?thesis using \<open>matches q wr \<and> _\<close> wr by (simp add: same_shape_def)
  next
    case none
    then show ?thesis using \<open>matches q wr \<and> _\<close> wr sp by (auto simp: same_shape_def matches_def)
  next
    case carry
    have op: "bp_opcode e = UMQ_OPC_SEND" using carry(1) wr e
      by (auto simp: transform_op_code_def fit_buf_def split: umq_opcode.splits)
    have "spent 0 0 (unat ?v) 0 q t" using spent_trans[OF sp spent_upd_buf] carry(3) by simp
    then show ?thesis using carry wr e op
      by (simp add: same_shape_def shape_def matches_def buf_grant_def grant_def consuming_def opcode_consume_rqe_def)
  qed
  then show "spent 0 0 (grant w) 0 q t" "q_sq t = q_sq q" "same_shape q t" "\<And>c. c \<noteq> b \<Longrightarrow> q_bufs t c = q_bufs q c"
    "matches t w" "wr_user_ctx w = b" "consuming w = opcode_consume_rqe (bp_opcode e)"
    by blast+
qed

text \<open>What the loop has done when it ends, normally or with an error.\<close>

definition built :: "u64 list \<Rightarrow> bool \<Rightarrow> tx_build \<Rightarrow> tx_build \<Rightarrow> bool" where
  "built hs c t u = (\<exists>ws. tb_wrs u = tb_wrs t @ ws \<and> map wr_user_ctx ws = take (length ws) hs
     \<and> spent 0 0 (grants ws) 0 (tb_q t) (tb_q u) \<and> q_sq (tb_q u) = q_sq (tb_q t) \<and> same_shape (tb_q t) (tb_q u)
     \<and> (\<forall>b. b \<notin> wr_user_ctx ` set ws \<longrightarrow> q_bufs (tb_q u) b = q_bufs (tb_q t) b)
     \<and> (\<forall>w \<in> set ws. matches (tb_q u) w \<and> consuming w = c) \<and> (tb_consume u = (if ws = [] then tb_consume t else c)))"

lemma built_refl: "built hs c t t"
  unfolding built_def by (rule exI[of _ "[]"]) (simp add: same_shape_def)

lemma same_shape_trans: "same_shape q t \<Longrightarrow> same_shape t u \<Longrightarrow> same_shape q u"
  by (simp add: same_shape_def)

lemma built_Cons:
  assumes w: "wr_user_ctx w = b" "spent 0 0 (grant w) 0 (tb_q t) q1" "q_sq q1 = q_sq (tb_q t)" "same_shape (tb_q t) q1"
      "\<And>c. c \<noteq> b \<Longrightarrow> q_bufs q1 c = q_bufs (tb_q t) c" "matches q1 w" "consuming w = c"
    and u: "built hs c \<lparr>tb_q = q1, tb_wrs = tb_wrs t @ [w], tb_consume = c, tb_remote = r\<rparr> u" and b: "b \<notin> set hs"
  shows "built (b # hs) c t u"
proof -
  from u obtain ws where ws: "tb_wrs u = tb_wrs t @ w # ws" "map wr_user_ctx ws = take (length ws) hs"
      "spent 0 0 (grants ws) 0 q1 (tb_q u)" "q_sq (tb_q u) = q_sq q1" "same_shape q1 (tb_q u)"
      "\<forall>b. b \<notin> wr_user_ctx ` set ws \<longrightarrow> q_bufs (tb_q u) b = q_bufs q1 b"
      "\<forall>w \<in> set ws. matches (tb_q u) w \<and> consuming w = c" "tb_consume u = c"
    unfolding built_def by (auto split: if_splits)
  have "wr_user_ctx ` set ws \<subseteq> set hs" using ws(2) set_take_subset[of "length ws" hs] by (metis set_map)
  then have "b \<notin> wr_user_ctx ` set ws" using b by blast
  then have m: "matches (tb_q u) w" using w(1,6) ws(6) by (simp add: matches_def)
  show ?thesis unfolding built_def
  proof (rule exI[of _ "w # ws"], intro conjI)
    show "spent 0 0 (grants (w # ws)) 0 (tb_q t) (tb_q u)" using spent_trans[OF w(2) ws(3)] by simp
    show "same_shape (tb_q t) (tb_q u)" using same_shape_trans[OF w(4) ws(5)] .
  qed (use ws w m in auto)
qed

lemma build_tx_step:
  assumes r: "build_tx (Suc n) mx b t = Some r" and b: "b \<noteq> 0"
  obtains (err) err where "r = Inl (err, t)"
  | (step) e sges b' tight imm remote q1 w where "q_bufs (tb_q t) b = Some e"
      "collect_sges (unat (q_max_tx_sge (tb_q t))) (tb_q t) b (total_data_size e) 0 [] = Some (Inr (sges, b', 0, tight))"
      "umq_ub_fill_wr (tb_q t) e (tb_remote t) = Inr (imm, remote)"
      "umq_ub_fill_tx_imm b \<lparr>wr_user_ctx = b, wr_opcode = transform_op_code (bp_opcode e),
         wr_imm = imm, wr_flag = bp_flag e, wr_sges = sges, wr_remote = None\<rparr> (tb_q t) = (q1, w)"
      "build_tx n mx b' \<lparr>tb_q = q1, tb_wrs = tb_wrs t @ [w], tb_consume = opcode_consume_rqe (bp_opcode e), tb_remote = remote\<rparr> = Some r"
proof (cases "\<exists>err. r = Inl (err, t)")
  case True
  then show ?thesis using err by blast
next
  case go: False
  obtain e where e: "q_bufs (tb_q t) b = Some e" using r b by (auto split: Option.bind_splits)
  let ?c = "collect_sges (unat (q_max_tx_sge (tb_q t))) (tb_q t) b (total_data_size e) 0 []"
  obtain sges b' tight imm remote where c: "?c = Some (Inr (sges, b', 0, tight))"
      and f: "umq_ub_fill_wr (tb_q t) e (tb_remote t) = Inr (imm, remote)"
    using r go b e by (auto split: Option.bind_splits sum.splits if_splits)
  obtain q1 w where x: "umq_ub_fill_tx_imm b \<lparr>wr_user_ctx = b, wr_opcode = transform_op_code (bp_opcode e),
         wr_imm = imm, wr_flag = bp_flag e, wr_sges = sges, wr_remote = None\<rparr> (tb_q t) = (q1, w)" by fastforce
  have "build_tx n mx b' \<lparr>tb_q = q1, tb_wrs = tb_wrs t @ [w], tb_consume = opcode_consume_rqe (bp_opcode e), tb_remote = remote\<rparr> = Some r"
    using r b e c f x go by (auto split: if_splits)
  then show ?thesis using step e c f x by blast
qed

lemma build_tx_spec:
  assumes "build_tx n mx b t = Some r"
    and "distinct (tx_heads n (tb_q t) b)"
    and "\<And>h e. h \<in> set (tx_heads n (tb_q t) b) \<Longrightarrow> q_bufs (tb_q t) h = Some e \<Longrightarrow> fit_buf e \<and> opcode_consume_rqe (bp_opcode e) = c"
  shows "built (tx_heads n (tb_q t) b) c t (case r of Inl (_, u) \<Rightarrow> u | Inr u \<Rightarrow> u)"
  using assms
proof (induction n arbitrary: b t)
  case 0
  then show ?case by (auto simp: built_refl split: if_splits)
next
  case (Suc n)
  show ?case
  proof (cases "b = 0")
    case True
    then show ?thesis using Suc.prems(1) by (auto simp: built_refl)
  next
    case b: False
    from Suc.prems(1) b show ?thesis
    proof (cases rule: build_tx_step)
      case (err err)
      then show ?thesis by (simp add: built_refl)
    next
      case (step e sges b' tight imm remote q1 w)
      have fit: "fit_buf e" "opcode_consume_rqe (bp_opcode e) = c" using Suc.prems(3)[of b e] step(1) b by auto
      let ?t = "\<lparr>tb_q = q1, tb_wrs = tb_wrs t @ [w], tb_consume = c, tb_remote = remote\<rparr>"
      note X = fill_tx_imm_spec[OF step(4) step(1) fit(1)]
      have X': "spent 0 0 (grant w) 0 (tb_q t) q1" "q_sq q1 = q_sq (tb_q t)" "same_shape (tb_q t) q1"
          "\<And>c. c \<noteq> b \<Longrightarrow> q_bufs q1 c = q_bufs (tb_q t) c" "matches q1 w" "wr_user_ctx w = b" "consuming w = c"
        using X fill_wr_imm[OF step(3)] fit by auto
      have h: "tx_heads (Suc n) (tb_q t) b = b # tx_heads n q1 b'"
        using b step(1,2) tx_heads_cong[OF X'(3)] by simp
      have d: "distinct (tx_heads n q1 b')" "b \<notin> set (tx_heads n q1 b')" using Suc.prems(2) h by auto
      have "fit_buf e' \<and> opcode_consume_rqe (bp_opcode e') = c" if "k \<in> set (tx_heads n q1 b')" "q_bufs q1 k = Some e'" for k e'
      proof (rule Suc.prems(3))
        show "k \<in> set (tx_heads (Suc n) (tb_q t) b)" unfolding h using that(1) by simp
        have "k \<noteq> b" using that(1) d(2) by auto
        then show "q_bufs (tb_q t) k = Some e'" using X'(4)[of k] that(2) by simp
      qed
      then have B: "built (tx_heads n q1 b') c ?t (case r of Inl (_, u) \<Rightarrow> u | Inr u \<Rightarrow> u)"
        using Suc.IH[of b' ?t, simplified] step(5) fit(2) d(1) by simp
      show ?thesis unfolding h by (rule built_Cons[OF X'(6) X'(1-3) _ X'(5) X'(7) B d(2)]) (rule X'(4))
    qed
  qed
qed

lemma build_tx_length:
  "build_tx n mx b t = Some (Inr u) \<Longrightarrow> length (tb_wrs u) \<le> length (tb_wrs t) + n \<and> length (tb_wrs t) \<le> length (tb_wrs u) \<and> (b \<noteq> 0 \<longrightarrow> length (tb_wrs t) < length (tb_wrs u))"
proof (induction n arbitrary: b t)
  case (Suc n)
  show ?case
  proof (cases "b = 0")
    case False
    with Suc.prems show ?thesis
      by (cases rule: build_tx_step) (auto dest!: Suc.IH)
  qed (use Suc.prems in auto)
qed (auto split: if_splits)

subsection \<open>Sending what was built\<close>

lemma resolve_remote_simps [simp]:
  "wr_user_ctx (resolve_remote sd w) = wr_user_ctx w" "consuming (resolve_remote sd w) = consuming w"
  "grant (resolve_remote sd w) = grant w" "matches q (resolve_remote sd w) = matches q w"
  "win_read (resolve_remote sd w) = win_read w"
  by (simp_all add: resolve_remote_def consuming_def grant_def matches_def win_read_def)

lemma resolve_sums [simp]:
  "sends (map (resolve_remote sd) ws) = sends ws" "grants (map (resolve_remote sd) ws) = grants ws"
  "win_reads (map (resolve_remote sd) ws) = win_reads ws"
  by (induction ws) simp_all

lemma sends_all: "(\<And>w. w \<in> set ws \<Longrightarrow> consuming w = c) \<Longrightarrow> sends ws = (if c then length ws else 0)"
  by (induction ws) auto

lemma win_reads_none: "(\<And>w. w \<in> set ws \<Longrightarrow> 0xFFFF < wr_user_ctx w) \<Longrightarrow> win_reads ws = 0"
proof (induction ws)
  case (Cons a ws)
  have "\<not> win_read a" using Cons.prems[of a] by (auto simp: win_read_def)
  then show ?case using Cons by simp
qed simp

text \<open>
  The effect of a call that hands over the requests \<open>us\<close> of the user and some of the flow control's own.
\<close>

definition sent :: "urma_jfs_wr list \<Rightarrow> ub_queue \<Rightarrow> ub_queue \<Rightarrow> bool" where
  "sent us q t = (keeps q t \<and> reads_ok q t \<and> out t \<le> out q \<and> due t \<le> due q
     \<and> (\<exists>ws. q_sq t = q_sq q @ us @ ws \<and> (\<forall>w \<in> set ws. own_wr w)))"

lemma spent_sent: "spent a 0 b 0 q t \<Longrightarrow> sent [] q t"
  by (auto simp: sent_def spent_def evolves_def grows_def)

text \<open>Appending user requests to the send queue.\<close>

lemma sent_post:
  assumes p: "spent a 0 b 0 q q1" "q_sq q1 = q_sq q" and us: "sends us \<le> a" "grants us \<le> b" "win_reads us = 0"
    and q2: "q2 = q1\<lparr>q_sq := q_sq q1 @ us, q_post := ps\<rparr>"
    and r: "spent 0 (a - sends us) 0 (b - grants us) q2 t"
  shows "sent us q t"
proof -
  have k: "keeps q q1" "reads_ok q q1" "out q1 + a \<le> out q" "due q1 + b \<le> due q"
    using p by (simp_all add: spent_def evolves_def)
  have k2: "keeps q1 q2" "reads_ok q1 q2" "out q2 = out q1 + sends us" "due q2 = due q1 + grants us"
    using us(3) unfolding q2 by (auto simp: keeps_def reads_ok_def out_def due_def)
  have k3: "keeps q2 t" "reads_ok q2 t" "grows q2 t" "out t \<le> out q2 + (a - sends us)" "due t \<le> due q2 + (b - grants us)"
    using r by (simp_all add: spent_def evolves_def)
  from k3(3) obtain ws where "q_sq t = q_sq q @ us @ ws" "\<forall>w \<in> set ws. own_wr w"
    using p(2) by (auto simp: grows_def q2)
  moreover have "keeps q t" using keeps_trans[OF keeps_trans[OF k(1) k2(1)] k3(1)] .
  moreover have "reads_ok q t" using reads_ok_trans[OF keeps_trans[OF k(1) k2(1)] reads_ok_trans[OF k(1) k(2) k2(2)] k3(2)] .
  ultimately show ?thesis using k k2 k3 us by (auto simp: sent_def)
qed

lemma window_dec_sq: "umq_ub_window_dec w q = (t, n) \<Longrightarrow> n \<noteq> 0 \<Longrightarrow> q_sq t = q_sq q"
  by (auto simp: umq_ub_window_dec_def Let_def split: if_splits prod.splits)

lemma send_wr_take:
  assumes "urma_post_jetty_send_wr ws q = (t, r)"
  shows "t = q\<lparr>q_sq := q_sq q @ take (case r of None \<Rightarrow> length ws | Some (_, Some i) \<Rightarrow> i | Some (_, None) \<Rightarrow> 0) ws, q_post := tl (q_post q)\<rparr>"
proof -
  have "bad_index bad ws = bad" if "r = Some (st, bad)" for st bad
    using assms that by (auto simp: urma_post_jetty_send_wr_def bad_index_def split: list.splits post_outcome.splits option.splits if_splits)
  then show ?thesis using send_wr_spec(1)[OF assms] by (auto simp: accepted_def split: option.splits)
qed

lemma post_tx_send_spec:
  assumes B: "built hs c t0 t" and t0: "tb_wrs t0 = []" and en: "fc_enabled (q_fc (tb_q t0))"
    and hs: "distinct hs" "hs \<noteq> []" "hd hs = qbuf" "\<And>h. h \<in> set hs \<Longrightarrow> 0xFFFF < h"
    and ne: "tb_wrs t \<noteq> []" "length (tb_wrs t) \<le> UMQ_BATCH_SIZE"
    and p: "post_tx_send qbuf t = (t', bad, ret)"
  shows "\<exists>us. sent us (tb_q t0) t' \<and> (\<forall>u \<in> set us. matches t' u) \<and> distinct (map wr_user_ctx us) \<and> wr_user_ctx ` set us \<subseteq> set hs
    \<and> (\<forall>b. b \<notin> set hs \<longrightarrow> q_bufs t' b = q_bufs (tb_q t0) b)"
proof -
  let ?q = "tb_q t0" and ?wrs = "tb_wrs t"
  from B t0 have W: "map wr_user_ctx ?wrs = take (length ?wrs) hs" "spent 0 0 (grants ?wrs) 0 ?q (tb_q t)" "q_sq (tb_q t) = q_sq ?q"
      "\<And>b. b \<notin> wr_user_ctx ` set ?wrs \<Longrightarrow> q_bufs (tb_q t) b = q_bufs ?q b"
      "\<And>w. w \<in> set ?wrs \<Longrightarrow> matches (tb_q t) w" "\<And>w. w \<in> set ?wrs \<Longrightarrow> consuming w = c" "tb_consume t = c"
    using ne(1) unfolding built_def by auto
  have dist: "distinct (map wr_user_ctx ?wrs)" using W(1) hs(1) by simp
  have sub: "wr_user_ctx ` set ?wrs \<subseteq> set hs" using W(1) set_take_subset[of "length ?wrs" hs] by (metis set_map)
  have hd: "wr_user_ctx (?wrs ! 0) = qbuf"
  proof -
    have "wr_user_ctx (?wrs ! 0) = map wr_user_ctx ?wrs ! 0" using ne(1) by simp
    also have "\<dots> = hs ! 0" unfolding W(1) using ne(1) by simp
    finally show ?thesis using hs(2,3) by (simp add: hd_conv_nth)
  qed
  have len16: "unat (of_nat (length ?wrs) :: u16) = length ?wrs" using ne(2) by (simp add: unat_of_nat UMQ_BATCH_SIZE_def)
  obtain q1 mx where win: "(if tb_consume t then umq_ub_window_dec (of_nat (length ?wrs)) (tb_q t) else (tb_q t, of_nat (length ?wrs))) = (q1, mx)"
    by fastforce
  have en1: "fc_enabled (q_fc (tb_q t))" using en W(2) by (simp add: spent_def evolves_def keeps_def)
  have A: "acct (if c then unat mx else 0) 0 0 0 (tb_q t) q1" "unat mx \<le> length ?wrs"
  proof -
    show "acct (if c then unat mx else 0) 0 0 0 (tb_q t) q1"
      using win W(7) acct_window_dec(1)[of "of_nat (length ?wrs)" "tb_q t" q1 mx] en1 by (auto split: if_splits)
    show "unat mx \<le> length ?wrs"
      using win W(7) acct_window_dec(2)[of "of_nat (length ?wrs)" "tb_q t" q1 mx] en1 len16 by (auto simp: word_le_nat_alt split: if_splits)
  qed
  have S1: "spent (if c then unat mx else 0) 0 (grants ?wrs) 0 ?q q1" using spent_trans[OF W(2) acct_spent[OF A(1)]] by simp
  have buf1: "q_bufs q1 = q_bufs (tb_q t)" using A(1) by (rule acct_bufs)
  show ?thesis
  proof (cases "mx = 0")
    case True
    have t': "t' = umq_ub_recover_tx_imm ?wrs qbuf q1" using p win True by (auto simp: post_tx_send_def Let_def)
    have "dropWhile (\<lambda>w. wr_user_ctx w \<noteq> qbuf) ?wrs = ?wrs" using dropWhile_nth[OF dist, of 0] hd ne(1) by simp
    then have R: "spent 0 0 0 (grants ?wrs) q1 t'" "\<And>b. b \<notin> wr_user_ctx ` set ?wrs \<Longrightarrow> q_bufs t' b = q_bufs q1 b"
      using recover_spec[where ws = ?wrs and bad = qbuf and q = q1] unfolding t' by auto
    have "spent 0 0 0 0 ?q t'" using spent_mono[OF spent_trans[OF S1 R(1)], of 0 0 0 0] by simp
    then have "sent [] ?q t'" by (rule spent_sent)
    moreover have "\<forall>b. b \<notin> set hs \<longrightarrow> q_bufs t' b = q_bufs ?q b" using R(2) W(4) buf1 sub by (auto simp: subset_iff)
    ultimately show ?thesis by (intro exI[of _ "[]"]) simp
  next
    case mx: False
    let ?first = "take (unat mx) ?wrs" and ?res = "resolve_remote (tb_remote t)"
    obtain q2 r where post: "urma_post_jetty_send_wr (map ?res ?first) q1 = (q2, r)" by fastforce
    define k where "k = (case r of None \<Rightarrow> unat mx | Some (_, Some i) \<Rightarrow> i | Some (_, None) \<Rightarrow> 0)"
    let ?us = "map ?res (take k ?wrs)"
    have mx0: "0 < unat mx" using mx by (simp add: unat_gt_0)
    have lenf: "length ?first = unat mx" using A(2) by simp
    have kle: "k \<le> unat mx" "r \<noteq> None \<Longrightarrow> k < unat mx"
      using send_wr_spec(2)[OF post] mx0 lenf by (auto simp: k_def split: option.splits dest: less_imp_le)
    have q2: "q2 = q1\<lparr>q_sq := q_sq q1 @ ?us, q_post := tl (q_post q1)\<rparr>"
    proof -
      have "(case r of None \<Rightarrow> length (map ?res ?first) | Some (_, Some i) \<Rightarrow> i | Some (_, None) \<Rightarrow> 0) = k"
        using lenf by (cases r) (simp_all add: k_def)
      moreover have "take k (map ?res ?first) = ?us" using kle(1) by (simp add: take_map min_absorb1)
      ultimately show ?thesis using send_wr_take[OF post] by simp
    qed
    have sq1: "q_sq q1 = q_sq ?q" using window_dec_sq[of _ _ q1 mx] win mx W(3) by (auto split: if_splits)
    have rest: "\<exists>t2. spent 0 (if c then unat mx - k else 0) 0 0 q2 t2 \<and> q_bufs t2 = q_bufs q2 \<and>
        t' = (if k < length ?wrs then umq_ub_recover_tx_imm ?wrs (wr_user_ctx (?wrs ! k)) t2 else t2)"
    proof (cases r)
      case None
      then have "k = unat mx" by (simp add: k_def)
      moreover have "t' = (if unat mx < length ?wrs then umq_ub_recover_tx_imm ?wrs (wr_user_ctx (?wrs ! unat mx)) q2 else q2)"
        using None p win mx post by (auto simp: post_tx_send_def Let_def split: if_splits)
      ultimately show ?thesis by (intro exI[of _ q2]) (simp add: spent_def)
    next
      case (Some x)
      obtain st bd where x: "x = (st, bd)" by fastforce
      have kl: "k < length ?first" using kle(2) Some lenf by simp
      have ctx: "(case bd of Some i \<Rightarrow> wr_user_ctx (?wrs ! i) | None \<Rightarrow> qbuf) = wr_user_ctx (?first ! k)"
        using Some x hd kl by (auto simp: k_def split: option.splits)
      have fn: "umq_ub_tx_failed_num ?first (wr_user_ctx (?first ! k)) = of_nat (unat mx - k)"
        using failed_num_nth[of wr_user_ctx ?first k] dist kl lenf by (simp add: umq_ub_tx_failed_num_def take_map[symmetric] distinct_take)
      let ?t2 = "if tb_consume t then umq_ub_window_inc (of_nat (unat mx - k)) q2 else q2"
      have "unat (of_nat (unat mx - k) :: u16) = unat mx - k"
        using A(2) ne(2) by (simp add: unat_of_nat UMQ_BATCH_SIZE_def)
      then have "spent 0 (if c then unat mx - k else 0) 0 0 q2 ?t2 \<and> q_bufs ?t2 = q_bufs q2"
        using acct_window_inc[of "of_nat (unat mx - k)" q2] W(7) by (auto dest: acct_spent acct_bufs)
      moreover have "t' = umq_ub_recover_tx_imm ?wrs (wr_user_ctx (?wrs ! k)) ?t2"
        using p win mx post Some x ctx fn kl by (auto simp: post_tx_send_def Let_def)
      moreover have "k < length ?wrs" using kl by simp
      ultimately show ?thesis by (intro exI[of _ ?t2]) simp
    qed
    then obtain t2 where T: "spent 0 (if c then unat mx - k else 0) 0 0 q2 t2" "q_bufs t2 = q_bufs q2"
        "t' = (if k < length ?wrs then umq_ub_recover_tx_imm ?wrs (wr_user_ctx (?wrs ! k)) t2 else t2)" by blast
    have R: "spent 0 0 0 (grants (drop k ?wrs)) t2 t'" "\<And>b. b \<notin> wr_user_ctx ` set (drop k ?wrs) \<Longrightarrow> q_bufs t' b = q_bufs t2 b"
      using recover_spec[where ws = ?wrs and bad = "wr_user_ctx (?wrs ! k)" and q = t2] dropWhile_nth[OF dist, of k] T(3)
      by (auto split: if_splits)
    have g: "grants ?wrs = grants (take k ?wrs) + grants (drop k ?wrs)" by (metis append_take_drop_id grants_simps(3))
    have "\<And>w. w \<in> set (take k ?wrs) \<Longrightarrow> consuming w = c" using W(6) by (meson in_set_takeD)
    then have sn: "sends (take k ?wrs) = (if c then k else 0)" using sends_all[of "take k ?wrs" c] kle(1) A(2) by auto
    have wr0: "win_reads (take k ?wrs) = 0"
      by (rule win_reads_none) (use sub hs(4) in \<open>force dest: in_set_takeD\<close>)
    have "sent ?us ?q t'"
    proof (rule sent_post[OF S1 sq1 _ _ _ q2])
      show "sends ?us \<le> (if c then unat mx else 0)" "grants ?us \<le> grants ?wrs" "win_reads ?us = 0" using sn g wr0 kle(1) by auto
      show "spent 0 ((if c then unat mx else 0) - sends ?us) 0 (grants ?wrs - grants ?us) q2 t'"
        using spent_mono[OF spent_trans[OF T(1) R(1)]] sn g by (auto split: if_splits)
    qed
    moreover have "\<forall>u \<in> set ?us. matches t' u"
    proof
      fix u assume "u \<in> set ?us"
      then obtain w where w: "w \<in> set (take k ?wrs)" "u = ?res w" by auto
      have "wr_user_ctx w \<notin> wr_user_ctx ` set (drop k ?wrs)"
        using dist w(1) by (metis append_take_drop_id distinct_append disjoint_iff image_eqI map_append set_map)
      then have "q_bufs t' (wr_user_ctx w) = q_bufs (tb_q t) (wr_user_ctx w)" using R(2) T(2) buf1 q2 by simp
      then show "matches t' u" using W(5)[of w] w by (auto simp: matches_def dest: in_set_takeD)
    qed
    moreover have "distinct (map wr_user_ctx ?us)" using dist by (simp add: comp_def take_map[symmetric])
    moreover have "wr_user_ctx ` set ?us \<subseteq> set hs" using sub by (force dest: in_set_takeD)
    moreover have "\<forall>b. b \<notin> set hs \<longrightarrow> q_bufs t' b = q_bufs ?q b"
    proof (intro allI impI)
      fix b assume "b \<notin> set hs"
      then have "b \<notin> wr_user_ctx ` set ?wrs" using sub by blast
      moreover then have "b \<notin> wr_user_ctx ` set (drop k ?wrs)" by (auto dest: in_set_dropD)
      ultimately show "q_bufs t' b = q_bufs ?q b" using R(2) T(2) buf1 q2 W(4) by simp
    qed
    ultimately show ?thesis by (intro exI[of _ ?us] conjI)
  qed
qed

text \<open>
  The calls the accounts are kept for: the messages of the chain are different buffers that are not in flight,
  they all use up a receive buffer or none does, none is a \<open>UMQ_OPC_NOP\<close>, and
  no immediate value of the user looks like an announcement.
\<close>

definition fit_tx :: "u64 set \<Rightarrow> ub_queue \<Rightarrow> u64 \<Rightarrow> bool" where
  "fit_tx busy q b =
    (let hs = tx_heads UMQ_BATCH_SIZE q b in
     distinct hs \<and> (\<forall>h \<in> set hs. 0xFFFF < h \<and> h \<notin> busy) \<and>
     (\<exists>c. \<forall>h \<in> set hs. \<forall>e. q_bufs q h = Some e \<longrightarrow> fit_buf e \<and> opcode_consume_rqe (bp_opcode e) = c))"

definition posted_tx :: "u64 set \<Rightarrow> ub_queue \<Rightarrow> ub_queue \<Rightarrow> bool" where
  "posted_tx busy q t = (\<exists>us. sent us q t \<and> (\<forall>u \<in> set us. matches t u) \<and> distinct (map wr_user_ctx us)
     \<and> (\<forall>u \<in> set us. 0xFFFF < wr_user_ctx u \<and> wr_user_ctx u \<notin> busy) \<and> (\<forall>b \<in> busy. q_bufs t b = q_bufs q b))"

lemma ref_simps [simp]:
  "sent us (inc_ref q) t = sent us q t" "sent us q (dec_ref t) = sent us q t" "matches (dec_ref q) u = matches q u"
  "q_bufs (inc_ref q) = q_bufs q" "q_bufs (dec_ref q) = q_bufs q" "q_fc (inc_ref q) = q_fc q" "q_fc (dec_ref q) = q_fc q"
  "q_sq (inc_ref q) = q_sq q" "q_sq (dec_ref q) = q_sq q"
  "tx_heads n (inc_ref q) b = tx_heads n q b"
proof -
  have "same_shape q (inc_ref q)" by (simp add: same_shape_def inc_ref_def)
  then show "tx_heads n (inc_ref q) b = tx_heads n q b" by (rule tx_heads_cong)
qed (simp_all add: inc_ref_def dec_ref_def sent_def keeps_def reads_ok_def out_def due_def matches_def)

lemma BATCH_Suc: "UMQ_BATCH_SIZE = Suc 63"
  by (simp add: UMQ_BATCH_SIZE_def)

lemma tx_heads_hd: "b \<noteq> 0 \<Longrightarrow> q_bufs q b = Some e \<Longrightarrow> tx_heads (Suc n) q b \<noteq> [] \<and> hd (tx_heads (Suc n) q b) = b"
  by simp

lemma build_tx_first: "build_tx (Suc n) mx b t = Some r \<Longrightarrow> b \<noteq> 0 \<Longrightarrow> \<exists>e. q_bufs (tb_q t) b = Some e"
  by (auto split: Option.bind_splits)

lemma built_recover:
  assumes B: "built hs c t0 t" "tb_wrs t0 = []"
  shows "sent [] (tb_q t0) (umq_ub_recover_tx_imm (tb_wrs t) bad (tb_q t))"
    and "b \<notin> set hs \<Longrightarrow> q_bufs (umq_ub_recover_tx_imm (tb_wrs t) bad (tb_q t)) b = q_bufs (tb_q t0) b"
proof -
  let ?wrs = "tb_wrs t" and ?rest = "dropWhile (\<lambda>w. wr_user_ctx w \<noteq> bad) (tb_wrs t)"
  from B have W: "map wr_user_ctx ?wrs = take (length ?wrs) hs" "spent 0 0 (grants ?wrs) 0 (tb_q t0) (tb_q t)"
      "\<And>b. b \<notin> wr_user_ctx ` set ?wrs \<Longrightarrow> q_bufs (tb_q t) b = q_bufs (tb_q t0) b"
    unfolding built_def by auto
  note R = recover_spec[where ws = ?wrs and bad = bad and q = "tb_q t"]
  have "grants ?wrs = grants (takeWhile (\<lambda>w. wr_user_ctx w \<noteq> bad) ?wrs) + grants ?rest"
    by (metis takeWhile_dropWhile_id grants_simps(3))
  then have "spent 0 0 0 0 (tb_q t0) (umq_ub_recover_tx_imm ?wrs bad (tb_q t))"
    using spent_mono[OF spent_trans[OF W(2) R(1)], of 0 0 0 0] by simp
  then show "sent [] (tb_q t0) (umq_ub_recover_tx_imm ?wrs bad (tb_q t))" by (rule spent_sent)
  assume b: "b \<notin> set hs"
  have "wr_user_ctx ` set ?wrs \<subseteq> set hs" using W(1) set_take_subset[of "length ?wrs" hs] by (metis set_map)
  then have "b \<notin> wr_user_ctx ` set ?wrs" using b by blast
  moreover then have "b \<notin> wr_user_ctx ` set ?rest" by (auto dest: set_dropWhileD)
  ultimately show "q_bufs (umq_ub_recover_tx_imm ?wrs bad (tb_q t)) b = q_bufs (tb_q t0) b" using R(2) W(3) by simp
qed

lemma post_tx_accounts:
  assumes p: "umq_ub_post_tx b q = Some (t, bad, ret)" and fit: "fit_tx busy q b" and en: "fc_enabled (q_fc q)"
  shows "posted_tx busy q t"
proof (cases "q_bound q")
  case False
  then have "t = q" using p by (simp add: umq_ub_post_tx_def)
  then show ?thesis unfolding posted_tx_def using spent_sent[OF spent_refl[of q]] by (intro exI[of _ "[]"]) auto
next
  case bd: True
  let ?hs = "tx_heads UMQ_BATCH_SIZE q b"
  let ?t0 = "\<lparr>tb_q = inc_ref q, tb_wrs = [], tb_consume = False, tb_remote = (None, None)\<rparr>"
  let ?mx = "if q_remote_rx_buf_size q > q_tx_buf_size q then q_tx_buf_size q else q_remote_rx_buf_size q"
  have b: "b \<noteq> 0" using p bd by (auto simp: umq_ub_post_tx_def)
  let ?go = "\<lambda>r. let (q1, bad, ret) = (case r of
              Inl (err, t) \<Rightarrow> (umq_ub_recover_tx_imm (tb_wrs t) b (tb_q t), b, err)
            | Inr t \<Rightarrow> post_tx_send b t) in Some (dec_ref q1, bad, ret)"
  have u: "umq_ub_post_tx b q = Option.bind (build_tx UMQ_BATCH_SIZE ?mx b ?t0) ?go"
    unfolding umq_ub_post_tx_def by (simp only: bd b not_True_eq_False if_False)
  obtain r where r2: "build_tx UMQ_BATCH_SIZE ?mx b ?t0 = Some r" and r3: "?go r = Some (t, bad, ret)"
    using iffD1[OF bind_eq_Some_conv p[unfolded u]] by (elim exE conjE) (rule that)
  note r = b r2 r3
  note F = fit[unfolded fit_tx_def Let_def]
  have hs: "distinct ?hs" "\<And>h. h \<in> set ?hs \<Longrightarrow> 0xFFFF < h \<and> h \<notin> busy"
    using F[THEN conjunct1] F[THEN conjunct2, THEN conjunct1] by simp_all
  from F[THEN conjunct2, THEN conjunct2] obtain c where
      c: "\<forall>h \<in> set ?hs. \<forall>e. q_bufs q h = Some e \<longrightarrow> fit_buf e \<and> opcode_consume_rqe (bp_opcode e) = c" ..
  have nb: "\<And>x. x \<in> busy \<Longrightarrow> x \<notin> set ?hs" using hs(2) by blast
  have B: "built ?hs c ?t0 (case r of Inl (_, u) \<Rightarrow> u | Inr u \<Rightarrow> u)"
    using build_tx_spec[OF r(2), of c] hs(1) c by simp
  show ?thesis
  proof (cases r)
    case (Inl x)
    then obtain err u where x: "r = Inl (err, u)" by (cases x) auto
    have t: "t = dec_ref (umq_ub_recover_tx_imm (tb_wrs u) b (tb_q u))" using r(3) x by auto
    note R = built_recover[where hs = ?hs and c = c and ?t0.0 = ?t0 and t = u and bad = b]
    show ?thesis unfolding posted_tx_def t using B x R nb by (intro exI[of _ "[]"]) auto
  next
    case (Inr u)
    obtain q1 where s: "post_tx_send b u = (q1, bad, ret)" "t = dec_ref q1" using r(3) Inr by (auto split: prod.splits)
    have e: "\<exists>e. q_bufs q b = Some e" using build_tx_first[OF r(2)[unfolded BATCH_Suc] r(1)] by simp
    have h: "?hs \<noteq> []" "hd ?hs = b" using e r(1) tx_heads_hd[of b q _ 63] unfolding BATCH_Suc by (auto simp del: tx_heads.simps)
    have n: "tb_wrs u \<noteq> []" "length (tb_wrs u) \<le> UMQ_BATCH_SIZE" using build_tx_length[of UMQ_BATCH_SIZE ?mx b ?t0 u] r Inr by auto
    obtain us where "sent us q q1" "\<forall>u \<in> set us. matches q1 u" "distinct (map wr_user_ctx us)" "wr_user_ctx ` set us \<subseteq> set ?hs"
        "\<forall>b. b \<notin> set ?hs \<longrightarrow> q_bufs q1 b = q_bufs q b"
      using post_tx_send_spec[where ?t0.0 = ?t0 and c = c, OF _ _ _ hs(1) h _ n s(1)] B Inr hs(2) en by auto
    then show ?thesis unfolding posted_tx_def s(2) using hs(2) nb by (intro exI[of _ us]) auto
  qed
qed

end
