(* ===== verification/UMQ_FlowPoll.thy ===== *)
theory UMQ_FlowPoll
  imports UMQ_FlowPost
begin

section \<open>Credit accounts across receiving and polling\<close>

text \<open>
  Posting receive buffers adds as many credits to \<open>due\<close> as buffers were posted, polling a receive completion adds the credits
  it carries to \<open>out\<close>, and polling a failed send gives back what the message had taken.
\<close>

text \<open>The parts of a buffer the accounts depend on.\<close>

definition core :: "umq_buf \<Rightarrow> umq_opcode \<times> u64" where
  "core e = (bp_opcode e, bp_imm_data e)"

definition same_core :: "u64 set \<Rightarrow> ub_queue \<Rightarrow> ub_queue \<Rightarrow> bool" where
  "same_core B q t = (\<forall>b. b \<notin> B \<longrightarrow> map_option core (q_bufs t b) = map_option core (q_bufs q b))"

lemma same_core_refl [simp]: "same_core B q q"
  by (simp add: same_core_def)

lemma same_core_trans: "same_core B q t \<Longrightarrow> same_core C t u \<Longrightarrow> same_core (B \<union> C) q u"
  by (simp add: same_core_def)

lemma same_core_mono: "same_core B q t \<Longrightarrow> B \<subseteq> C \<Longrightarrow> same_core C q t"
  by (auto simp: same_core_def)

lemma same_core_upd [simp]: "(\<And>e. core (f e) = core e) \<Longrightarrow> same_core B q (upd_buf b f q)"
  by (auto simp: same_core_def option.map_comp comp_def intro!: option.map_cong)

lemma same_core_upd_at: "same_core {b} q (upd_buf b f q)"
  by (simp add: same_core_def)

lemma same_core_upd_trans: "same_core {b} q t \<Longrightarrow> same_core {b} q (upd_buf b f t)"
  by (simp add: same_core_def)

lemma same_core_bufs: "q_bufs t = q_bufs q \<Longrightarrow> same_core B q t"
  by (simp add: same_core_def)

lemma matches_core: "same_core B q t \<Longrightarrow> wr_user_ctx w \<notin> B \<Longrightarrow> matches q w \<Longrightarrow> matches t w"
proof -
  assume a: "same_core B q t" "wr_user_ctx w \<notin> B" "matches q w"
  then obtain e where e: "q_bufs q (wr_user_ctx w) = Some e" "opcode_consume_rqe (bp_opcode e) = consuming w" "buf_grant e = grant w"
    by (auto simp: matches_def)
  then obtain e' where "q_bufs t (wr_user_ctx w) = Some e'" "core e' = core e" using a by (force simp: same_core_def)
  then show "matches t w" using e by (auto simp: matches_def core_def buf_grant_def)
qed

subsection \<open>Posting receive buffers\<close>

text \<open>Changes that only concern receive contexts and the linking of buffers.\<close>

definition rx_frame :: "ub_queue \<Rightarrow> ub_queue \<Rightarrow> bool" where
  "rx_frame q t = (q_fc t = q_fc q \<and> q_sq t = q_sq q \<and> q_rq t = q_rq q \<and> q_bound t = q_bound q \<and> q_feature t = q_feature q
     \<and> q_win_local t = q_win_local q \<and> q_win_remote t = q_win_remote q \<and> q_post_rx t = q_post_rx q \<and> same_core {} q t)"

lemma rx_frame_refl [simp]: "rx_frame q q"
  by (simp add: rx_frame_def)

lemma rx_frame_trans: "rx_frame q t \<Longrightarrow> rx_frame t u \<Longrightarrow> rx_frame q u"
  by (auto simp: rx_frame_def same_core_def)

lemma rx_frame_next [simp]: "rx_frame q (upd_buf b (\<lambda>e. e\<lparr>qbuf_next := x\<rparr>) q)"
  by (simp add: rx_frame_def core_def)

lemma rx_frame_put [simp]: "rx_frame q (queue_rx_buf_ctx_put c q)"
  by (simp add: rx_frame_def queue_rx_buf_ctx_put_def same_core_def)

lemma rx_frame_ctx [simp]: "rx_frame q (q\<lparr>q_ctx_buffer := f\<rparr>)" "rx_frame q (q\<lparr>q_idle := x, q_used := y\<rparr>)"
  by (simp_all add: rx_frame_def same_core_def)

lemma rx_frame_get: "queue_rx_buf_ctx_get q = (t, c) \<Longrightarrow> rx_frame q t"
  by (auto simp: queue_rx_buf_ctx_get_def split: list.splits)

lemma build_rx_frame:
  "build_rx n b t = Some r \<Longrightarrow> rx_frame (rb_q t) (rb_q (case r of Inl (_, u) \<Rightarrow> u | Inr u \<Rightarrow> u))
     \<and> (case r of Inr u \<Rightarrow> length (rb_wrs u) \<le> length (rb_wrs t) + n | _ \<Rightarrow> True)"
proof (induction n arbitrary: b t)
  case 0
  then show ?case by (auto split: if_splits)
next
  case (Suc n)
  show ?case
  proof (cases "b = 0")
    case False
    then obtain e where e: "q_bufs (rb_q t) b = Some e" using Suc.prems by (auto split: Option.bind_splits)
    obtain q1 c where g: "queue_rx_buf_ctx_get (rb_q t) = (q1, c)" by fastforce
    show ?thesis
    proof (cases c)
      case None
      then show ?thesis using Suc.prems False e g by auto
    next
      case (Some c)
      let ?q2 = "q1\<lparr>q_ctx_buffer := (q_ctx_buffer q1)(c := b)\<rparr>"
      have f2: "rx_frame (rb_q t) ?q2" using rx_frame_trans[OF rx_frame_get[OF g]] by simp
      have put: "rx_frame (rb_q t) (queue_rx_buf_ctx_put c ?q2)" using rx_frame_trans[OF f2] by simp
      have cut: "rx_frame (rb_q t) (upd_buf x (\<lambda>e. e\<lparr>qbuf_next := 0\<rparr>) ?q2)" for x using rx_frame_trans[OF f2] by simp
      obtain s where s: "collect_sges (unat (q_max_rx_sge ?q2)) ?q2 b (total_data_size e) (rb_last t) [] = Some s"
        using Suc.prems False e g Some by (auto simp: Let_def split: Option.bind_splits)
      show ?thesis
      proof (cases s)
        case (Inl y)
        then show ?thesis using Suc.prems False e g Some s put by (auto simp: Let_def)
      next
        case (Inr y)
        obtain sges b' rest lb where y: "y = (sges, b', rest, lb)" by (cases y) auto
        show ?thesis
        proof (cases "rest = 0")
          case False
          then show ?thesis using Suc.prems \<open>b \<noteq> 0\<close> e g Some s put Inr y by (auto simp: Let_def)
        next
          case True
          then have st: "build_rx n b' \<lparr>rb_q = upd_buf lb (\<lambda>e. e\<lparr>qbuf_next := 0\<rparr>) ?q2,
              rb_wrs = rb_wrs t @ [\<lparr>rwr_user_ctx = c, rwr_sges = sges\<rparr>], rb_last = lb\<rparr> = Some r"
            using Suc.prems \<open>b \<noteq> 0\<close> e g Some s Inr y by (auto simp: Let_def split: if_splits)
          show ?thesis using Suc.IH[OF st] rx_frame_trans[OF cut[of lb]] by (auto split: sum.splits)
        qed
      qed
    qed
  qed (use Suc.prems in auto)
qed

lemma process_bad_frame: "process_bad_wr_loop l ws q = Some (t, e) \<Longrightarrow> rx_frame q t"
proof (induction ws arbitrary: l q)
  case (Cons w ws)
  let ?f = "q_ctx_buffer q (rwr_user_ctx w)"
  let ?q1 = "if l \<noteq> 0 then upd_buf l (\<lambda>e. e\<lparr>qbuf_next := ?f\<rparr>) q else q"
  from Cons.prems obtain e' where "process_bad_wr_loop e' ws (queue_rx_buf_ctx_put (rwr_user_ctx w) ?q1) = Some (t, e)"
    by (auto simp: Let_def bind_eq_Some_conv)
  then have "rx_frame (queue_rx_buf_ctx_put (rwr_user_ctx w) ?q1) t" by (rule Cons.IH)
  moreover have "rx_frame q ?q1" by simp
  ultimately show ?case using rx_frame_trans rx_frame_put by blast
qed simp

lemma process_bad_wr_frame: "process_bad_wr ws b q = Some t \<Longrightarrow> rx_frame q t"
  by (auto simp: process_bad_wr_def bind_eq_Some_conv dest!: process_bad_frame intro: rx_frame_trans split: if_splits)

text \<open>The result of posting receive buffers: \<open>n\<close> new ones, and at most \<open>n\<close> more credits to announce.\<close>

definition posted_rx :: "ub_queue \<Rightarrow> ub_queue \<Rightarrow> bool" where
  "posted_rx q t = (\<exists>rs u. q_rq t = q_rq q @ rs \<and> rx_frame q u
     \<and> acct 0 0 0 (length rs) (u\<lparr>q_rq := q_rq q @ rs\<rparr>) t)"

lemma post_rx_inner_accounts:
  assumes p: "umq_ub_post_rx_inner_impl b q = Some (t, bad, ret)" and dev: "q_post_rx q = []"
  shows "\<exists>t0. posted_rx q t0 \<and> rx_frame t0 t"
proof -
  let ?t0 = "\<lparr>rb_q = q, rb_wrs = [], rb_last = 0\<rparr>"
  obtain r where r: "build_rx UMQ_BATCH_SIZE b ?t0 = Some r"
    using p by (auto simp: umq_ub_post_rx_inner_impl_def bind_eq_Some_conv split: if_splits)
  note F = build_rx_frame[OF r]
  show ?thesis
  proof (cases r)
    case (Inl x)
    obtain b' u where x: "x = (b', u)" by (cases x) auto
    have "rx_frame (rb_q u) t"
      using p r Inl x by (auto simp: umq_ub_post_rx_inner_impl_def bind_eq_Some_conv split: if_splits list.splits dest!: process_bad_wr_frame)
    then have "rx_frame q t" using F Inl x rx_frame_trans[of q "rb_q u" t] by simp
    moreover have "q\<lparr>q_rq := q_rq q\<rparr> = q" by simp
    then have "posted_rx q q" unfolding posted_rx_def by (intro exI[of _ "[]"] exI[of _ q]) simp
    ultimately show ?thesis by blast
  next
    case (Inr u)
    have fr: "rx_frame q (rb_q u)" and n: "length (rb_wrs u) \<le> 64" using F Inr by (simp_all add: UMQ_BATCH_SIZE_def)
    then have "q_post_rx (rb_q u) = []" "q_rq (rb_q u) = q_rq q" using dev by (simp_all add: rx_frame_def)
    then have t: "t = umq_ub_rq_posted_notifier_update (of_nat (length (rb_wrs u))) ((rb_q u)\<lparr>q_rq := q_rq q @ rb_wrs u\<rparr>)"
      using p r Inr by (auto simp: umq_ub_post_rx_inner_impl_def urma_post_jetty_recv_wr_def split: if_splits)
    have "unat (of_nat (length (rb_wrs u)) :: u16) = length (rb_wrs u)" using n by (simp add: unat_of_nat)
    then have a: "acct 0 0 0 (length (rb_wrs u)) ((rb_q u)\<lparr>q_rq := q_rq q @ rb_wrs u\<rparr>) t"
      using acct_notifier_update[of "of_nat (length (rb_wrs u))" "(rb_q u)\<lparr>q_rq := q_rq q @ rb_wrs u\<rparr>"] t by simp
    then have "q_rq t = q_rq q @ rb_wrs u" by (simp add: acct_def evolves_def keeps_def)
    then have "posted_rx q t" unfolding posted_rx_def using a fr by blast
    then show ?thesis using rx_frame_refl by blast
  qed
qed

subsection \<open>Memory import\<close>

lemma spent_same:
  assumes "q_fc t = q_fc q" "q_sq t = q_sq q" "q_rq t = q_rq q" "q_bound t = q_bound q" "q_feature t = q_feature q" "q_win_local t = q_win_local q"
    "q_win_remote t = q_win_remote q" "q_post_rx t = q_post_rx q" "q_ctx_buffer t = q_ctx_buffer q" "q_max_tx_sge t = q_max_tx_sge q"
  shows "spent 0 0 0 0 q t"
  using assms by (simp add: spent_def evolves_def keeps_def reads_ok_def grows_def out_def due_def)

lemma acct_write_imm:
  assumes "umq_ub_write_imm a l imm q = (t, ret)"
  shows "acct 0 (if ret = 0 then 1 else 0) 0 0 q t \<or> acct 0 0 0 0 q t"
proof (cases "q_bound q")
  case False
  then show ?thesis using assms by (simp add: umq_ub_write_imm_def)
next
  case True
  let ?w = "\<lparr>wr_user_ctx = 0xFFFF, wr_opcode = URMA_OPC_WRITE_IMM, wr_imm = imm, wr_flag = 0x50, wr_sges = [], wr_remote = Some (a, l, 0)\<rparr>"
  obtain q1 r where p: "urma_post_jetty_send_wr [?w] q = (q1, r)" by fastforce
  have t: "t = q1" "ret = (case r of None \<Rightarrow> 0 | Some (st, _) \<Rightarrow> - st)" using assms True p by (auto simp: umq_ub_write_imm_def)
  have "own_wr ?w" "consuming ?w" "grant ?w = 0" "\<not> win_read ?w"
    by (simp_all add: own_wr_def import_done_wr_def consuming_def grant_def win_read_def)
  then show ?thesis using t post_one_spec[OF p]
    by (cases r) (auto simp: acct_def evolves_def keeps_def reads_ok_def grows_def out_def due_def)
qed

lemma acct_import_done:
  assumes "umq_ub_import_mem_done m q = (t, ret)" and en: "fc_enabled (q_fc q)"
  shows "acct 0 0 0 0 q t"
proof -
  obtain q1 n where d: "umq_ub_window_dec 1 q = (q1, n)" by fastforce
  note D = acct_window_dec[OF d en]
  have n1: "n = 0 \<or> n = 1" using D(2) by (metis order_antisym_conv word_less_1 linorder_not_less)
  show ?thesis
  proof (cases "n = 0")
    case True
    then show ?thesis using assms(1) d D(1) by (simp add: umq_ub_import_mem_done_def)
  next
    case False
    then have n: "n = 1" using n1 by blast
    obtain q2 r where w: "umq_ub_write_imm (q_remote_notify_addr q1) 1 (mk_mem_imm IMM_TYPE_MEM_IMPORT_DONE (ucast m)) q1 = (q2, r)" by fastforce
    have t: "t = (if r \<noteq> 0 then umq_ub_window_inc 1 q2 else q2)" using assms(1) d w n by (auto simp: umq_ub_import_mem_done_def)
    have a: "acct 1 (if r = 0 then 1 else 0) 0 0 q q2"
      using acct_write_imm[OF w]
    proof
      assume "acct 0 (if r = 0 then 1 else 0) 0 0 q1 q2"
      from acct_trans[OF D(1) this] n show ?thesis by simp
    next
      assume "acct 0 0 0 0 q1 q2"
      from acct_mono[OF acct_trans[OF D(1) this], of 1 "if r = 0 then 1 else 0" 0 0] n show ?thesis by simp
    qed
    show ?thesis
    proof (cases "r = 0")
      case True
      then show ?thesis using acct_mono[OF a, of 0 0 0 0] t by simp
    next
      case False
      then show ?thesis using acct_mono[OF acct_trans[OF a acct_window_inc[of 1 q2]], of 0 0 0 0] t by simp
    qed
  qed
qed

lemma import_loop_accounts:
  "import_mem_loop n i ids q = (t, ret) \<Longrightarrow> fc_enabled (q_fc q) \<Longrightarrow> spent 0 0 0 0 q t \<and> q_bufs t = q_bufs q"
proof (induction n arbitrary: i q)
  case (Suc n)
  obtain q1 r where d: "umq_ub_import_mem_done (ids i) q = (q1, r)" by fastforce
  note A = acct_import_done[OF d Suc.prems(2)]
  have en: "fc_enabled (q_fc q1)" using A Suc.prems(2) by (simp add: acct_def evolves_def keeps_def)
  let ?q2 = "q1\<lparr>q_imported := (q_imported q1)(ids i := True)\<rparr>"
  have s2: "spent 0 0 0 0 q ?q2" using spent_trans[OF acct_spent[OF A] spent_same[of ?q2 q1]] by simp
  consider "t = q" | "import_mem_loop n (Suc i) ids q1 = (t, ret)" | "import_mem_loop n (Suc i) ids ?q2 = (t, ret)"
    using Suc.prems(1) d by (auto simp: Let_def split: if_splits)
  then show ?case
  proof cases
    case 1
    then show ?thesis by simp
  next
    case 2
    then show ?thesis using Suc.IH[of "Suc i" q1] en spent_trans[OF acct_spent[OF A]] acct_bufs[OF A] by fastforce
  next
    case 3
    then show ?thesis using Suc.IH[of "Suc i" ?q2] en spent_trans[OF s2] acct_bufs[OF A] by fastforce
  qed
qed simp

lemma import_mem_accounts:
  "umq_ub_data_plan_import_mem h q = (t, ret) \<Longrightarrow> fc_enabled (q_fc q) \<Longrightarrow> spent 0 0 0 0 q t \<and> q_bufs t = q_bufs q"
  by (auto simp: umq_ub_data_plan_import_mem_def split: if_splits dest: import_loop_accounts)

subsection \<open>Polling receive completions\<close>

definition cr_grant :: "urma_cr \<Rightarrow> nat" where
  "cr_grant cr = (if cr_opcode cr = URMA_CR_OPC_SEND_WITH_IMM \<and> fc_imm (cr_imm_data cr) then unat (imm_window (cr_imm_data cr)) else 0)"

lemma set_data_sizes_frame:
  assumes "set_data_sizes b rest q = Some t"
  shows "spent 0 0 0 0 q t \<and> same_core {} q t"
proof (rule set_data_sizes.raw_induct[where P = "\<lambda>b rest q t. spent 0 0 0 0 q t \<and> same_core {} q t", OF _ assms])
  fix sd b rest q t
  assume IH: "\<And>b rest q t. sd b rest q = Some t \<Longrightarrow> spent 0 0 0 0 q t \<and> same_core {} q t"
    and eq: "(if b = 0 \<or> rest = 0 then Some q
     else do { e \<leftarrow> q_bufs q b;
               sd (qbuf_next e) (rest - min rest (data_size e))
                 (upd_buf b (\<lambda>e. e\<lparr>data_size := min rest (data_size e)\<rparr>) q) }) = Some t"
  let ?u = "upd_buf b (\<lambda>e. e\<lparr>data_size := min rest (data_size e)\<rparr>) q"
  show "spent 0 0 0 0 q t \<and> same_core {} q t"
  proof (cases "b = 0 \<or> rest = 0")
    case False
    with eq obtain e :: umq_buf where "sd (qbuf_next e) (rest - min rest (data_size e)) ?u = Some t"
      by (auto simp: bind_eq_Some_conv)
    from IH[OF this] have "spent 0 0 0 0 ?u t" "same_core {} ?u t" by auto
    moreover have "same_core {} q ?u" by (simp add: core_def)
    ultimately show ?thesis using spent_trans[OF spent_upd_buf] same_core_trans[of "{}" q ?u "{}" t] by fastforce
  qed (use eq in auto)
qed

lemma on_rx_done_accounts:
  assumes r: "umq_ub_on_rx_done cr b st q = Some (t, st')" and en: "fc_enabled (q_fc q)" and op: "cr_opcode cr = URMA_CR_OPC_SEND_WITH_IMM"
  shows "spent 0 (cr_grant cr) 0 0 q t \<and> same_core {b} q t"
proof -
  let ?imm = "cr_imm_data cr"
  let ?q1 = "upd_buf b (\<lambda>e. e\<lparr>bp_umq_ctx := q_umq_ctx_table q (cr_local_id cr)\<rparr>) q"
  have s1: "spent 0 0 0 0 q ?q1" "same_core {b} q ?q1" by (simp_all add: core_def)
  have upd: "spent 0 0 0 0 u (upd_buf b f u)" "same_core {b} u (upd_buf b f u)" for f u by (simp_all add: same_core_upd_at)
  have tr: "same_core {b} q u" if "same_core {b} q v" "same_core {b} v u" for u v
    using same_core_trans[OF that] by simp
  have en1: "fc_enabled (q_fc ?q1)" using en by simp
  obtain e where e: "q_bufs q b = Some e" using r op by (auto simp: umq_ub_on_rx_done_def bind_eq_Some_conv)
  consider (user) "\<not> imm_private ?imm" | (fc) "imm_private ?imm" "imm_type ?imm = IMM_TYPE_FLOW_CONTROL"
    | (mem) "imm_private ?imm" "imm_type ?imm \<noteq> IMM_TYPE_FLOW_CONTROL" "imm_type ?imm = IMM_TYPE_MEM \<and> imm_sub_type ?imm = IMM_TYPE_MEM_IMPORT"
    | (other) "imm_private ?imm" "imm_type ?imm \<noteq> IMM_TYPE_FLOW_CONTROL" "\<not> (imm_type ?imm = IMM_TYPE_MEM \<and> imm_sub_type ?imm = IMM_TYPE_MEM_IMPORT)"
    by blast
  then show ?thesis
  proof cases
    case user
    then have "t = upd_buf b (\<lambda>e. e\<lparr>bp_imm_data := ?imm\<rparr>) ?q1" "cr_grant cr = 0"
      using r op e by (auto simp: umq_ub_on_rx_done_def Let_def cr_grant_def fc_imm_def)
    then show ?thesis using spent_trans[OF s1(1) upd(1)] tr[OF s1(2) upd(2)] by simp
  next
    case fc
    let ?q2 = "umq_ub_window_inc (imm_window ?imm) ?q1"
    have g: "cr_grant cr = unat (imm_window ?imm)" using fc op by (simp add: cr_grant_def fc_imm_def)
    have t: "t = (if imm_in_user_buf ?imm then upd_buf b (\<lambda>e. e\<lparr>bp_opcode := UMQ_OPC_SEND, bp_imm_data := 0\<rparr>) ?q2 else ?q2)"
      using r op e fc by (auto simp: umq_ub_on_rx_done_def Let_def)
    have a: "spent 0 (cr_grant cr) 0 0 q ?q2" "same_core {b} q ?q2"
      using spent_trans[OF s1(1) acct_spent[OF acct_window_inc[of "imm_window ?imm" ?q1]]] g
        tr[OF s1(2) same_core_bufs[OF acct_bufs[OF acct_window_inc[of "imm_window ?imm" ?q1]]]] by simp_all
    show ?thesis unfolding t using a spent_trans[OF a(1) upd(1)] tr[OF a(2) upd(2)] by simp
  next
    case mem
    obtain q2 ret where m: "umq_ub_data_plan_import_mem (buf_head e) ?q1 = (q2, ret)" by fastforce
    have "t = q2" "cr_grant cr = 0" using r op e mem m by (auto simp: umq_ub_on_rx_done_def Let_def cr_grant_def fc_imm_def)
    then show ?thesis
      using import_mem_accounts[OF m en1] spent_trans[OF s1(1)] tr[OF s1(2) same_core_bufs[of q2 ?q1]] by fastforce
  next
    case other
    then have "t = ?q1" "cr_grant cr = 0" using r op e by (auto simp: umq_ub_on_rx_done_def Let_def cr_grant_def fc_imm_def)
    then show ?thesis using s1 by simp
  qed
qed

lemma process_rx_accounts:
  assumes r: "process_rx_msg cr b q = Some (t, cont, st)" and en: "fc_enabled (q_fc q)" and pro: "q_feature q AND UMQ_FEATURE_API_PRO \<noteq> 0"
  shows "spent 0 (cr_grant cr) 0 0 q t \<and> same_core {b} q t"
proof (cases "cr_opcode cr")
  case URMA_CR_OPC_SEND
  then have "t = upd_buf b (\<lambda>e. e\<lparr>bp_umq_ctx := q_umq_ctx_table q (cr_local_id cr)\<rparr>) q" using r by (simp add: process_rx_msg_def Let_def)
  then show ?thesis using URMA_CR_OPC_SEND by (simp add: cr_grant_def same_core_upd_at)
next
  case URMA_CR_OPC_SEND_WITH_IMM
  then show ?thesis using r on_rx_done_accounts[OF _ en] by (auto simp: process_rx_msg_def Let_def bind_eq_Some_conv)
next
  case URMA_CR_OPC_SEND_WITH_INV
  then show ?thesis using r by (simp add: process_rx_msg_def Let_def cr_grant_def)
next
  case URMA_CR_OPC_WRITE_WITH_IMM
  then have "cr_grant cr = 0" by (simp add: cr_grant_def)
  then show ?thesis using r URMA_CR_OPC_WRITE_WITH_IMM pro
    by (auto simp: process_rx_msg_def Let_def same_core_upd_at same_core_bufs intro!: spent_same split: if_splits)
qed

lemma poll_rx_cr_accounts:
  assumes r: "poll_rx_cr cr q = Some (t, bs)" and en: "fc_enabled (q_fc q)" and pro: "q_feature q AND UMQ_FEATURE_API_PRO \<noteq> 0"
  shows "spent 0 (cr_grant cr) 0 0 q t \<and> same_core {q_ctx_buffer q (cr_user_ctx cr)} q t"
proof -
  let ?q1 = "queue_rx_buf_ctx_put (cr_user_ctx cr) q" and ?b = "q_ctx_buffer q (cr_user_ctx cr)"
  have s1: "spent 0 0 0 0 q ?q1" "q_bufs ?q1 = q_bufs q" "q_fc ?q1 = q_fc q" "q_feature ?q1 = q_feature q"
    by (auto simp: queue_rx_buf_ctx_put_def intro: spent_same)
  obtain q2 cont st where p: "process_rx_msg cr ?b ?q1 = Some (q2, cont, st)"
    using r by (auto simp: poll_rx_cr_def umq_get_buf_by_user_ctx_def bind_eq_Some_conv)
  have P: "spent 0 (cr_grant cr) 0 0 q q2" "same_core {?b} q q2"
    using process_rx_accounts[OF p] s1 en pro spent_trans[OF s1(1)] same_core_trans[OF same_core_bufs[OF s1(2), of "{?b}"], of "{?b}" q2] by auto
  let ?q3 = "upd_buf ?b (\<lambda>e. e\<lparr>io_direction := UMQ_IO_RX, buf_status := st\<rparr>) q2"
  have P3: "spent 0 (cr_grant cr) 0 0 q ?q3" "same_core {?b} q ?q3"
    using spent_trans[OF P(1) spent_upd_buf] same_core_upd_trans[OF P(2)] by auto
  consider "t = q2" | "t = ?q3" | q4 where "set_data_sizes ?b (cr_completion_len cr)
      (upd_buf ?b (\<lambda>e. e\<lparr>total_data_size := cr_completion_len cr\<rparr>) ?q3) = Some q4" "t = q4"
    using r p by (auto simp: poll_rx_cr_def umq_get_buf_by_user_ctx_def bind_eq_Some_conv Let_def split: if_splits)
  then show ?thesis
  proof cases
    case (3 q4)
    let ?q' = "upd_buf ?b (\<lambda>e. e\<lparr>total_data_size := cr_completion_len cr\<rparr>) ?q3"
    have "spent 0 (cr_grant cr) 0 0 q ?q'" "same_core {?b} q ?q'"
      using spent_trans[OF P3(1) spent_upd_buf] same_core_upd_trans[OF P3(2)] by auto
    then show ?thesis using set_data_sizes_frame[OF 3(1)] 3(2) spent_trans[of 0 _ 0 0 q ?q'] same_core_trans[of "{?b}" q ?q' "{}" q4] by fastforce
  qed (use P P3 in auto)
qed

lemma evolves_keeps:
  assumes "evolves q t"
  shows "fc_enabled (q_fc t) = fc_enabled (q_fc q)" "q_feature t = q_feature q" "q_ctx_buffer t = q_ctx_buffer q" "q_bound t = q_bound q"
    "q_post_rx t = q_post_rx q" "q_rq t = q_rq q" "q_win_remote t = q_win_remote q"
  using assms by (auto simp: evolves_def keeps_def)

lemma spent_evolves: "spent a b c d q t \<Longrightarrow> evolves q t"
  by (simp add: spent_def)

lemma poll_rx_loop_accounts:
  "poll_loop poll_rx_cr crs q = Some (t, bs) \<Longrightarrow> fc_enabled (q_fc q) \<Longrightarrow> q_feature q AND UMQ_FEATURE_API_PRO \<noteq> 0 \<Longrightarrow>
   spent 0 (sum_list (map cr_grant crs)) 0 0 q t \<and> same_core ((\<lambda>cr. q_ctx_buffer q (cr_user_ctx cr)) ` set crs) q t"
proof (induction crs arbitrary: q bs)
  case (Cons cr crs)
  obtain q1 b1 b2 where h: "poll_rx_cr cr q = Some (q1, b1)" and r: "poll_loop poll_rx_cr crs q1 = Some (t, b2)"
    using Cons.prems(1) by (auto simp: bind_eq_Some_conv)
  note A = poll_rx_cr_accounts[OF h Cons.prems(2,3)]
  note K = evolves_keeps[OF spent_evolves[OF A[THEN conjunct1]]]
  have B: "spent 0 (sum_list (map cr_grant crs)) 0 0 q1 t" "same_core ((\<lambda>cr. q_ctx_buffer q1 (cr_user_ctx cr)) ` set crs) q1 t"
    using Cons.IH[OF r] K Cons.prems(2,3) by auto
  show ?case
    using spent_trans[OF A[THEN conjunct1] B(1)] same_core_trans[OF A[THEN conjunct2] B(2)] K(3) by simp
qed simp

lemma report_incomplete_frame:
  "report_incomplete_rx_loop n q = (t, bs) \<Longrightarrow> spent 0 0 0 0 q t \<and> same_core {} q t"
proof (induction n arbitrary: q bs)
  case (Suc n)
  obtain q1 c where f: "queue_rx_buf_ctx_flush q = (q1, c)" by fastforce
  have s: "spent 0 0 0 0 q q1" "same_core {} q q1" "q_ctx_buffer q1 = q_ctx_buffer q"
    using f by (auto simp: queue_rx_buf_ctx_flush_def queue_rx_buf_ctx_put_def same_core_def split: list.splits if_splits intro: spent_same)
  show ?case
  proof (cases "c = 0")
    case True
    then show ?thesis using Suc.prems f s by simp
  next
    case False
    let ?u = "upd_buf (q_ctx_buffer q1 c) (\<lambda>e. e\<lparr>io_direction := UMQ_IO_RX, buf_status := UMQ_BUF_WR_FLUSH_ERR\<rparr>) q1"
    obtain bs' where r: "report_incomplete_rx_loop n ?u = (t, bs')"
      using Suc.prems f False by (auto simp: Let_def split: prod.splits)
    have "spent 0 0 0 0 q ?u" "same_core {} q ?u"
      using spent_trans[OF s(1) spent_upd_buf] same_core_trans[OF s(2) same_core_upd, of "\<lambda>e. e\<lparr>io_direction := UMQ_IO_RX, buf_status := UMQ_BUF_WR_FLUSH_ERR\<rparr>" "{}"]
      by (auto simp: core_def)
    then show ?thesis using Suc.IH[OF r] spent_trans[of 0 0 0 0 q ?u] same_core_trans[of "{}" q ?u "{}" t] by fastforce
  qed
qed simp

lemma report_frame:
  assumes "umq_report_incomplete_rx n q = (t, bs)"
  shows "spent 0 0 0 0 q t \<and> same_core {} q t"
proof -
  obtain q1 xs where l: "report_incomplete_rx_loop n q = (q1, xs)" by fastforce
  note F = report_incomplete_frame[OF l]
  have "t = q \<or> t = q1 \<or> t = q1\<lparr>q_rx_flush_done := True\<rparr>"
    using assms l by (auto simp: umq_report_incomplete_rx_def split: if_splits)
  moreover have "spent 0 0 0 0 q (q1\<lparr>q_rx_flush_done := True\<rparr>)"
    using spent_trans[OF F[THEN conjunct1] spent_same[of "q1\<lparr>q_rx_flush_done := True\<rparr>" q1]] by simp
  ultimately show ?thesis using F by (auto simp: same_core_def)
qed

lemma ref_spent [simp]: "spent a b c d (inc_ref q) t = spent a b c d q t" "spent a b c d q (dec_ref t) = spent a b c d q t"
  "same_core B (inc_ref q) t = same_core B q t" "same_core B q (dec_ref t) = same_core B q t"
  "q_feature (inc_ref q) = q_feature q" "q_ctx_buffer (inc_ref q) = q_ctx_buffer q" "q_state (inc_ref q) = q_state q"
  by (simp_all add: inc_ref_def dec_ref_def spent_def evolves_def keeps_def reads_ok_def grows_def out_def due_def same_core_def)

lemma poll_rx_accounts:
  assumes p: "umq_ub_poll_rx (Inr crs) n q = Some (t, r)" and en: "fc_enabled (q_fc q)" and pro: "q_feature q AND UMQ_FEATURE_API_PRO \<noteq> 0"
    and m: "m = (if q_state q = QUEUE_STATE_ERR then 0 else min n UMQ_POST_POLL_BATCH)"
  shows "spent 0 (sum_list (map cr_grant (take m crs))) 0 0 q t"
    "same_core ((\<lambda>cr. q_ctx_buffer q (cr_user_ctx cr)) ` set (take m crs)) q t"
proof -
  have "spent 0 (sum_list (map cr_grant (take m crs))) 0 0 q t \<and> same_core ((\<lambda>cr. q_ctx_buffer q (cr_user_ctx cr)) ` set (take m crs)) q t"
  proof (cases "n = 0")
    case True
    then show ?thesis using p m by (simp add: umq_ub_poll_rx_def)
  next
    case n: False
    show ?thesis
    proof (cases "q_state q = QUEUE_STATE_ERR")
      case True
      obtain q1 bs where i: "umq_report_incomplete_rx (min n UMQ_POST_POLL_BATCH) (inc_ref q) = (q1, bs)" by fastforce
      then have "spent 0 0 0 0 (inc_ref q) q1 \<and> same_core {} (inc_ref q) q1"
        by (rule report_frame)
      moreover have "t = dec_ref q1" using p n True i by (simp add: umq_ub_poll_rx_def)
      ultimately show ?thesis using True m by simp
    next
      case False
      then obtain q1 bs where "poll_loop poll_rx_cr (take m crs) (inc_ref q) = Some (q1, bs)" "t = dec_ref q1"
        using p n m by (auto simp: umq_ub_poll_rx_def bind_eq_Some_conv)
      then show ?thesis using poll_rx_loop_accounts[of "take m crs" "inc_ref q" q1 bs] en pro by simp
    qed
  qed
  then show "spent 0 (sum_list (map cr_grant (take m crs))) 0 0 q t"
    "same_core ((\<lambda>cr. q_ctx_buffer q (cr_user_ctx cr)) ` set (take m crs)) q t" by blast+
qed

subsection \<open>Polling send completions\<close>

lemma on_tx_done_accounts:
  fixes failed
  defines "n \<equiv> (if failed then 1 else 0 :: nat)"
  assumes m: "matches q w" and b: "wr_user_ctx w = b" and e: "q_bufs q b = Some e"
  shows "spent 0 (if consuming w then n else 0) 0 (n * grant w) q (umq_ub_on_tx_done b e failed q)
    \<and> same_core {b} q (umq_ub_on_tx_done b e failed q)"
proof -
  have c: "opcode_consume_rqe (bp_opcode e) = consuming w" "buf_grant e = grant w" using m b e by (auto simp: matches_def)
  let ?q1 = "if failed \<and> opcode_consume_rqe (bp_opcode e) then umq_ub_window_inc 1 q else q"
  have a1: "acct 0 (if consuming w then n else 0) 0 0 q ?q1"
    using acct_window_inc[of 1 q] c by (auto simp: n_def)
  show ?thesis
  proof (cases "bp_opcode e = UMQ_OPC_SEND_IMM \<and> fc_imm (bp_imm_data e)")
    case False
    then have "umq_ub_on_tx_done b e failed q = ?q1" "grant w = 0" using c by (auto simp: umq_ub_on_tx_done_def buf_grant_def Let_def)
    then show ?thesis using acct_spent[OF a1] same_core_bufs[OF acct_bufs[OF a1]] by simp
  next
    case True
    let ?q2 = "if failed then umq_ub_rq_posted_notifier_inc (imm_window (bp_imm_data e)) ?q1 else ?q1"
    have t: "umq_ub_on_tx_done b e failed q = upd_buf b (\<lambda>e. e\<lparr>bp_opcode := UMQ_OPC_SEND, bp_imm_data := 0\<rparr>) ?q2"
      using True by (simp add: umq_ub_on_tx_done_def Let_def)
    have "grant w = unat (imm_window (bp_imm_data e))" using c(2) True by (simp add: buf_grant_def)
    then have "acct 0 0 0 (n * grant w) ?q1 ?q2" by (simp add: n_def acct_notifier_inc)
    note a2 = acct_trans[OF a1 this]
    show ?thesis unfolding t
      using spent_trans[OF acct_spent[OF a2] spent_upd_buf] same_core_upd_trans[OF same_core_bufs[OF acct_bufs[OF a2], of "{b}"]] by simp
  qed
qed

lemma poll_tx_buf_accounts:
  fixes cr
  defines "n \<equiv> (if cr_status cr \<noteq> URMA_CR_SUCCESS then 1 else 0 :: nat)"
  assumes p: "poll_tx_buf cr q = Some (t, bs)" and m: "matches q w" and b: "wr_user_ctx w = cr_user_ctx cr"
  shows "spent 0 (if consuming w then n else 0) 0 (n * grant w) q t \<and> same_core {wr_user_ctx w} q t"
proof -
  let ?b = "cr_user_ctx cr" and ?u = "upd_buf (cr_user_ctx cr) (\<lambda>e. e\<lparr>io_direction := UMQ_IO_TX, buf_status := cr_status cr\<rparr>) q"
  obtain e where e: "q_bufs q ?b = Some e" using p by (auto simp: poll_tx_buf_def Let_def bind_eq_Some_conv)
  let ?e = "e\<lparr>io_direction := UMQ_IO_TX, buf_status := cr_status cr\<rparr>" and ?f = "cr_status cr \<noteq> URMA_CR_SUCCESS"
  let ?q1 = "umq_ub_on_tx_done ?b e ?f ?u"
  have eq: "umq_ub_on_tx_done ?b e ?f ?u = umq_ub_on_tx_done ?b ?e ?f ?u" by (simp add: umq_ub_on_tx_done_def Let_def)
  have "same_core {} q ?u" by (simp add: core_def)
  then have mu: "matches ?u w" using matches_core[OF _ _ m] by blast
  have A: "spent 0 (if consuming w then n else 0) 0 (n * grant w) ?u ?q1" "same_core {?b} ?u ?q1"
    using on_tx_done_accounts[OF mu b, of ?e ?f] e unfolding eq n_def by simp_all
  have A': "spent 0 (if consuming w then n else 0) 0 (n * grant w) q ?q1" "same_core {?b} q ?q1"
    using spent_trans[OF spent_upd_buf A(1)] same_core_trans[OF same_core_upd_at A(2)] by auto
  have "t = ?q1 \<or> t = umq_buf_free ?b ?q1"
    using p e by (auto simp: poll_tx_buf_def process_tx_msg_def Let_def bind_eq_Some_conv split: if_splits)
  then show ?thesis
    using A' spent_trans[OF A'(1) spent_same[of "umq_buf_free ?b ?q1" ?q1]] same_core_trans[OF A'(2) same_core_bufs[of "umq_buf_free ?b ?q1" ?q1 "{}"]] b
    by (auto simp: umq_buf_free_def)
qed

lemma ucast_16_64: "ucast (ucast (k :: u16) :: u64) = k"
  by (rule bit_word_eqI) (simp add: bit_simps)

text \<open>A completion other than that of the read of the initial window.\<close>

lemma poll_tx_cr_accounts:
  fixes cr
  defines "n \<equiv> (if cr_status cr \<notin> {URMA_CR_SUCCESS, URMA_CR_WR_SUSPEND_DONE, URMA_CR_WR_FLUSH_ERR_DONE} then 1 else 0 :: nat)"
  assumes p: "poll_tx_cr cr q = Some (t, bs)" and b: "wr_user_ctx w = cr_user_ctx cr" "cr_user_ctx cr \<noteq> 0"
    and m: "0xFFFF < cr_user_ctx cr \<Longrightarrow> matches q w" and own: "cr_user_ctx cr \<le> 0xFFFF \<Longrightarrow> n = 1 \<Longrightarrow> \<exists>k. w = fc_message_wr k"
  shows "spent 0 (if consuming w then n else 0) 0 (n * grant w) q t \<and> same_core {wr_user_ctx w} q t"
proof -
  consider (marker) "cr_status cr \<in> {URMA_CR_WR_SUSPEND_DONE, URMA_CR_WR_FLUSH_ERR_DONE}"
    | (small) "cr_status cr \<notin> {URMA_CR_WR_SUSPEND_DONE, URMA_CR_WR_FLUSH_ERR_DONE}" "cr_user_ctx cr \<le> 0xFFFF"
    | (buf) "cr_status cr \<notin> {URMA_CR_WR_SUSPEND_DONE, URMA_CR_WR_FLUSH_ERR_DONE}" "0xFFFF < cr_user_ctx cr" by fastforce
  then show ?thesis
  proof cases
    case marker
    then have "n = 0" "t = q \<or> t = q\<lparr>q_tx_flush_done := True\<rparr>" using p by (auto simp: n_def poll_tx_cr_def Let_def split: if_splits)
    then show ?thesis by (auto intro: spent_same simp: same_core_def)
  next
    case small
    show ?thesis
    proof (cases "cr_status cr = URMA_CR_SUCCESS")
      case True
      then have "n = 0" "t = q" using p b(2) small by (auto simp: n_def poll_tx_cr_def Let_def split: if_splits)
      then show ?thesis by simp
    next
      case False
      then have n: "n = 1" using small by (simp add: n_def)
      then obtain k where k: "w = fc_message_wr k" using own small by blast
      then have c: "cr_user_ctx cr = ucast k" using b by simp
      then have uc: "ucast (cr_user_ctx cr) = k" by (simp add: ucast_16_64)
      have "t = umq_ub_rq_posted_notifier_inc k (umq_ub_window_inc 1 q)"
        using p small False b(2) uc by (auto simp: poll_tx_cr_def Let_def split: if_splits)
      then have a: "acct 0 1 0 (unat k) q t" using acct_trans[OF acct_window_inc[of 1 q] acct_notifier_inc[of k]] by simp
      show ?thesis using acct_spent[OF a] same_core_bufs[OF acct_bufs[OF a]] n k by simp
    qed
  next
    case buf
    then have "poll_tx_buf cr q = Some (t, bs)" using p b(2) by (auto simp: poll_tx_cr_def Let_def not_le split: if_splits)
    note A = poll_tx_buf_accounts[OF this m[OF buf(2)] b(1)]
    have "n = (if cr_status cr \<noteq> URMA_CR_SUCCESS then 1 else 0)" using buf(1) by (simp add: n_def)
    then show ?thesis using A by (simp only:)
  qed
qed

end
