(* ===== verification/UMQ_FlowSystem.thy ===== *)
theory UMQ_FlowSystem
  imports UMQ_FlowPoll
begin

section \<open>Two queues and the network between them\<close>

text \<open>
  Two bound queues with flow control, on a reliable connection that delivers the requests of a queue in order.
  A step is a call of the application (post, poll), an event of the device (a request is delivered,
  completed or fails), a change of buffers that are not in flight, or the bind of a queue.

  What is assumed of the device: a message that uses up a receive buffer takes the oldest one of the peer; a request reported as
  failed was not delivered; receive requests are accepted.  The calls the accounts do not cover are
  excluded by \<open>fit_tx\<close>, by the condition that the acknowledgement of a memory import does not fail, and by the
  condition that a buffer is not used for sending and receiving at the same time.
\<close>

record fc_side =
  sd_q :: ub_queue
  sd_txc :: "(urma_cr \<times> urma_jfs_wr) list"
  sd_rxc :: "urma_cr list"

type_synonym fc_net = "bool \<Rightarrow> fc_side"

definition in_flight :: "fc_side \<Rightarrow> urma_jfs_wr list" where
  "in_flight x = map snd (sd_txc x) @ q_sq (sd_q x)"

definition big :: "urma_jfs_wr \<Rightarrow> bool" where
  "big w = (0xFFFF < wr_user_ctx w)"

definition busy :: "fc_side \<Rightarrow> u64 set" where
  "busy x = wr_user_ctx ` set (filter big (in_flight x))"

definition cr_failed :: "urma_cr \<Rightarrow> bool" where
  "cr_failed cr = (cr_status cr \<notin> {URMA_CR_SUCCESS, URMA_CR_WR_SUSPEND_DONE, URMA_CR_WR_FLUSH_ERR_DONE})"

text \<open>The completion a delivered message leaves at the receiver.\<close>

definition recv_cr :: "urma_jfs_wr \<Rightarrow> urma_jfr_wr \<Rightarrow> urma_cr \<Rightarrow> bool" where
  "recv_cr w r cr = (cr_user_ctx cr = rwr_user_ctx r \<and> cr_imm_data cr = wr_imm w \<and>
     cr_opcode cr = (case wr_opcode w of
       URMA_OPC_SEND \<Rightarrow> URMA_CR_OPC_SEND | URMA_OPC_SEND_IMM \<Rightarrow> URMA_CR_OPC_SEND_WITH_IMM | _ \<Rightarrow> URMA_CR_OPC_WRITE_WITH_IMM))"

inductive fc_step :: "fc_net \<Rightarrow> fc_net \<Rightarrow> bool" where
  post_tx: "umq_ub_post_tx b (sd_q (S s)) = Some (t, bad, ret) \<Longrightarrow> fit_tx (busy (S s)) (sd_q (S s)) b
    \<Longrightarrow> fc_step S (S(s := (S s)\<lparr>sd_q := t\<rparr>))"
| post_rx: "umq_ub_post_rx b (sd_q (S s)) = Some (t, bad, ret) \<Longrightarrow> fc_step S (S(s := (S s)\<lparr>sd_q := t\<rparr>))"
| poll_tx: "umq_ub_poll_tx (Inr (map fst (sd_txc (S s)))) fcs n (sd_q (S s)) = Some (t, r)
    \<Longrightarrow> fc_step S (S(s := (S s)\<lparr>sd_q := t, sd_txc := drop (min n UMQ_POST_POLL_BATCH) (sd_txc (S s))\<rparr>))"
| poll_rx: "umq_ub_poll_rx (Inr (sd_rxc (S s))) n (sd_q (S s)) = Some (t, r)
    \<Longrightarrow> m = (if q_state (sd_q (S s)) = QUEUE_STATE_ERR then 0 else min n UMQ_POST_POLL_BATCH)
    \<Longrightarrow> (\<And>cr. cr \<in> set (take m (sd_rxc (S s))) \<Longrightarrow> q_ctx_buffer (sd_q (S s)) (cr_user_ctx cr) \<notin> busy (S s))
    \<Longrightarrow> fc_step S (S(s := (S s)\<lparr>sd_q := t, sd_rxc := drop m (sd_rxc (S s))\<rparr>))"
| deliver: "q_sq (sd_q (S s)) = w # ws \<Longrightarrow> consuming w \<Longrightarrow> q_rq (sd_q (S (\<not> s))) = r # rs \<Longrightarrow> recv_cr w r rcr
    \<Longrightarrow> cs = [] \<or> (\<exists>cr. cs = [(cr, w)] \<and> cr_user_ctx cr = wr_user_ctx w \<and> cr_status cr = URMA_CR_SUCCESS)
    \<Longrightarrow> fc_step S (S(s := (S s)\<lparr>sd_q := (sd_q (S s))\<lparr>q_sq := ws\<rparr>, sd_txc := sd_txc (S s) @ cs\<rparr>,
         (\<not> s) := (S (\<not> s))\<lparr>sd_q := (sd_q (S (\<not> s)))\<lparr>q_rq := rs\<rparr>, sd_rxc := sd_rxc (S (\<not> s)) @ [rcr]\<rparr>))"
| complete: "q_sq (sd_q (S s)) = w # ws \<Longrightarrow> \<not> consuming w
    \<Longrightarrow> (cs = [] \<and> \<not> win_read w) \<or> (\<exists>cr. cs = [(cr, w)] \<and> cr_user_ctx cr = wr_user_ctx w \<and> cr_status cr = URMA_CR_SUCCESS)
    \<Longrightarrow> v = (if win_read w then q_win_local (sd_q (S (\<not> s))) else q_win_remote (sd_q (S s)))
    \<Longrightarrow> fc_step S (S(s := (S s)\<lparr>sd_q := (sd_q (S s))\<lparr>q_sq := ws, q_win_remote := v\<rparr>, sd_txc := sd_txc (S s) @ cs\<rparr>))"
| fail: "q_sq (sd_q (S s)) = w # ws \<Longrightarrow> \<not> import_done_wr w \<Longrightarrow> cr_user_ctx cr = wr_user_ctx w \<Longrightarrow> cr_failed cr
    \<Longrightarrow> fc_step S (S(s := (S s)\<lparr>sd_q := (sd_q (S s))\<lparr>q_sq := ws\<rparr>, sd_txc := sd_txc (S s) @ [(cr, w)]\<rparr>))"
| device: "fc_step S (S(s := (S s)\<lparr>sd_q := (sd_q (S s))\<lparr>q_post := ps\<rparr>\<rparr>))"
| application: "(\<And>b. b \<in> busy (S s) \<Longrightarrow> f b = q_bufs (sd_q (S s)) b)
    \<Longrightarrow> fc_step S (S(s := (S s)\<lparr>sd_q := (sd_q (S s))\<lparr>q_bufs := f\<rparr>\<rparr>))"
| bind: "umq_ub_window_init (q_fc (sd_q (S s))) addr len rx tx = (fc, True)
    \<Longrightarrow> fc_step S (S(s := (S s)\<lparr>sd_q := (sd_q (S s))\<lparr>q_fc := fc, q_bound := True\<rparr>\<rparr>))"

definition fc_init :: "fc_net \<Rightarrow> bool" where
  "fc_init S = (\<forall>s. let x = S s; q = sd_q x in
     (\<exists>rx tx cfg. q_fc q = umq_ub_flow_control_init rx tx (q_feature q) cfg)
     \<and> q_feature q AND UMQ_FEATURE_ENABLE_FLOW_CONTROL \<noteq> 0 \<and> q_feature q AND UMQ_FEATURE_API_PRO \<noteq> 0
     \<and> \<not> q_bound q \<and> q_sq q = [] \<and> q_rq q = [] \<and> q_win_local q = 0 \<and> q_win_remote q = 0 \<and> q_post_rx q = []
     \<and> sd_txc x = [] \<and> sd_rxc x = [])"

subsection \<open>The invariant\<close>

definition fsends :: "(urma_cr \<times> urma_jfs_wr) list \<Rightarrow> nat" where
  "fsends xs = sum_list (map (\<lambda>(cr, w). if cr_failed cr \<and> consuming w then 1 else 0) xs)"

definition fgrants :: "(urma_cr \<times> urma_jfs_wr) list \<Rightarrow> nat" where
  "fgrants xs = sum_list (map (\<lambda>(cr, w). if cr_failed cr then grant w else 0) xs)"

definition reads :: "fc_side \<Rightarrow> nat" where
  "reads x = win_reads (in_flight x)"

text \<open>The side has taken over the initial window of its peer.\<close>

definition taken :: "fc_side \<Rightarrow> bool" where
  "taken x = (fc_remote_get (q_fc (sd_q x)) \<and> reads x = 0)"

definition sending :: "fc_side \<Rightarrow> nat" where
  "sending x = out (sd_q x) + fsends (sd_txc x) + sum_list (map cr_grant (sd_rxc x))"

definition owing :: "fc_side \<Rightarrow> nat" where
  "owing x = due (sd_q x) + fgrants (sd_txc x)"

definition read_done :: "fc_side \<Rightarrow> bool" where
  "read_done x = (\<exists>(cr, w) \<in> set (sd_txc x). win_read w \<and> \<not> cr_failed cr)"

definition side_ok :: "fc_side \<Rightarrow> bool" where
  "side_ok x = (let q = sd_q x in fc_enabled (q_fc q) \<and> q_feature q AND UMQ_FEATURE_API_PRO \<noteq> 0 \<and> q_post_rx q = []
     \<and> (\<forall>w \<in> set (in_flight x). if big w then matches q w else own_wr w)
     \<and> distinct (map wr_user_ctx (filter big (in_flight x)))
     \<and> (\<forall>(cr, w) \<in> set (sd_txc x). cr_user_ctx cr = wr_user_ctx w \<and> cr_status cr \<notin> {URMA_CR_WR_SUSPEND_DONE, URMA_CR_WR_FLUSH_ERR_DONE}
          \<and> (cr_failed cr \<longrightarrow> \<not> import_done_wr w))
     \<and> reads x \<le> (if fc_remote_get (q_fc q) then 1 else 0)
     \<and> (fc_local_set (q_fc q) \<or> q_win_local q = 0))"

text \<open>
  \<open>x\<close> sends to \<open>y\<close>: the credits of \<open>x\<close>, its messages under way and everything \<open>y\<close> still owes it
  are covered by the receive buffers \<open>y\<close> has posted.
\<close>

definition covered :: "fc_side \<Rightarrow> fc_side \<Rightarrow> bool" where
  "covered x y = (sending x + owing y \<le> length (q_rq (sd_q y)) + (if taken x then unat (q_win_local (sd_q y)) else 0)
     \<and> (taken x \<longrightarrow> fc_local_set (q_fc (sd_q y)))
     \<and> (read_done x \<longrightarrow> q_win_remote (sd_q x) = 0 \<or> q_win_remote (sd_q x) = q_win_local (sd_q y)))"

definition fc_inv :: "fc_net \<Rightarrow> bool" where
  "fc_inv S = (\<forall>s. side_ok (S s) \<and> covered (S s) (S (\<not> s)))"

text \<open>One side moves on, and neither direction loses cover.\<close>

definition advances :: "fc_side \<Rightarrow> fc_side \<Rightarrow> bool" where
  "advances x x' = (sending x' \<le> sending x \<and> owing x' + length (q_rq (sd_q x)) \<le> owing x + length (q_rq (sd_q x'))
     \<and> taken x' = taken x \<and> (read_done x' \<longrightarrow> read_done x \<and> q_win_remote (sd_q x') = q_win_remote (sd_q x))
     \<and> (fc_local_set (q_fc (sd_q x)) \<longrightarrow> q_win_local (sd_q x') = q_win_local (sd_q x) \<and> fc_local_set (q_fc (sd_q x'))))"

lemma covered_sender: "covered x y \<Longrightarrow> advances x x' \<Longrightarrow> covered x' y"
  by (auto simp: covered_def advances_def)

lemma covered_receiver: "covered y x \<Longrightarrow> side_ok x \<Longrightarrow> advances x x' \<Longrightarrow> covered y x'"
  unfolding covered_def advances_def side_ok_def Let_def
  by (cases "fc_local_set (q_fc (sd_q x))") (auto split: if_splits)

lemma fc_invI:
  assumes "fc_inv S" "side_ok z" "covered z (S (\<not> s))" "covered (S (\<not> s)) z"
  shows "fc_inv (S(s := z))"
  unfolding fc_inv_def
proof
  fix r
  have "side_ok (S (\<not> s))" using assms(1) by (simp add: fc_inv_def)
  then show "side_ok ((S(s := z)) r) \<and> covered ((S(s := z)) r) ((S(s := z)) (\<not> r))"
    using assms by (cases "r = s"; cases s; cases r) auto
qed

lemma fc_invD: "fc_inv S \<Longrightarrow> side_ok (S s) \<and> covered (S s) (S (\<not> s)) \<and> covered (S (\<not> s)) (S s)"
proof -
  assume "fc_inv S"
  then have a: "side_ok (S r) \<and> covered (S r) (S (\<not> r))" for r by (simp add: fc_inv_def)
  show "side_ok (S s) \<and> covered (S s) (S (\<not> s)) \<and> covered (S (\<not> s)) (S s)" using a[of s] a[of "\<not> s"] by simp
qed

lemma fc_inv_side:
  assumes "fc_inv S" "advances (S s) x'" "side_ok x'"
  shows "fc_inv (S(s := x'))"
  using fc_invD[OF assms(1), of s] assms covered_sender covered_receiver by (blast intro: fc_invI)

subsection \<open>A queue that moves on\<close>

definition holds :: "ub_queue \<Rightarrow> ub_queue \<Rightarrow> bool" where
  "holds q t = (fc_enabled (q_fc t) = fc_enabled (q_fc q) \<and> q_feature t = q_feature q \<and> q_win_remote t = q_win_remote q \<and> q_post_rx t = q_post_rx q
     \<and> (if fc_local_set (q_fc q) then q_win_local t = q_win_local q \<and> fc_local_set (q_fc t)
        else fc_local_set (q_fc t) \<or> q_win_local t = q_win_local q))"

lemma keeps_holds: "keeps q t \<Longrightarrow> holds q t"
  by (auto simp: keeps_def holds_def)

lemma u16_le: "unat (k :: u16) \<le> 65535"
proof -
  have k: "unat k < 2 ^ 16" using unsigned_less[of k, where ?'a = nat] by simp
  show ?thesis by (rule less_Suc_eq_le[THEN iffD1], rule less_le_trans[OF k]) simp
qed

lemma ucast_16_le: "(ucast (k :: u16) :: u64) \<le> 0xFFFF"
proof -
  have "take_bit 64 (unat k) = unat k" by (rule take_bit_nat_eq_self, rule le_less_trans[OF u16_le]) simp
  then have "unat (ucast k :: u64) = unat k" by (simp add: unsigned_ucast_eq unsigned_take_bit_eq)
  then show ?thesis using u16_le[of k] by (simp add: word_le_nat_alt)
qed

lemma ucast_16_zero: "(ucast (k :: u16) :: u64) = 0 \<longleftrightarrow> k = 0"
  using ucast_16_64[of k] by auto

lemma own_small: "own_wr w \<Longrightarrow> \<not> big w"
  by (auto simp: own_wr_def big_def win_read_def import_done_wr_def not_less ucast_16_le)

lemma own_zero: "own_wr w \<Longrightarrow> wr_user_ctx w = 0 \<Longrightarrow> win_read w"
  by (auto simp: own_wr_def import_done_wr_def ucast_16_zero)

text \<open>The queue gets the requests \<open>us\<close> of the user and the requests \<open>ws\<close> of the flow control.\<close>

lemma side_grow:
  assumes x: "side_ok x" and h: "holds (sd_q x) t" and r: "reads_ok (sd_q x) t"
    and sq: "q_sq t = q_sq (sd_q x) @ us @ ws" "\<And>w. w \<in> set ws \<Longrightarrow> own_wr w"
    and us: "\<And>u. u \<in> set us \<Longrightarrow> big u \<and> matches t u \<and> wr_user_ctx u \<notin> busy x" "distinct (map wr_user_ctx us)"
    and old: "\<And>w. w \<in> set (in_flight x) \<Longrightarrow> big w \<Longrightarrow> matches (sd_q x) w \<Longrightarrow> matches t w"
  shows "side_ok (x\<lparr>sd_q := t\<rparr>)" "taken (x\<lparr>sd_q := t\<rparr>) = taken x"
proof -
  let ?x = "x\<lparr>sd_q := t\<rparr>"
  have fl: "in_flight ?x = in_flight x @ us @ ws" using sq(1) by (simp add: in_flight_def)
  have nb: "filter big ws = []" using sq(2) own_small by (simp add: filter_empty_conv)
  have fb: "filter big us = us" using us(1) by simp
  have w: "if big w then matches t w else own_wr w" if "w \<in> set (in_flight ?x)" for w
  proof -
    from that consider "w \<in> set (in_flight x)" | "w \<in> set us" | "w \<in> set ws" by (auto simp: fl)
    then show ?thesis
    proof cases
      case 1
      then have "if big w then matches (sd_q x) w else own_wr w" using x by (simp add: side_ok_def Let_def)
      then show ?thesis using old[OF 1] by simp
    next
      case 2
      then show ?thesis using us(1) by simp
    next
      case 3
      then show ?thesis using sq(2) own_small by simp
    qed
  qed
  have d: "distinct (map wr_user_ctx (filter big (in_flight ?x)))"
  proof -
    have "distinct (map wr_user_ctx (filter big (in_flight x)))" using x by (simp add: side_ok_def Let_def)
    moreover have "wr_user_ctx ` set us \<inter> busy x = {}" using us(1) by auto
    ultimately show ?thesis using us(2) by (auto simp: fl nb fb busy_def simp del: set_filter)
  qed
  have rd: "reads ?x \<le> (if fc_remote_get (q_fc t) then 1 else 0)" "taken ?x = taken x"
    using r x by (auto simp: taken_def reads_def in_flight_def reads_ok_def side_ok_def Let_def)
  show "side_ok ?x" using x h w d rd(1) by (auto simp: side_ok_def Let_def holds_def split: if_splits)
  show "taken ?x = taken x" by (rule rd(2))
qed

text \<open>The same for a queue that only gets requests of the flow control.\<close>

lemma side_evolve:
  assumes x: "side_ok x" and h: "holds (sd_q x) t" and r: "reads_ok (sd_q x) t" and g: "grows (sd_q x) t"
    and c: "same_core B (sd_q x) t" "B \<inter> busy x = {}"
  shows "side_ok (x\<lparr>sd_q := t\<rparr>)" "taken (x\<lparr>sd_q := t\<rparr>) = taken x"
proof -
  obtain ws where ws: "q_sq t = q_sq (sd_q x) @ [] @ ws" "\<And>w. w \<in> set ws \<Longrightarrow> own_wr w" using g by (auto simp: grows_def)
  have old: "matches t w" if "w \<in> set (in_flight x)" "big w" "matches (sd_q x) w" for w
    by (rule matches_core[OF c(1) _ that(3)]) (use c(2) that in \<open>auto simp: busy_def\<close>)
  show "side_ok (x\<lparr>sd_q := t\<rparr>)" "taken (x\<lparr>sd_q := t\<rparr>) = taken x"
    by (rule side_grow[OF x h r ws(1) ws(2)]; use old in simp)+
qed

lemma sd_collapse: "x\<lparr>sd_q := t\<rparr> = \<lparr>sd_q = t, sd_txc = sd_txc x, sd_rxc = sd_rxc x\<rparr>"
  by (cases x) simp

subsection \<open>Posting\<close>

lemma inv_post_tx:
  assumes i: "fc_inv S" and p: "umq_ub_post_tx b (sd_q (S s)) = Some (t, bad, ret)" and f: "fit_tx (busy (S s)) (sd_q (S s)) b"
  shows "fc_inv (S(s := (S s)\<lparr>sd_q := t\<rparr>))"
proof (rule fc_inv_side[OF i])
  let ?x = "S s"
  have ok: "side_ok ?x" using i by (simp add: fc_inv_def)
  then have "posted_tx (busy ?x) (sd_q ?x) t" using post_tx_accounts[OF p f] by (simp add: side_ok_def Let_def)
  then obtain us where us: "sent us (sd_q ?x) t" "\<forall>u \<in> set us. matches t u" "distinct (map wr_user_ctx us)"
    "\<forall>u \<in> set us. 0xFFFF < wr_user_ctx u \<and> wr_user_ctx u \<notin> busy ?x" "\<forall>b \<in> busy ?x. q_bufs t b = q_bufs (sd_q ?x) b"
    unfolding posted_tx_def by blast
  obtain ws where ws: "q_sq t = q_sq (sd_q ?x) @ us @ ws" "\<And>w. w \<in> set ws \<Longrightarrow> own_wr w" using us(1) by (auto simp: sent_def)
  have k: "keeps (sd_q ?x) t" "reads_ok (sd_q ?x) t" "out t \<le> out (sd_q ?x)" "due t \<le> due (sd_q ?x)" using us(1) by (simp_all add: sent_def)
  have old: "matches t w" if "w \<in> set (in_flight ?x)" "big w" "matches (sd_q ?x) w" for w
    using that us(5) by (auto simp: matches_def busy_def)
  have u: "big u \<and> matches t u \<and> wr_user_ctx u \<notin> busy ?x" if "u \<in> set us" for u using us that by (auto simp: big_def)
  note G = side_grow[OF ok keeps_holds[OF k(1)] k(2) ws(1) ws(2) u us(3) old]
  show "side_ok (?x\<lparr>sd_q := t\<rparr>)" by (rule G(1))
  show "advances ?x (?x\<lparr>sd_q := t\<rparr>)"
    using k G(2) by (auto simp: advances_def sending_def owing_def read_done_def keeps_def split: if_splits)
qed

lemma rx_frame_holds: "rx_frame q t \<Longrightarrow> holds q t"
  by (auto simp: rx_frame_def holds_def)

lemma holds_trans: "holds q t \<Longrightarrow> holds t u \<Longrightarrow> holds q u"
  by (auto simp: holds_def split: if_splits)

lemma post_rx_side:
  assumes p: "posted_rx q t0" and f: "rx_frame t0 t"
  shows "holds q t" "reads_ok q t" "grows q t" "same_core {} q t" "out t \<le> out q" "due t + length (q_rq q) \<le> due q + length (q_rq t)"
proof -
  obtain rs u where u: "q_rq t0 = q_rq q @ rs" "rx_frame q u" "acct 0 0 0 (length rs) (u\<lparr>q_rq := q_rq q @ rs\<rparr>) t0"
    using p unfolding posted_rx_def by blast
  let ?v = "u\<lparr>q_rq := q_rq q @ rs\<rparr>"
  have a: "evolves ?v t0" "out t0 \<le> out ?v" "due t0 \<le> due ?v + length rs" "q_bufs t0 = q_bufs ?v" using u(3) by (simp_all add: acct_def)
  have v: "holds q ?v" "out ?v = out q" "due ?v = due q" using u(2) by (auto simp: rx_frame_def holds_def out_def due_def)
  show "holds q t" using v(1) keeps_holds[of ?v t0] a(1) rx_frame_holds[OF f] unfolding evolves_def by (blast intro: holds_trans)
  show "reads_ok q t" "grows q t" using a(1) u(2) f by (simp_all add: evolves_def reads_ok_def grows_def rx_frame_def)
  show "same_core {} q t" using a(4) u(2) f by (simp add: rx_frame_def same_core_def)
  show "out t \<le> out q" "due t + length (q_rq q) \<le> due q + length (q_rq t)"
    using a(2,3) v(2,3) f u(1) by (auto simp: rx_frame_def out_def due_def)
qed

lemma ref_holds [simp]:
  "holds (inc_ref q) t = holds q t" "holds q (dec_ref t) = holds q t" "reads_ok (inc_ref q) t = reads_ok q t" "reads_ok q (dec_ref t) = reads_ok q t"
  "grows (inc_ref q) t = grows q t" "grows q (dec_ref t) = grows q t" "out (inc_ref q) = out q" "out (dec_ref q) = out q"
  "due (inc_ref q) = due q" "due (dec_ref q) = due q" "q_rq (inc_ref q) = q_rq q" "q_rq (dec_ref q) = q_rq q"
  by (simp_all add: inc_ref_def dec_ref_def holds_def reads_ok_def grows_def out_def due_def)

lemma inv_post_rx:
  assumes i: "fc_inv S" and p: "umq_ub_post_rx b (sd_q (S s)) = Some (t, bad, ret)"
  shows "fc_inv (S(s := (S s)\<lparr>sd_q := t\<rparr>))"
proof (rule fc_inv_side[OF i])
  let ?x = "S s"
  have ok: "side_ok ?x" using i by (simp add: fc_inv_def)
  obtain t1 where t1: "umq_ub_post_rx_inner_impl b (inc_ref (sd_q ?x)) = Some (t1, bad, ret)" "t = dec_ref t1"
    using p by (auto simp: umq_ub_post_rx_def bind_eq_Some_conv)
  have "q_post_rx (inc_ref (sd_q ?x)) = []" using ok by (simp add: side_ok_def Let_def inc_ref_def)
  from post_rx_inner_accounts[OF t1(1) this] obtain t0 where "posted_rx (inc_ref (sd_q ?x)) t0" "rx_frame t0 t1" by blast
  note R = post_rx_side[OF this]
  have r: "holds (sd_q ?x) t" "reads_ok (sd_q ?x) t" "grows (sd_q ?x) t" "same_core {} (sd_q ?x) t" "out t \<le> out (sd_q ?x)"
    "due t + length (q_rq (sd_q ?x)) \<le> due (sd_q ?x) + length (q_rq t)"
    using R by (simp_all add: t1(2))
  note G = side_evolve[OF ok r(1-4)]
  show "side_ok (?x\<lparr>sd_q := t\<rparr>)" by (rule G(1)) simp
  have "taken (?x\<lparr>sd_q := t\<rparr>) = taken ?x" by (rule G(2)) simp
  then show "advances ?x (?x\<lparr>sd_q := t\<rparr>)"
    using r by (auto simp: advances_def sending_def owing_def read_done_def holds_def split: if_splits)
qed

subsection \<open>Polling\<close>

lemma side_rxc [simp]: "side_ok (x\<lparr>sd_rxc := v\<rparr>) = side_ok x" "taken (x\<lparr>sd_rxc := v\<rparr>) = taken x" "read_done (x\<lparr>sd_rxc := v\<rparr>) = read_done x"
  by (simp_all add: side_ok_def taken_def reads_def in_flight_def read_done_def)

lemma spent_side:
  assumes "spent a b c d q t"
  shows "holds q t" "reads_ok q t" "grows q t" "q_rq t = q_rq q" "q_win_remote t = q_win_remote q" "out t + a \<le> out q + b" "due t + c \<le> due q + d"
  using assms keeps_holds by (auto simp: spent_def evolves_def keeps_def)

lemma inv_poll_rx:
  assumes i: "fc_inv S" and p: "umq_ub_poll_rx (Inr (sd_rxc (S s))) n (sd_q (S s)) = Some (t, r)"
    and m: "m = (if q_state (sd_q (S s)) = QUEUE_STATE_ERR then 0 else min n UMQ_POST_POLL_BATCH)"
    and nb: "\<And>cr. cr \<in> set (take m (sd_rxc (S s))) \<Longrightarrow> q_ctx_buffer (sd_q (S s)) (cr_user_ctx cr) \<notin> busy (S s)"
  shows "fc_inv (S(s := (S s)\<lparr>sd_q := t, sd_rxc := drop m (sd_rxc (S s))\<rparr>))"
proof (rule fc_inv_side[OF i])
  let ?x = "S s" and ?x' = "(S s)\<lparr>sd_q := t, sd_rxc := drop m (sd_rxc (S s))\<rparr>"
  have ok: "side_ok ?x" using i by (simp add: fc_inv_def)
  then have en: "fc_enabled (q_fc (sd_q ?x))" "q_feature (sd_q ?x) AND UMQ_FEATURE_API_PRO \<noteq> 0" by (simp_all add: side_ok_def Let_def)
  note A = poll_rx_accounts[OF p en m]
  note B = spent_side[OF A(1)]
  have d: "((\<lambda>cr. q_ctx_buffer (sd_q ?x) (cr_user_ctx cr)) ` set (take m (sd_rxc ?x))) \<inter> busy ?x = {}" using nb by auto
  note E = side_evolve[OF ok B(1-3) A(2) d]
  show "side_ok ?x'" using E(1) by simp
  have "sum_list (map cr_grant (sd_rxc ?x)) = sum_list (map cr_grant (take m (sd_rxc ?x))) + sum_list (map cr_grant (drop m (sd_rxc ?x)))"
    by (metis append_take_drop_id map_append sum_list_append)
  then show "advances ?x ?x'"
    using B E(2) by (auto simp: advances_def sending_def owing_def holds_def read_done_def split: if_splits)
qed

text \<open>A side whose oldest send completion is taken away.\<close>

lemma side_pop:
  assumes ok: "side_ok \<lparr>sd_q = q, sd_txc = (cr, w) # xs, sd_rxc = ys\<rparr>"
  shows "side_ok \<lparr>sd_q = q, sd_txc = xs, sd_rxc = ys\<rparr>" "wr_user_ctx w \<notin> busy \<lparr>sd_q = q, sd_txc = xs, sd_rxc = ys\<rparr>"
    "if big w then matches q w else own_wr w" "cr_user_ctx cr = wr_user_ctx w" "cr_failed cr \<Longrightarrow> \<not> import_done_wr w"
    "fc_enabled (q_fc q)" "cr_failed cr = (cr_status cr \<noteq> URMA_CR_SUCCESS)"
    "cr_status cr \<notin> {URMA_CR_WR_SUSPEND_DONE, URMA_CR_WR_FLUSH_ERR_DONE}"
    "win_read w \<Longrightarrow> fc_remote_get (q_fc q) \<and> reads \<lparr>sd_q = q, sd_txc = xs, sd_rxc = ys\<rparr> = 0"
proof -
  let ?x = "\<lparr>sd_q = q, sd_txc = (cr, w) # xs, sd_rxc = ys\<rparr>" and ?y = "\<lparr>sd_q = q, sd_txc = xs, sd_rxc = ys\<rparr>"
  have fl: "in_flight ?x = w # in_flight ?y" by (simp add: in_flight_def)
  have rd: "reads ?x = (if win_read w then 1 else 0) + reads ?y" by (simp add: reads_def fl)
  show "side_ok ?y" using ok rd by (auto simp: side_ok_def Let_def fl split: if_splits)
  show "wr_user_ctx w \<notin> busy ?y"
  proof
    assume a: "wr_user_ctx w \<in> busy ?y"
    then have "big w" by (auto simp: busy_def big_def)
    then show False using a ok by (auto simp: side_ok_def Let_def fl busy_def)
  qed
  show st: "cr_status cr \<notin> {URMA_CR_WR_SUSPEND_DONE, URMA_CR_WR_FLUSH_ERR_DONE}" using ok by (simp add: side_ok_def Let_def)
  then show "cr_failed cr = (cr_status cr \<noteq> URMA_CR_SUCCESS)" by (simp add: cr_failed_def)
  show "if big w then matches q w else own_wr w" "cr_user_ctx cr = wr_user_ctx w" "fc_enabled (q_fc q)"
    using ok by (simp_all add: side_ok_def Let_def fl)
  show "cr_failed cr \<Longrightarrow> \<not> import_done_wr w" using ok by (simp add: side_ok_def Let_def)
  show "win_read w \<Longrightarrow> fc_remote_get (q_fc q) \<and> reads ?y = 0" using ok rd by (auto simp: side_ok_def Let_def split: if_splits)
qed

lemma read_done_Cons: "read_done \<lparr>sd_q = t, sd_txc = xs, sd_rxc = ys\<rparr> \<Longrightarrow> read_done \<lparr>sd_q = q, sd_txc = x # xs, sd_rxc = ys\<rparr>"
  by (auto simp: read_done_def)

lemma poll_tx_plain:
  assumes ok: "side_ok \<lparr>sd_q = q, sd_txc = (cr, w) # xs, sd_rxc = ys\<rparr>" and p: "poll_tx_cr cr q = Some (t, bs)" and nr: "\<not> win_read w"
  shows "side_ok \<lparr>sd_q = t, sd_txc = xs, sd_rxc = ys\<rparr>"
    "advances \<lparr>sd_q = q, sd_txc = (cr, w) # xs, sd_rxc = ys\<rparr> \<lparr>sd_q = t, sd_txc = xs, sd_rxc = ys\<rparr>"
proof -
  let ?x = "\<lparr>sd_q = q, sd_txc = (cr, w) # xs, sd_rxc = ys\<rparr>" and ?y = "\<lparr>sd_q = q, sd_txc = xs, sd_rxc = ys\<rparr>"
  let ?n = "if cr_status cr \<notin> {URMA_CR_SUCCESS, URMA_CR_WR_SUSPEND_DONE, URMA_CR_WR_FLUSH_ERR_DONE} then 1 else 0 :: nat"
  note P = side_pop[OF ok]
  have c: "wr_user_ctx w = cr_user_ctx cr" "cr_user_ctx cr \<noteq> 0"
    using P(3,4) nr own_zero by (auto simp: big_def split: if_splits)
  have own: "\<exists>k. w = fc_message_wr k" if "cr_user_ctx cr \<le> 0xFFFF" "?n = 1"
    using P(3,5) that nr c(1) by (auto simp: own_wr_def big_def cr_failed_def split: if_splits)
  have "spent 0 (if consuming w then ?n else 0) 0 (?n * grant w) q t \<and> same_core {wr_user_ctx w} q t"
    by (rule poll_tx_cr_accounts[OF p c _ own]) (use P(3) c in \<open>auto simp: big_def split: if_splits\<close>)
  then have A: "spent 0 (if consuming w then ?n else 0) 0 (?n * grant w) q t" "same_core {wr_user_ctx w} q t" by blast+
  note B = spent_side[OF A(1)]
  have n: "?n = (if cr_failed cr then 1 else 0)" by (simp add: cr_failed_def)
  have "side_ok (?y\<lparr>sd_q := t\<rparr>)" "taken (?y\<lparr>sd_q := t\<rparr>) = taken ?y"
    using side_evolve[OF P(1), of t "{wr_user_ctx w}"] B(1-3) A(2) P(2) by simp_all
  then show y: "side_ok \<lparr>sd_q = t, sd_txc = xs, sd_rxc = ys\<rparr>" by simp
  have tk: "taken \<lparr>sd_q = t, sd_txc = xs, sd_rxc = ys\<rparr> = taken ?x"
    using \<open>taken (?y\<lparr>sd_q := t\<rparr>) = taken ?y\<close> nr by (simp add: taken_def reads_def in_flight_def)
  show "advances ?x \<lparr>sd_q = t, sd_txc = xs, sd_rxc = ys\<rparr>"
    using B tk read_done_Cons[of t xs ys q "(cr, w)"] unfolding n
    by (auto simp: advances_def sending_def owing_def fsends_def fgrants_def holds_def split: if_splits)
qed

lemma matches_fields [simp]:
  "matches (q\<lparr>q_fc := fc\<rparr>) w = matches q w" "matches (q\<lparr>q_sq := ws\<rparr>) w = matches q w" "matches (q\<lparr>q_rq := rs\<rparr>) w = matches q w"
  "matches (q\<lparr>q_win_remote := v\<rparr>) w = matches q w" "matches (q\<lparr>q_post := ps\<rparr>) w = matches q w" "matches (q\<lparr>q_bound := c\<rparr>) w = matches q w"
  by (simp_all add: matches_def)

text \<open>The read of the initial window failed, or found the window not published yet: it is repeated.\<close>

lemma poll_tx_reread:
  fixes q ys xs cr w
  defines "x \<equiv> \<lparr>sd_q = q, sd_txc = (cr, w) # xs, sd_rxc = ys\<rparr>" and "q0 \<equiv> q\<lparr>q_fc := (q_fc q)\<lparr>fc_remote_get := False\<rparr>\<rparr>"
  assumes ok: "side_ok x" and wr: "win_read w" and t: "t = q0 \<or> t = umq_ub_window_read q0"
  shows "side_ok \<lparr>sd_q = t, sd_txc = xs, sd_rxc = ys\<rparr>" "advances x \<lparr>sd_q = t, sd_txc = xs, sd_rxc = ys\<rparr>"
proof -
  let ?y = "\<lparr>sd_q = q0, sd_txc = xs, sd_rxc = ys\<rparr>" and ?z = "\<lparr>sd_q = t, sd_txc = xs, sd_rxc = ys\<rparr>"
  note P = side_pop[OF ok[unfolded x_def]]
  have y: "side_ok ?y" "\<not> taken ?y"
    using P(1) P(9)[OF wr] by (simp_all add: side_ok_def Let_def q0_def in_flight_def reads_def taken_def)
  have ng: "\<not> fc_remote_get (q_fc q0)" by (simp add: q0_def)
  have a: "acct 0 0 0 0 q0 t" using t acct_window_read[OF ng] by (auto simp: acct_def)
  note B = spent_side[OF acct_spent[OF a]]
  have z: "side_ok ?z" "taken ?z = taken ?y"
    using side_evolve[OF y(1), of t "{}"] B(1-3) same_core_bufs[OF acct_bufs[OF a]] by simp_all
  show "side_ok ?z" by (rule z(1))
  have "\<not> taken x" using wr by (simp add: x_def taken_def reads_def in_flight_def)
  moreover have "out q0 = out q" "due q0 = due q" "q_rq q0 = q_rq q" "q_win_remote q0 = q_win_remote q" "q_win_local q0 = q_win_local q"
    "fc_local_set (q_fc q0) = fc_local_set (q_fc q)" by (simp_all add: q0_def out_def due_def)
  ultimately show "advances x ?z"
    using B y(2) z(2) read_done_Cons[of t xs ys q "(cr, w)"] unfolding x_def
    by (auto simp: advances_def sending_def owing_def fsends_def fgrants_def holds_def split: if_splits)
qed

text \<open>The read found the window.\<close>

lemma poll_tx_window:
  fixes q ys xs cr w y
  defines "x \<equiv> \<lparr>sd_q = q, sd_txc = (cr, w) # xs, sd_rxc = ys\<rparr>"
    and "t \<equiv> (umq_ub_window_inc (q_win_remote q) q)\<lparr>q_state := QUEUE_STATE_READY\<rparr>"
    and "z \<equiv> \<lparr>sd_q = (umq_ub_window_inc (q_win_remote q) q)\<lparr>q_state := QUEUE_STATE_READY\<rparr>, sd_txc = xs, sd_rxc = ys\<rparr>"
  assumes ok: "side_ok x" "side_ok y" and cov: "covered x y" "covered y x"
    and wr: "win_read w" "\<not> cr_failed cr" "q_win_remote q \<noteq> 0"
  shows "side_ok z" "covered z y" "covered y z"
proof -
  let ?x1 = "\<lparr>sd_q = q, sd_txc = xs, sd_rxc = ys\<rparr>"
  note P = side_pop[OF ok(1)[unfolded x_def]]
  have a: "spent 0 (unat (q_win_remote q)) 0 0 q t" "same_core {} q t"
    using acct_window_inc[of "q_win_remote q" q] unfolding t_def
    by (auto simp: acct_def spent_def evolves_def keeps_def reads_ok_def grows_def out_def due_def same_core_def)
  note B = spent_side[OF a(1)]
  have zt: "z = \<lparr>sd_q = t, sd_txc = xs, sd_rxc = ys\<rparr>" by (simp add: z_def t_def)
  have e: "side_ok z" "taken z = taken ?x1" using side_evolve[OF P(1), of t "{}"] B(1-3) a(2) by (simp_all add: zt)
  show "side_ok z" by (rule e(1))
  have tz: "taken z" "\<not> taken x" using P(9)[OF wr(1)] e(2) wr(1) by (simp_all add: taken_def x_def reads_def in_flight_def)
  have nr: "\<not> read_done z"
    using P(9)[OF wr(1)] by (auto simp: zt read_done_def reads_def in_flight_def win_reads_def filter_empty_conv)
  have rdx: "read_done x" using wr by (simp add: x_def read_done_def)
  have cell: "q_win_remote q = q_win_local (sd_q y)" using cov(1) rdx wr(3) by (auto simp: covered_def x_def)
  have ls: "fc_local_set (q_fc (sd_q y))" using ok(2) cell wr(3) by (auto simp: side_ok_def Let_def)
  have sx: "sending z \<le> sending x + unat (q_win_local (sd_q y))" "owing z \<le> owing x" "q_rq (sd_q z) = q_rq (sd_q x)"
    using B(4,6,7) wr(2) by (simp_all add: zt x_def sending_def owing_def fsends_def fgrants_def cell)
  show "covered z y" using cov(1) sx(1) tz nr ls by (auto simp: covered_def)
  have "q_win_local t = q_win_local q" "fc_local_set (q_fc t) = fc_local_set (q_fc q)"
    by (simp_all add: t_def umq_ub_window_inc_def counter_eqs counter_defs Let_def)
  then show "covered y z" using cov(2) sx by (auto simp: covered_def zt x_def)
qed

lemma inv_poll_tx_one:
  assumes i: "fc_inv (S(s := \<lparr>sd_q = q, sd_txc = (cr, w) # xs, sd_rxc = ys\<rparr>))" (is "fc_inv ?S") and p: "poll_tx_cr cr q = Some (t, bs)"
  shows "fc_inv (S(s := \<lparr>sd_q = t, sd_txc = xs, sd_rxc = ys\<rparr>))" (is "fc_inv (S(s := ?z))")
proof -
  have ok: "side_ok (?S s)" "covered (?S s) (?S (\<not> s))" "covered (?S (\<not> s)) (?S s)" "side_ok (?S (\<not> s))"
    using fc_invD[OF i, of s] fc_invD[OF i, of "\<not> s"] by blast+
  then have ok': "side_ok \<lparr>sd_q = q, sd_txc = (cr, w) # xs, sd_rxc = ys\<rparr>" by simp
  note P = side_pop[OF ok']
  have up: "fc_inv (?S(s := ?z)) \<Longrightarrow> ?thesis" by simp
  show ?thesis
  proof (cases "win_read w")
    case False
    show ?thesis by (rule up, rule fc_inv_side[OF i]) (use poll_tx_plain[OF ok' p False] in simp_all)
  next
    case True
    then have c: "cr_user_ctx cr = 0" using P(4) by (simp add: win_read_def)
    let ?q0 = "q\<lparr>q_fc := (q_fc q)\<lparr>fc_remote_get := False\<rparr>\<rparr>"
    consider (again) "t = ?q0 \<or> t = umq_ub_window_read ?q0"
      | (got) "\<not> cr_failed cr" "q_win_remote q \<noteq> 0" "t = (umq_ub_window_inc (q_win_remote q) q)\<lparr>q_state := QUEUE_STATE_READY\<rparr>"
      using p P(7,8) c by (auto simp: poll_tx_cr_def Let_def split: if_splits)
    then show ?thesis
    proof cases
      case again
      show ?thesis by (rule up, rule fc_inv_side[OF i]) (use poll_tx_reread[OF ok' True again] in simp_all)
    next
      case got
      have "side_ok ?z" "covered ?z (?S (\<not> s))" "covered (?S (\<not> s)) ?z"
        using poll_tx_window[OF ok' ok(4) _ _ True got(1,2)] ok got(3) by simp_all
      then show ?thesis by (intro up fc_invI[OF i])
    qed
  qed
qed

lemma inv_poll_loop:
  "poll_loop poll_tx_cr (map fst zs) q = Some (t, bs) \<Longrightarrow> fc_inv (S(s := \<lparr>sd_q = q, sd_txc = zs @ xs, sd_rxc = ys\<rparr>))
   \<Longrightarrow> fc_inv (S(s := \<lparr>sd_q = t, sd_txc = xs, sd_rxc = ys\<rparr>))"
proof (induction zs arbitrary: q bs)
  case (Cons z zs)
  obtain q1 b1 b2 where h: "poll_tx_cr (fst z) q = Some (q1, b1)" "poll_loop poll_tx_cr (map fst zs) q1 = Some (t, b2)"
    using Cons.prems(1) by (auto simp: bind_eq_Some_conv)
  have "fc_inv (S(s := \<lparr>sd_q = q, sd_txc = (fst z, snd z) # (zs @ xs), sd_rxc = ys\<rparr>))"
    using Cons.prems(2) by (simp only: append_Cons prod.collapse)
  from inv_poll_tx_one[OF this h(1)] show ?case by (rule Cons.IH[OF h(2)])
qed simp

lemma inv_frame:
  assumes "fc_inv (S(s := \<lparr>sd_q = q, sd_txc = xs, sd_rxc = ys\<rparr>))" (is "fc_inv ?S") "spent 0 0 0 0 q t" "same_core {} q t"
  shows "fc_inv (S(s := \<lparr>sd_q = t, sd_txc = xs, sd_rxc = ys\<rparr>))"
proof -
  let ?x = "\<lparr>sd_q = q, sd_txc = xs, sd_rxc = ys\<rparr>" and ?z = "\<lparr>sd_q = t, sd_txc = xs, sd_rxc = ys\<rparr>"
  have ok: "side_ok ?x" using fc_invD[OF assms(1), of s] by simp
  note B = spent_side[OF assms(2)]
  have e: "side_ok ?z" "taken ?z = taken ?x" using side_evolve[OF ok, of t "{}"] B(1-3) assms(3) by simp_all
  have "advances (?S s) ?z" using B e(2) by (auto simp: advances_def sending_def owing_def read_done_def holds_def split: if_splits)
  from fc_inv_side[OF assms(1) this e(1)] show ?thesis by (simp only: fun_upd_upd)
qed

lemma flush_frame: "umq_ub_flush_sqe crs q = Some (t, bs) \<Longrightarrow> spent 0 0 0 0 q t \<and> same_core {} q t"
proof (induction crs arbitrary: q bs)
  case (Cons cr crs)
  let ?u = "upd_buf (cr_user_ctx cr) (\<lambda>e. e\<lparr>io_direction := UMQ_IO_TX, buf_status := cr_status cr\<rparr>) q"
  have s: "spent 0 0 0 0 q ?u" "same_core {} q ?u" by (simp_all add: core_def)
  have "(\<exists>bs'. umq_ub_flush_sqe crs q = Some (t, bs')) \<or> (\<exists>bs'. umq_ub_flush_sqe crs ?u = Some (t, bs'))"
    using Cons.prems by (auto simp: bind_eq_Some_conv split: if_splits)
  then show ?case
  proof (elim disjE exE)
    fix bs' assume "umq_ub_flush_sqe crs ?u = Some (t, bs')"
    from Cons.IH[OF this] show ?thesis using spent_trans[OF s(1)] same_core_trans[OF s(2)] by fastforce
  qed (rule Cons.IH)
qed simp

lemma inv_poll_tx:
  assumes i: "fc_inv S" and p: "umq_ub_poll_tx (Inr (map fst (sd_txc (S s)))) fcs n (sd_q (S s)) = Some (t, r)"
  shows "fc_inv (S(s := (S s)\<lparr>sd_q := t, sd_txc := drop (min n UMQ_POST_POLL_BATCH) (sd_txc (S s))\<rparr>))"
proof (cases "n = 0")
  case True
  then have "t = sd_q (S s)" using p by (simp add: umq_ub_poll_tx_def)
  then have "(S s)\<lparr>sd_q := t, sd_txc := drop (min n UMQ_POST_POLL_BATCH) (sd_txc (S s))\<rparr> = S s" using True by simp
  then show ?thesis using i by (simp only: fun_upd_triv)
next
  case False
  let ?x = "S s" and ?m = "min n UMQ_POST_POLL_BATCH"
  let ?xs = "drop ?m (sd_txc ?x)"
  have r: "spent 0 0 0 0 u (inc_ref u)" "same_core {} u (inc_ref u)" "spent 0 0 0 0 u (dec_ref u)" "same_core {} u (dec_ref u)" for u
    by (auto simp: inc_ref_def dec_ref_def spent_def evolves_def keeps_def reads_ok_def grows_def out_def due_def same_core_def)
  obtain q1 bs q2 bs' where l: "poll_loop poll_tx_cr (take ?m (map fst (sd_txc ?x))) (inc_ref (sd_q ?x)) = Some (q1, bs)"
    and g: "(if q_state q1 = QUEUE_STATE_ERR \<and> q_tx_flush_done q1 \<and> n > length bs
             then umq_ub_flush_sqe (take (n - length bs) fcs) q1 else Some (q1, [])) = Some (q2, bs')" and t: "t = dec_ref q2"
    using p False unfolding umq_ub_poll_tx_def by (auto simp: bind_eq_Some_conv simp del: split_paired_Ex split del: if_split)
  have f: "q2 = q1 \<or> (\<exists>cs. umq_ub_flush_sqe cs q1 = Some (q2, bs'))" using g by (auto split: if_splits)
  have "fc_inv (S(s := \<lparr>sd_q = sd_q ?x, sd_txc = sd_txc ?x, sd_rxc = sd_rxc ?x\<rparr>))"
    using i sd_collapse[of "sd_q ?x" ?x] by (simp add: fun_upd_idem)
  from inv_frame[OF this r(1,2)]
  have "fc_inv (S(s := \<lparr>sd_q = inc_ref (sd_q ?x), sd_txc = take ?m (sd_txc ?x) @ ?xs, sd_rxc = sd_rxc ?x\<rparr>))"
    by (simp only: append_take_drop_id)
  from inv_poll_loop[OF l[unfolded take_map] this] have "fc_inv (S(s := \<lparr>sd_q = q1, sd_txc = ?xs, sd_rxc = sd_rxc ?x\<rparr>))" .
  from inv_frame[OF this] have "fc_inv (S(s := \<lparr>sd_q = q2, sd_txc = ?xs, sd_rxc = sd_rxc ?x\<rparr>))" using f flush_frame by fastforce
  from inv_frame[OF this r(3,4)] show ?thesis by (simp add: t sd_collapse)
qed

subsection \<open>Events of the device\<close>

text \<open>The oldest request of the send queue is done, with a completion or without one.\<close>

definition left :: "urma_jfs_wr \<Rightarrow> (urma_cr \<times> urma_jfs_wr) list \<Rightarrow> bool" where
  "left w cs = ((cs = [] \<and> \<not> win_read w) \<or>
     (\<exists>cr. cs = [(cr, w)] \<and> cr_user_ctx cr = wr_user_ctx w \<and> cr_status cr \<notin> {URMA_CR_WR_SUSPEND_DONE, URMA_CR_WR_FLUSH_ERR_DONE}
        \<and> (cr_failed cr \<longrightarrow> \<not> import_done_wr w)))"

lemma side_done:
  fixes v x ws cs
  assumes ok: "side_ok x" and sq: "q_sq (sd_q x) = w # ws" and cs: "left w cs"
  defines "x' \<equiv> x\<lparr>sd_q := (sd_q x)\<lparr>q_sq := ws, q_win_remote := v\<rparr>, sd_txc := sd_txc x @ cs\<rparr>"
  shows "side_ok x'" "taken x' = taken x"
proof -
  have fl: "in_flight x = map snd (sd_txc x) @ w # ws" "in_flight x' = map snd (sd_txc x) @ map snd cs @ ws"
    using sq by (simp_all add: in_flight_def x'_def)
  have fl': "in_flight x' = in_flight x \<or> (in_flight x' = map snd (sd_txc x) @ ws \<and> \<not> win_read w)" using cs fl by (auto simp: left_def)
  then have rd: "reads x' = reads x" by (auto simp: reads_def fl(1))
  then show "taken x' = taken x" by (simp add: taken_def x'_def)
  have sub: "set (in_flight x') \<subseteq> set (in_flight x)" using fl' by (auto simp: fl(1))
  have d: "distinct (map wr_user_ctx (filter big (in_flight x)))" using ok by (simp add: side_ok_def Let_def)
  have d': "distinct (map wr_user_ctx (filter big (in_flight x')))"
    using fl'
  proof
    assume "in_flight x' = map snd (sd_txc x) @ ws \<and> \<not> win_read w"
    then show ?thesis using d by (cases "big w") (auto simp: fl(1) simp del: set_filter)
  qed (use d in simp)
  have b: "\<forall>(cr, w) \<in> set (sd_txc x'). cr_user_ctx cr = wr_user_ctx w \<and> cr_status cr \<notin> {URMA_CR_WR_SUSPEND_DONE, URMA_CR_WR_FLUSH_ERR_DONE}
          \<and> (cr_failed cr \<longrightarrow> \<not> import_done_wr w)"
    using ok cs by (auto simp: side_ok_def Let_def left_def x'_def)
  show "side_ok x'" unfolding side_ok_def Let_def
    using ok sub d' b rd by (auto simp: side_ok_def Let_def x'_def)
qed

lemma fsends_append [simp]: "fsends (xs @ ys) = fsends xs + fsends ys"
  by (simp add: fsends_def)

lemma fgrants_append [simp]: "fgrants (xs @ ys) = fgrants xs + fgrants ys"
  by (simp add: fgrants_def)

lemma inv_fail:
  assumes i: "fc_inv S" and sq: "q_sq (sd_q (S s)) = w # ws" "\<not> import_done_wr w" "cr_user_ctx cr = wr_user_ctx w" "cr_failed cr"
  shows "fc_inv (S(s := (S s)\<lparr>sd_q := (sd_q (S s))\<lparr>q_sq := ws\<rparr>, sd_txc := sd_txc (S s) @ [(cr, w)]\<rparr>))"
proof (rule fc_inv_side[OF i])
  let ?x = "S s" and ?x' = "(S s)\<lparr>sd_q := (sd_q (S s))\<lparr>q_sq := ws\<rparr>, sd_txc := sd_txc (S s) @ [(cr, w)]\<rparr>"
  have ok: "side_ok ?x" using fc_invD[OF i] by blast
  have l: "left w [(cr, w)]" using sq by (simp add: left_def cr_failed_def)
  note D = side_done[OF ok sq(1) l, of "q_win_remote (sd_q ?x)"]
  show "side_ok ?x'" using D(1) by simp
  show "advances ?x ?x'" using D(2) sq
    by (auto simp: advances_def sending_def owing_def out_def due_def fsends_def fgrants_def read_done_def)
qed

lemma inv_complete:
  assumes i: "fc_inv S" and sq: "q_sq (sd_q (S s)) = w # ws" "\<not> consuming w"
    and cs: "(cs = [] \<and> \<not> win_read w) \<or> (\<exists>cr. cs = [(cr, w)] \<and> cr_user_ctx cr = wr_user_ctx w \<and> cr_status cr = URMA_CR_SUCCESS)"
    and v: "v = (if win_read w then q_win_local (sd_q (S (\<not> s))) else q_win_remote (sd_q (S s)))"
  shows "fc_inv (S(s := (S s)\<lparr>sd_q := (sd_q (S s))\<lparr>q_sq := ws, q_win_remote := v\<rparr>, sd_txc := sd_txc (S s) @ cs\<rparr>))"
proof -
  let ?x = "S s" and ?y = "S (\<not> s)" and ?x' = "(S s)\<lparr>sd_q := (sd_q (S s))\<lparr>q_sq := ws, q_win_remote := v\<rparr>, sd_txc := sd_txc (S s) @ cs\<rparr>"
  note I = fc_invD[OF i, of s]
  have l: "left w cs" using cs by (auto simp: left_def cr_failed_def URMA_CR_SUCCESS_def URMA_CR_WR_SUSPEND_DONE_def URMA_CR_WR_FLUSH_ERR_DONE_def)
  note D = side_done[OF conjunct1[OF I] sq(1) l, of v]
  have g: "grant w = 0" using sq(2) by (auto simp: grant_def consuming_def)
  have f: "fsends cs = 0" "fgrants cs = 0" using cs by (auto simp: fsends_def fgrants_def cr_failed_def)
  have a: "sending ?x' = sending ?x" "owing ?x' = owing ?x" using sq g f by (simp_all add: sending_def owing_def out_def due_def)
  have rd: "read_done ?x' \<longrightarrow> win_read w \<or> read_done ?x" using cs by (auto simp: read_done_def)
  show ?thesis
  proof (rule fc_invI[OF i D(1)])
    show "covered ?x' ?y" using I a D(2) rd v by (auto simp: covered_def)
    show "covered ?y ?x'" using I a by (auto simp: covered_def)
  qed
qed

text \<open>A message goes from \<open>x\<close> to \<open>y\<close> with an announcement of \<open>g\<close> credits.\<close>

lemma covered_shift:
  assumes c: "covered x y" "covered y x"
    and m: "sending x = Suc (sending x')" "owing x = g + owing x'" "sending y' = sending y + g" "owing y' = owing y"
    and l: "length (q_rq (sd_q y)) = Suc (length (q_rq (sd_q y')))" "q_rq (sd_q x') = q_rq (sd_q x)"
    and e: "taken x' = taken x" "taken y' = taken y" "read_done x' = read_done x" "read_done y' = read_done y"
    and w: "q_win_local (sd_q x') = q_win_local (sd_q x)" "q_win_remote (sd_q x') = q_win_remote (sd_q x)" "q_fc (sd_q x') = q_fc (sd_q x)"
      "q_win_local (sd_q y') = q_win_local (sd_q y)" "q_win_remote (sd_q y') = q_win_remote (sd_q y)" "q_fc (sd_q y') = q_fc (sd_q y)"
  shows "covered x' y'" "covered y' x'"
proof -
  show "covered x' y'" using c(1) m(1,4) l(1) unfolding covered_def e w by auto
  show "covered y' x'" using c(2) m(2,3) unfolding covered_def e w l(2) by auto
qed

lemma inv_deliver:
  assumes i: "fc_inv S" and sq: "q_sq (sd_q (S s)) = w # ws" "consuming w" and rq: "q_rq (sd_q (S (\<not> s))) = r # rs" and rc: "recv_cr w r rcr"
    and cs: "cs = [] \<or> (\<exists>cr. cs = [(cr, w)] \<and> cr_user_ctx cr = wr_user_ctx w \<and> cr_status cr = URMA_CR_SUCCESS)"
  shows "fc_inv (S(s := (S s)\<lparr>sd_q := (sd_q (S s))\<lparr>q_sq := ws\<rparr>, sd_txc := sd_txc (S s) @ cs\<rparr>,
         (\<not> s) := (S (\<not> s))\<lparr>sd_q := (sd_q (S (\<not> s)))\<lparr>q_rq := rs\<rparr>, sd_rxc := sd_rxc (S (\<not> s)) @ [rcr]\<rparr>))"
    (is "fc_inv (S(s := ?x', (\<not> s) := ?y'))")
proof -
  let ?x = "S s" and ?y = "S (\<not> s)"
  note I = fc_invD[OF i, of s] and J = fc_invD[OF i, of "\<not> s"]
  have nr: "\<not> win_read w" using sq(2) by (auto simp: win_read_def consuming_def)
  have l: "left w cs" using cs nr by (auto simp: left_def cr_failed_def URMA_CR_SUCCESS_def URMA_CR_WR_SUSPEND_DONE_def URMA_CR_WR_FLUSH_ERR_DONE_def)
  note D = side_done[OF conjunct1[OF I] sq(1) l, of "q_win_remote (sd_q ?x)"]
  have ox: "side_ok ?x'" "taken ?x' = taken ?x" using D by simp_all
  have oy: "side_ok ?y'" "taken ?y' = taken ?y" "read_done ?y' = read_done ?y"
    using conjunct1[OF J] by (simp_all add: side_ok_def Let_def taken_def reads_def in_flight_def read_done_def)
  have f: "fsends cs = 0" "fgrants cs = 0" using cs by (auto simp: fsends_def fgrants_def cr_failed_def)
  have g: "cr_grant rcr = grant w" using rc sq(2) by (auto simp: recv_cr_def cr_grant_def grant_def consuming_def split: urma_opcode.splits)
  have rd: "read_done ?x' = read_done ?x" using cs nr by (auto simp: read_done_def)
  have a: "sending ?x = Suc (sending ?x')" "owing ?x = grant w + owing ?x'" "sending ?y' = sending ?y + grant w" "owing ?y' = owing ?y"
    using sq f g by (simp_all add: sending_def owing_def out_def due_def)
  have c: "covered ?x' ?y'" "covered ?y' ?x'"
    by (rule covered_shift[OF conjunct1[OF conjunct2[OF I]] conjunct2[OF conjunct2[OF I]] a _ _ ox(2) oy(2) rd oy(3)]; simp add: rq)+
  have "fc_inv (\<lambda>b. if b = s then ?x' else ?y')" unfolding fc_inv_def using ox oy c by simp
  moreover have "S(s := ?x', (\<not> s) := ?y') = (\<lambda>b. if b = s then ?x' else ?y')" by (rule ext) auto
  ultimately show ?thesis by (simp only:)
qed

lemma inv_update:
  assumes i: "fc_inv S" and x: "side_ok ((S s)\<lparr>sd_q := t\<rparr>)" "taken ((S s)\<lparr>sd_q := t\<rparr>) = taken (S s)" "out t \<le> out (sd_q (S s))"
    "due t = due (sd_q (S s))" "q_rq t = q_rq (sd_q (S s))" "q_win_remote t = q_win_remote (sd_q (S s))" "q_win_local t = q_win_local (sd_q (S s))"
    "fc_local_set (q_fc t) = fc_local_set (q_fc (sd_q (S s)))"
  shows "fc_inv (S(s := (S s)\<lparr>sd_q := t\<rparr>))"
  by (rule fc_inv_side[OF i _ x(1)]) (use x(2-) in \<open>simp add: advances_def sending_def owing_def read_done_def\<close>)

lemma inv_device: "fc_inv S \<Longrightarrow> fc_inv (S(s := (S s)\<lparr>sd_q := (sd_q (S s))\<lparr>q_post := ps\<rparr>\<rparr>))"
  by (rule inv_update)
    (use fc_invD[of S s] in \<open>simp_all add: side_ok_def Let_def in_flight_def reads_def taken_def out_def due_def\<close>)

lemma inv_application:
  assumes i: "fc_inv S" and f: "\<And>b. b \<in> busy (S s) \<Longrightarrow> f b = q_bufs (sd_q (S s)) b"
  shows "fc_inv (S(s := (S s)\<lparr>sd_q := (sd_q (S s))\<lparr>q_bufs := f\<rparr>\<rparr>))"
proof (rule inv_update[OF i])
  let ?x = "S s" and ?t = "(sd_q (S s))\<lparr>q_bufs := f\<rparr>"
  have ok: "side_ok ?x" using fc_invD[OF i] by blast
  have m: "matches ?t w" if "w \<in> set (in_flight ?x)" "big w" "matches (sd_q ?x) w" for w
    using that f[of "wr_user_ctx w"] by (auto simp: matches_def busy_def)
  show "side_ok (?x\<lparr>sd_q := ?t\<rparr>)" "taken (?x\<lparr>sd_q := ?t\<rparr>) = taken ?x"
    by (rule side_grow[OF ok, where us = "[]" and ws = "[]"]; use m in \<open>simp add: holds_def reads_ok_def\<close>)+
qed (simp_all add: out_def due_def)

lemma inv_bind:
  assumes i: "fc_inv S" and w: "umq_ub_window_init (q_fc (sd_q (S s))) addr len rx tx = (fc, True)"
  shows "fc_inv (S(s := (S s)\<lparr>sd_q := (sd_q (S s))\<lparr>q_fc := fc, q_bound := True\<rparr>\<rparr>))"
proof -
  let ?x = "S s"
  have ok: "side_ok ?x" using fc_invD[OF i] by blast
  then have fc: "fc = (q_fc (sd_q ?x))\<lparr>remote_win_buf_addr := addr, remote_win_buf_len := len, remote_rx_depth := ucast rx,
      remote_tx_depth := ucast tx, remote_rx_window := 0\<rparr>"
    using w by (auto simp: umq_ub_window_init_def side_ok_def Let_def split: if_splits)
  show ?thesis
    by (rule inv_update[OF i]) (use ok in \<open>simp_all add: fc side_ok_def Let_def in_flight_def reads_def taken_def out_def due_def\<close>)
qed

lemma flow_control_init_fresh:
  assumes "feature AND UMQ_FEATURE_ENABLE_FLOW_CONTROL \<noteq> 0"
  shows "fc_enabled (umq_ub_flow_control_init rx tx feature cfg)" "\<not> fc_local_set (umq_ub_flow_control_init rx tx feature cfg)"
    "\<not> fc_remote_get (umq_ub_flow_control_init rx tx feature cfg)" "remote_rx_window (umq_ub_flow_control_init rx tx feature cfg) = 0"
    "local_rx_posted (umq_ub_flow_control_init rx tx feature cfg) = 0"
  using assms by (simp_all add: umq_ub_flow_control_init_def fc_zero_def Let_def)

lemma inv_start:
  assumes "fc_init S"
  shows "fc_inv S"
proof -
  have a: "fc_enabled (q_fc (sd_q (S s)))" "\<not> fc_remote_get (q_fc (sd_q (S s)))" "q_feature (sd_q (S s)) AND UMQ_FEATURE_API_PRO \<noteq> 0"
    "remote_rx_window (q_fc (sd_q (S s))) = 0" "local_rx_posted (q_fc (sd_q (S s))) = 0" "q_sq (sd_q (S s)) = []" "q_rq (sd_q (S s)) = []"
    "q_win_local (sd_q (S s)) = 0" "q_post_rx (sd_q (S s)) = []" "sd_txc (S s) = []" "sd_rxc (S s) = []" for s
    using spec[OF assms[unfolded fc_init_def Let_def], of s] flow_control_init_fresh[of "q_feature (sd_q (S s))"] by auto
  show ?thesis
    by (simp add: fc_inv_def side_ok_def covered_def sending_def owing_def out_def due_def fsends_def fgrants_def taken_def read_done_def
        in_flight_def reads_def Let_def a)
qed

lemma fc_step_inv: "fc_inv S \<Longrightarrow> fc_step S T \<Longrightarrow> fc_inv T"
proof -
  assume i: "fc_inv S" and "fc_step S T"
  from this(2) show "fc_inv T"
  proof cases
    case (post_tx b s t bad ret)
    then show ?thesis using inv_post_tx[OF i] by simp
  next
    case (post_rx b s t bad ret)
    then show ?thesis using inv_post_rx[OF i] by simp
  next
    case (poll_tx s fcs n t r)
    then show ?thesis using inv_poll_tx[OF i] by simp
  next
    case (poll_rx s n t r m)
    from inv_poll_rx[OF i poll_rx(2-4)] show ?thesis by (simp add: poll_rx(1))
  next
    case (deliver s w ws r rs rcr cs)
    from inv_deliver[OF i deliver(2-6)] show ?thesis by (simp add: deliver(1))
  next
    case (complete s w ws cs v)
    from inv_complete[OF i complete(2-5)] show ?thesis by (simp add: complete(1))
  next
    case (fail s w ws cr)
    from inv_fail[OF i fail(2-5)] show ?thesis by (simp add: fail(1))
  next
    case (device s ps)
    then show ?thesis using inv_device[OF i] by simp
  next
    case (application s f)
    from inv_application[OF i application(2)] show ?thesis by (simp add: application(1))
  next
    case (bind s addr len rx tx fc)
    from inv_bind[OF i bind(2)] show ?thesis by (simp add: bind(1))
  qed
qed

interpretation fcs: step_system fc_init fc_step fc_inv
  by unfold_locales (fact inv_start, fact fc_step_inv)

end
