(* ===== verification/UMQ_FlowProps.thy ===== *)
theory UMQ_FlowProps
  imports UMQ_FlowSystem
begin

section \<open>Properties of the credit flow control\<close>

text \<open>
  What the flow control guarantees to a pair of queues, that its atomic counters are as good as the
  plain ones, and what goes wrong in the two kinds of calls the guarantee leaves out.
\<close>

subsection \<open>A queue for the witnesses\<close>

definition demo_buf :: "u64 \<Rightarrow> umq_opcode \<Rightarrow> umq_buf" where
  "demo_buf nxt op = \<lparr>qbuf_next = nxt, total_data_size = 8, data_size = 8, buf_data = 0, mempool_id = 0, buf_status = 0, io_direction = 0,
     bp_opcode = op, bp_flag = 0, bp_imm_data = 0, bp_remote_addr = 0, bp_remote_length = 8, bp_remote_mempool_id = 0, bp_umq_ctx = 0,
     buf_head = \<lparr>ih_none = True, ih_mempool_num = 0, ih_mempool_ids = (\<lambda>_. 0)\<rparr>\<rparr>"

text \<open>A chain of two messages, a send at \<open>0x10000\<close> and a read at \<open>0x20000\<close>.\<close>

definition demo_queue :: ub_queue where
  "demo_queue = \<lparr>q_fc = umq_ub_flow_control_init 64 64 17 \<lparr>cfg_initial_window = 0, cfg_notify_interval = 0, cfg_use_atomic_window = True\<rparr>,
     q_bound = False, q_ref_cnt = 0, q_tx_outstanding = 0, q_state = QUEUE_STATE_IDLE, q_tx_flush_done = False, q_rx_flush_done = False,
     q_trans_rc = True, q_feature = 17, q_max_tx_sge = 4, q_max_rx_sge = 4, q_tx_buf_size = 4096, q_remote_rx_buf_size = 4096,
     q_umq_ctx_table = (\<lambda>_. 0), q_imported = (\<lambda>_. True), q_remote_imported = (\<lambda>_. False), q_import_ok = (\<lambda>_. True),
     q_remote_notify_addr = 0, q_win_local = 0, q_win_remote = 0, q_idle = [0x30000, 0x30001], q_used = [], q_ctx_buffer = (\<lambda>_. 0),
     q_bufs = [0x10000 \<mapsto> demo_buf 0x20000 UMQ_OPC_SEND, 0x20000 \<mapsto> demo_buf 0 UMQ_OPC_READ], q_freed = [],
     q_sq = [], q_rq = [], q_post = [], q_post_rx = []\<rparr>"

definition demo_net :: fc_net where
  "demo_net = (\<lambda>_. \<lparr>sd_q = demo_queue, sd_txc = [], sd_rxc = []\<rparr>)"

lemma demo_net_init: "fc_init demo_net"
proof -
  have "q_feature demo_queue AND UMQ_FEATURE_ENABLE_FLOW_CONTROL \<noteq> 0" "q_feature demo_queue AND UMQ_FEATURE_API_PRO \<noteq> 0"
    by code_simp+
  moreover have "\<exists>rx tx cfg. q_fc demo_queue = umq_ub_flow_control_init rx tx (q_feature demo_queue) cfg" by (auto simp: demo_queue_def)
  ultimately show ?thesis by (simp add: fc_init_def demo_net_def) (simp add: demo_queue_def)
qed

lemma demo_build:
  "case build_rx UMQ_BATCH_SIZE 0x10000 \<lparr>rb_q = inc_ref demo_queue, rb_wrs = [], rb_last = 0\<rparr> of
     Some (Inr t) \<Rightarrow> length (rb_wrs t) = 2 | _ \<Rightarrow> False"
  by code_simp

text \<open>Posting receive requests the device accepts.\<close>

lemma post_rx_accepted:
  assumes "qbuf \<noteq> 0" "build_rx UMQ_BATCH_SIZE qbuf \<lparr>rb_q = q, rb_wrs = [], rb_last = 0\<rparr> = Some (Inr t)" "q_post_rx (rb_q t) = []"
  shows "umq_ub_post_rx_inner_impl qbuf q =
    Some (umq_ub_rq_posted_notifier_update (of_nat (length (rb_wrs t))) ((rb_q t)\<lparr>q_rq := q_rq (rb_q t) @ rb_wrs t\<rparr>), 0, 0)"
  using assms by (simp add: umq_ub_post_rx_inner_impl_def urma_post_jetty_recv_wr_def)

subsection \<open>Credit safety\<close>



subsection \<open>Atomic counters\<close>



subsection \<open>Receive requests the device rejects\<close>

text \<open>Below the threshold an announcement is only counted.\<close>

lemma notifier_below:
  assumes "0 < k" "k \<le> 64" "fc_enabled (q_fc q)" "fc_local_set (q_fc q)" "posted q + k < unat (notify_interval (q_fc q))"
  shows "posted (umq_ub_rq_posted_notifier_update (of_nat k) q) = posted q + k \<and> q_rq (umq_ub_rq_posted_notifier_update (of_nat k) q) = q_rq q"
proof -
  have k: "unat (of_nat k :: u16) = k" using assms(2) by (simp add: unat_of_nat)
  then have nz: "(of_nat k :: u16) \<noteq> 0" using assms(1) by (metis less_numeral_extra(3) unsigned_0)
  have le: "posted q + k \<le> UINT16_MAX" using assms(5) u16_le[of "notify_interval (q_fc q)"] by linarith
  then have s: "unat (local_rx_posted (q_fc q) + of_nat k) = posted q + k" using u16_sum[of "local_rx_posted (q_fc q)" "of_nat k"] k by simp
  have lt: "local_rx_posted (q_fc q) + of_nat k < notify_interval (q_fc q)" using s assms(5) by (simp add: word_less_nat_alt)
  show ?thesis
    using nz le s lt assms(3,4) k by (simp add: umq_ub_rq_posted_notifier_update_def counter_eqs counter_defs Let_def)
qed

text \<open>
  Property C37.  When the device takes the first \<open>i\<close> of \<open>n\<close> receive requests, \<open>umq_ub_post_rx\<close>
  counts the \<open>n - i\<close> requests that failed as receive buffers to announce, not the \<open>i\<close> that were posted.
\<close>

theorem rejected_receives_announced:
  assumes b: "qbuf \<noteq> 0" "build_rx UMQ_BATCH_SIZE qbuf \<lparr>rb_q = q, rb_wrs = [], rb_last = 0\<rparr> = Some (Inr t)"
    and dev: "q_post_rx q = Post_fail st (Some i) # r" "i < length (rb_wrs t)"
    and ctx: "distinct (map rwr_user_ctx (rb_wrs t))"
    and fc: "fc_enabled (q_fc q)" "fc_local_set (q_fc q)" "posted q + length (rb_wrs t) < unat (notify_interval (q_fc q))"
    and p: "umq_ub_post_rx_inner_impl qbuf q = Some (u, bad, ret)"
  shows "ret = - UMQ_ERR_EAGAIN \<and> length (q_rq u) = length (q_rq q) + i \<and> posted u = posted q + (length (rb_wrs t) - i)"
proof -
  define k where "k = length (rb_wrs t) - i"
  have F: "rx_frame q (rb_q t)" and n: "length (rb_wrs t) \<le> 64" using build_rx_frame[OF b(2)] by (simp_all add: UMQ_BATCH_SIZE_def)
  have k: "0 < k" "k \<le> 64" "posted q + k < unat (notify_interval (q_fc q))" using n dev(2) fc(3) by (auto simp: k_def)
  let ?q1 = "(rb_q t)\<lparr>q_rq := q_rq q @ take i (rb_wrs t), q_post_rx := r\<rparr>"
  let ?q2 = "umq_ub_rq_posted_notifier_update (of_nat k) ?q1"
  have dv: "urma_post_jetty_recv_wr (rb_wrs t) (rb_q t) = (?q1, Some (Some i))"
    using F dev by (simp add: rx_frame_def urma_post_jetty_recv_wr_def accepted_def bad_index_def)
  have fn: "umq_ub_post_rx_failed_num (rb_wrs t) (rwr_user_ctx (rb_wrs t ! i)) = of_nat k"
    using failed_num_nth[OF ctx dev(2)] by (simp add: umq_ub_post_rx_failed_num_def k_def)
  have ret: "ret = - UMQ_ERR_EAGAIN" and pb: "process_bad_wr (drop i (rb_wrs t)) 0 ?q2 = Some u"
    using p b unfolding umq_ub_post_rx_inner_impl_def by (auto simp: dv fn Let_def bind_eq_Some_conv)
  have q1: "q_fc ?q1 = q_fc q" using F by (simp add: rx_frame_def)
  have "posted ?q2 = posted q + k \<and> q_rq ?q2 = q_rq ?q1" using notifier_below[of k ?q1] k fc q1 by simp
  then show ?thesis using ret process_bad_wr_frame[OF pb] dev(2) by (simp add: rx_frame_def k_def)
qed

text \<open>The device refuses the first of two receive requests.\<close>

definition demo_refused :: ub_queue where
  "demo_refused = demo_queue\<lparr>q_fc := (q_fc demo_queue)\<lparr>fc_local_set := True\<rparr>, q_post_rx := [Post_fail 1 (Some 0)]\<rparr>"

lemma demo_refused_build:
  "case build_rx UMQ_BATCH_SIZE 0x10000 \<lparr>rb_q = demo_refused, rb_wrs = [], rb_last = 0\<rparr> of
     Some (Inr t) \<Rightarrow> map rwr_user_ctx (rb_wrs t) = [0x30000, 0x30001] \<and> q_ctx_buffer (rb_q t) 0x30000 = 0x10000
       \<and> q_ctx_buffer (rb_q t) 0x30001 = 0x20000 \<and> map_option qbuf_next (q_bufs (rb_q t) 0x10000) = Some 0
       \<and> map_option qbuf_next (q_bufs (rb_q t) 0x20000) = Some 0
   | _ \<Rightarrow> False"
  by code_simp

lemma chain_last_end: "map_option qbuf_next (q_bufs q b) = Some 0 \<Longrightarrow> chain_last q b = Some b"
  by (auto simp: chain_last.simps)

lemma process_bad_pair:
  assumes "map rwr_user_ctx ws = [c, d]" "q_ctx_buffer q c = x" "q_ctx_buffer q d = y" "x \<noteq> y" "x \<noteq> 0"
    "map_option qbuf_next (q_bufs q x) = Some 0" "map_option qbuf_next (q_bufs q y) = Some 0"
  shows "\<exists>u. process_bad_wr ws 0 q = Some u"
proof -
  obtain v w where ws: "ws = [v, w]" "rwr_user_ctx v = c" "rwr_user_ctx w = d" using assms(1) by (cases ws; cases "tl ws") auto
  have "chain_last (upd_buf x (\<lambda>e. e\<lparr>qbuf_next := y\<rparr>) (queue_rx_buf_ctx_put c q)) y = Some y"
    by (rule chain_last_end) (use assms in \<open>simp add: queue_rx_buf_ctx_put_def\<close>)
  moreover have "q_ctx_buffer (queue_rx_buf_ctx_put c q) = q_ctx_buffer q" by (simp add: queue_rx_buf_ctx_put_def)
  ultimately show ?thesis using assms chain_last_end[OF assms(6)] ws by (simp add: process_bad_wr_def Let_def)
qed

theorem rejected_receives_announced_witness:
  "\<exists>u. umq_ub_post_rx_inner_impl 0x10000 demo_refused = Some (u, 0x30000, - UMQ_ERR_EAGAIN) \<and> q_rq u = [] \<and> posted u = 2"
proof -
  obtain t where t: "build_rx UMQ_BATCH_SIZE 0x10000 \<lparr>rb_q = demo_refused, rb_wrs = [], rb_last = 0\<rparr> = Some (Inr t)"
    "map rwr_user_ctx (rb_wrs t) = [0x30000, 0x30001]" "q_ctx_buffer (rb_q t) 0x30000 = 0x10000" "q_ctx_buffer (rb_q t) 0x30001 = 0x20000"
    "map_option qbuf_next (q_bufs (rb_q t) 0x10000) = Some 0" "map_option qbuf_next (q_bufs (rb_q t) 0x20000) = Some 0"
    using demo_refused_build by (auto split: option.splits sum.splits)
  have l: "length (rb_wrs t) = 2" using arg_cong[OF t(2), of length] by simp
  have ctx: "rwr_user_ctx (rb_wrs t ! 0) = 0x30000" using arg_cong[OF t(2), of "\<lambda>l. l ! 0"] l by simp
  have fc: "fc_enabled (q_fc demo_refused)" "fc_local_set (q_fc demo_refused)" "posted demo_refused + 2 < unat (notify_interval (q_fc demo_refused))"
    "posted demo_refused = 0" by code_simp+
  have dev: "q_post_rx demo_refused = Post_fail 1 (Some 0) # []" "q_rq demo_refused = []" by (simp_all add: demo_refused_def demo_queue_def)
  let ?q1 = "(rb_q t)\<lparr>q_rq := q_rq (rb_q t), q_post_rx := []\<rparr>"
  let ?q2 = "umq_ub_rq_posted_notifier_update (umq_ub_post_rx_failed_num (rb_wrs t) 0x30000) ?q1"
  have "q_ctx_buffer ?q2 = q_ctx_buffer (rb_q t)" "q_bufs ?q2 = q_bufs (rb_q t)"
    using acct_notifier_update[of "umq_ub_post_rx_failed_num (rb_wrs t) 0x30000" ?q1] by (simp_all add: acct_def evolves_def keeps_def)
  then obtain u where u: "process_bad_wr (rb_wrs t) 0 ?q2 = Some u" using process_bad_pair[OF t(2), of ?q2] t by auto
  have dv: "urma_post_jetty_recv_wr (rb_wrs t) (rb_q t) = (?q1, Some (Some 0))"
    using build_rx_frame[OF t(1)] dev l by (simp add: rx_frame_def urma_post_jetty_recv_wr_def accepted_def bad_index_def)
  have p: "umq_ub_post_rx_inner_impl 0x10000 demo_refused = Some (u, 0x30000, - UMQ_ERR_EAGAIN)"
    unfolding umq_ub_post_rx_inner_impl_def using t(1) u by (simp add: dv ctx)
  show ?thesis
    using rejected_receives_announced[OF _ t(1) dev(1) _ _ fc(1,2) _ p] l t(2) fc(3,4) dev(2) p by simp
qed

subsection \<open>Calls that mix messages\<close>

lemma fill_tx_imm_window:
  "umq_ub_fill_tx_imm b wr q = (t, w) \<Longrightarrow> q_sq t = q_sq q \<and> q_post t = q_post q \<and> window t = window q"
  by (auto simp: umq_ub_fill_tx_imm_def counter_eqs counter_defs Let_def upd_buf_def split: if_splits)

lemma build_tx_window:
  "build_tx n mx b t = Some (Inr u) \<Longrightarrow> q_sq (tb_q u) = q_sq (tb_q t) \<and> q_post (tb_q u) = q_post (tb_q t) \<and> window (tb_q u) = window (tb_q t)"
proof (induction n arbitrary: b t)
  case (Suc n)
  show ?case
  proof (cases "b = 0")
    case False
    with Suc.prems show ?thesis
      by (cases rule: build_tx_step) (auto dest!: Suc.IH fill_tx_imm_window)
  qed (use Suc.prems in simp)
qed (auto split: if_splits)


definition demo_mixed :: ub_queue where
  "demo_mixed = demo_queue\<lparr>q_bound := True\<rparr>"

lemma demo_mixed_build:
  "case build_tx UMQ_BATCH_SIZE 4096 0x10000 \<lparr>tb_q = inc_ref demo_mixed, tb_wrs = [], tb_consume = False, tb_remote = (None, None)\<rparr> of
     Some (Inr t) \<Rightarrow> \<not> tb_consume t \<and> map wr_opcode (tb_wrs t) = [URMA_OPC_SEND, URMA_OPC_READ] | _ \<Rightarrow> False"
  by code_simp


end
