(* ===== verification/Bond_Window.thy ===== *)
theory Bond_Window
  imports Umdk_Prelude
begin

section \<open>URMA bonding: the sliding window\<close>

text \<open>
  Module \<^verbatim>\<open>bond/utils/bondp_slide_window.c\<close> on the bitmaps of \<^verbatim>\<open>common/include/ub_bitmap.h\<close>: a
  window of \<open>window_size\<close> sequence numbers over a circular space of \<open>total_size\<close> numbers, with a
  bit per number.  The theory holds the operations and shows that the window implements its
  specification on unbounded numbers: a number is accepted exactly when it is in the window and
  was not accepted before, and the window starts at the smallest number not yet accepted.
\<close>

subsection \<open>Bitmaps\<close>

type_synonym ub_bitmap = "nat \<Rightarrow> u64"

definition ub_bitmap_offset_bit :: "nat \<Rightarrow> u64" where
  "ub_bitmap_offset_bit offset = push_bit (offset mod 64) 1"

definition ub_bitmap_is_set :: "ub_bitmap \<Rightarrow> nat \<Rightarrow> bool" where
  "ub_bitmap_is_set bitmap offset \<longleftrightarrow> bitmap (offset div 64) AND ub_bitmap_offset_bit offset \<noteq> 0"

definition ub_bitmap_set1 :: "ub_bitmap \<Rightarrow> nat \<Rightarrow> ub_bitmap" where
  "ub_bitmap_set1 bitmap offset =
     bitmap(offset div 64 := bitmap (offset div 64) OR ub_bitmap_offset_bit offset)"

definition ub_bitmap_set0 :: "ub_bitmap \<Rightarrow> nat \<Rightarrow> ub_bitmap" where
  "ub_bitmap_set0 bitmap offset =
     bitmap(offset div 64 := bitmap (offset div 64) AND NOT (ub_bitmap_offset_bit offset))"

text \<open>\<open>calloc\<close>: all words of a new bitmap are zero.\<close>

definition ub_bitmap_alloc :: "bool \<Rightarrow> ub_bitmap option" where
  "ub_bitmap_alloc mem = (if mem then Some (\<lambda>_. 0) else None)"

lemma bitmap_bit: "ub_bitmap_is_set m n \<longleftrightarrow> bit (m (n div 64)) (n mod 64)"
proof -
  have "x AND push_bit k 1 \<noteq> 0 \<longleftrightarrow> bit x k" if "k < 64" for x :: u64 and k
  proof
    assume "x AND push_bit k 1 \<noteq> 0"
    then obtain j where "bit (x AND push_bit k 1) j" by (metis bit_eq_iff bit_0_eq bot_apply bot_bool_def)
    then show "bit x k" by (auto simp: bit_simps)
  next
    assume "bit x k"
    with that have "bit (x AND push_bit k 1) k" by (auto simp: bit_simps)
    then show "x AND push_bit k 1 \<noteq> 0" by auto
  qed
  then show ?thesis by (simp add: ub_bitmap_is_set_def ub_bitmap_offset_bit_def)
qed

lemma same_bit_iff: "n div 64 = k div 64 \<and> n mod 64 = k mod 64 \<longleftrightarrow> n = (k :: nat)"
  by (metis div_mult_mod_eq)

lemma is_set_set1 [simp]: "ub_bitmap_is_set (ub_bitmap_set1 m n) k \<longleftrightarrow> k = n \<or> ub_bitmap_is_set m k"
  using same_bit_iff[of k n]
  by (auto simp: bitmap_bit ub_bitmap_set1_def ub_bitmap_offset_bit_def bit_simps)

lemma is_set_set0 [simp]: "ub_bitmap_is_set (ub_bitmap_set0 m n) k \<longleftrightarrow> k \<noteq> n \<and> ub_bitmap_is_set m k"
  using same_bit_iff[of k n]
  by (auto simp: bitmap_bit ub_bitmap_set0_def ub_bitmap_offset_bit_def bit_simps)

lemma is_set_zero [simp]: "\<not> ub_bitmap_is_set (\<lambda>_. 0) k"
  by (simp add: ub_bitmap_is_set_def)

subsection \<open>The window\<close>

record bdp_slide_wnd =
  wnd_bits :: ub_bitmap
  total_size :: u32
  window_size :: u32
  wnd_head :: u32

definition BDP_SLIDE_WND_OUT_OF_WND :: int where "BDP_SLIDE_WND_OUT_OF_WND = -2"
definition BDP_SLIDE_WND_DUPLICATE :: int where "BDP_SLIDE_WND_DUPLICATE = -3"

definition is_seq_in_loop_range :: "u32 \<Rightarrow> u32 \<Rightarrow> u32 \<Rightarrow> u32 \<Rightarrow> bool" where
  "is_seq_in_loop_range head len max_size seq =
     (let tail = (head + len) mod max_size
      in if tail < head then head \<le> seq \<or> seq < tail else head \<le> seq \<and> seq < tail)"

text \<open>\<open>mem\<close> is whether the bitmap can be allocated.\<close>

definition bdp_slide_wnd_init :: "bool \<Rightarrow> u32 \<Rightarrow> u32 \<Rightarrow> u32 \<Rightarrow> bdp_slide_wnd option" where
  "bdp_slide_wnd_init mem total_sz window_sz head =
     (if total_sz \<le> window_sz then None
      else case ub_bitmap_alloc mem of
             None \<Rightarrow> None
           | Some bits \<Rightarrow> Some \<lparr>wnd_bits = bits, total_size = total_sz, window_size = window_sz, wnd_head = head mod total_sz\<rparr>)"

text \<open>
  The two queries return \<open>-1\<close> for a number outside the space, which their return type
  \<open>bool\<close> turns into true.
\<close>

definition bdp_slide_wnd_seq_in_window :: "bdp_slide_wnd \<Rightarrow> u32 \<Rightarrow> bool" where
  "bdp_slide_wnd_seq_in_window w seq =
     (if total_size w \<le> seq then True
      else is_seq_in_loop_range (wnd_head w) (window_size w) (total_size w) seq)"

definition bdp_slide_wnd_has :: "bdp_slide_wnd \<Rightarrow> u32 \<Rightarrow> bool" where
  "bdp_slide_wnd_has w seq =
     (if total_size w \<le> seq then True
      else is_seq_in_loop_range (wnd_head w) (window_size w) (total_size w) seq
        \<and> ub_bitmap_is_set (wnd_bits w) (unat seq))"

text \<open>The body of the loop of \<open>bdp_slide_wnd_add\<close>, and the loop; None would be a loop that does not end.\<close>

definition slide_once :: "bdp_slide_wnd \<Rightarrow> bdp_slide_wnd" where
  "slide_once w = w\<lparr>wnd_bits := ub_bitmap_set0 (wnd_bits w) (unat ((wnd_head w + window_size w) mod total_size w)),
                    wnd_head := (wnd_head w + 1) mod total_size w\<rparr>"

partial_function (option) slide :: "bdp_slide_wnd \<Rightarrow> bdp_slide_wnd option" where
  "slide w = (if ub_bitmap_is_set (wnd_bits w) (unat (wnd_head w)) then slide (slide_once w) else Some w)"

definition bdp_slide_wnd_add :: "bdp_slide_wnd \<Rightarrow> u32 \<Rightarrow> (bdp_slide_wnd \<times> int) option" where
  "bdp_slide_wnd_add w seq =
     (if \<not> bdp_slide_wnd_seq_in_window w seq then Some (w, BDP_SLIDE_WND_OUT_OF_WND)
      else if ub_bitmap_is_set (wnd_bits w) (unat seq) then Some (w, BDP_SLIDE_WND_DUPLICATE)
      else map_option (\<lambda>w'. (w', 0)) (slide (w\<lparr>wnd_bits := ub_bitmap_set1 (wnd_bits w) (unat seq)\<rparr>)))"

subsection \<open>The specification\<close>

text \<open>
  \<open>base\<close> is the smallest number not yet accepted and \<open>got\<close> the set of accepted numbers, both
  without wrap-around; the window holds the residues.  The sizes must leave room for
  \<open>head + window_size\<close> in 32 bits.
\<close>

definition wnd_sizes :: "bdp_slide_wnd \<Rightarrow> bool" where
  "wnd_sizes w \<longleftrightarrow> 0 < unat (window_size w) \<and> unat (window_size w) < unat (total_size w)
     \<and> unat (total_size w) + unat (window_size w) \<le> 2 ^ 32"

definition wnd_rel :: "bdp_slide_wnd \<Rightarrow> nat \<Rightarrow> nat set \<Rightarrow> bool" where
  "wnd_rel w base got \<longleftrightarrow> wnd_sizes w \<and> unat (wnd_head w) = base mod unat (total_size w)
     \<and> {..<base} \<subseteq> got \<and> got \<subseteq> {..<base + unat (window_size w)}
     \<and> (\<forall>k < unat (window_size w). ub_bitmap_is_set (wnd_bits w) ((base + k) mod unat (total_size w)) \<longleftrightarrow> base + k \<in> got)"

definition wnd_rep :: "bdp_slide_wnd \<Rightarrow> nat \<Rightarrow> nat set \<Rightarrow> bool" where
  "wnd_rep w base got \<longleftrightarrow> wnd_rel w base got \<and> base \<notin> got"

text \<open>The numbers whose residue says where they are relative to the window.\<close>

definition near :: "bdp_slide_wnd \<Rightarrow> nat \<Rightarrow> nat \<Rightarrow> bool" where
  "near w base n \<longleftrightarrow> base + unat (window_size w) \<le> n + unat (total_size w) \<and> n < base + unat (total_size w)"

lemma add_mod_once: "h < t \<Longrightarrow> d < t \<Longrightarrow> (h + d) mod t = (if h + d < t then h + d else h + d - (t :: nat))"
  by (auto simp: mod_if)

lemma unat_mod_seq: "0 < unat t \<Longrightarrow> unat (of_nat (n mod unat t) :: u32) = n mod unat (t :: u32)"
  by (simp add: unat_of_nat) (meson less_trans mod_less mod_less_divisor u32_lt_bound)

lemma unat_tail:
  assumes "unat t + unat l \<le> 2 ^ 32" "unat h < unat t"
  shows "unat ((h + l) mod t :: u32) = (unat h + unat l) mod unat t"
  using assms by (simp add: unat_mod unat_add_u32_small)

lemma loop_range_nat:
  fixes h l t s base n :: nat
  assumes l: "0 < l" "l < t" and n: "base + l \<le> n + t" "n < base + t"
    and h: "h = base mod t" and s: "s = n mod t"
  shows "(if (h + l) mod t < h then h \<le> s \<or> s < (h + l) mod t else h \<le> s \<and> s < (h + l) mod t)
    \<longleftrightarrow> base \<le> n \<and> n < base + l"
proof -
  have ht: "h < t" using l h by simp
  have tail: "(h + l) mod t = (if h + l < t then h + l else h + l - t)" using ht l by (intro add_mod_once) auto
  show ?thesis
  proof (cases "base \<le> n")
    case True
    define d where "d = n - base"
    have d: "n = base + d" "d < t" using True n by (auto simp: d_def)
    have "s = (h + d) mod t" using d by (simp add: s h mod_add_left_eq)
    then have "s = (if h + d < t then h + d else h + d - t)" using add_mod_once[OF ht d(2)] by simp
    then show ?thesis unfolding tail using l ht d
      by (cases "h + d < t"; cases "h + l < t") auto
  next
    case False
    define e where "e = n + t - base"
    have e: "n + t = base + e" "l \<le> e" "e < t" using False n by (auto simp: e_def)
    have "s = (n + t) mod t" by (simp add: s)
    also have "\<dots> = (h + e) mod t" unfolding e(1) by (simp add: h mod_add_left_eq)
    finally have "s = (if h + e < t then h + e else h + e - t)" using add_mod_once[OF ht e(3)] by simp
    then show ?thesis unfolding tail using l ht e False
      by (cases "h + e < t"; cases "h + l < t") auto
  qed
qed

lemma range_window:
  assumes sz: "wnd_sizes w" and hd: "unat (wnd_head w) = base mod unat (total_size w)" and "near w base n"
  shows "is_seq_in_loop_range (wnd_head w) (window_size w) (total_size w) (of_nat (n mod unat (total_size w)))
    \<longleftrightarrow> base \<le> n \<and> n < base + unat (window_size w)"
proof -
  have l: "0 < unat (window_size w)" "unat (window_size w) < unat (total_size w)"
    "unat (total_size w) + unat (window_size w) \<le> 2 ^ 32" using sz by (simp_all add: wnd_sizes_def)
  have h: "unat (wnd_head w) < unat (total_size w)" using l hd by simp
  have nr: "base + unat (window_size w) \<le> n + unat (total_size w) \<and> n < base + unat (total_size w)"
    using assms(3) by (simp only: near_def)
  have us: "unat (of_nat (n mod unat (total_size w)) :: u32) = n mod unat (total_size w)"
    using l by (intro unat_mod_seq) simp
  show ?thesis
    unfolding is_seq_in_loop_range_def Let_def word_less_nat_alt word_le_nat_alt unat_tail[OF l(3) h] us
    by (rule loop_range_nat[OF l(1,2) conjunct1[OF nr] conjunct2[OF nr] hd refl])
qed

lemma window_residues_distinct:
  assumes "i < t" "k < (t :: nat)" "(base + i) mod t = (base + k) mod t"
  shows "i = k"
proof -
  have "base mod t < t" using assms(1) by simp
  moreover have "(base mod t + i) mod t = (base mod t + k) mod t" using assms(3) by (simp add: mod_add_left_eq)
  ultimately show ?thesis using assms(1,2) by (auto simp: add_mod_once split: if_splits)
qed

text \<open>One turn of the loop moves the window by one number.\<close>

lemma wnd_rel_slide_once:
  assumes r: "wnd_rel w base got" and b: "base \<in> got"
  shows "wnd_rel (slide_once w) (Suc base) got"
proof -
  define t l where "t = unat (total_size w)" and "l = unat (window_size w)"
  have sz: "wnd_sizes w" and l: "0 < l" "l < t" "t + l \<le> 2 ^ 32"
    and hd: "unat (wnd_head w) = base mod t" and got: "{..<base} \<subseteq> got" "got \<subseteq> {..<base + l}"
    and bits: "\<And>k. k < l \<Longrightarrow> ub_bitmap_is_set (wnd_bits w) ((base + k) mod t) \<longleftrightarrow> base + k \<in> got"
    using r by (auto simp: wnd_rel_def wnd_sizes_def t_def l_def)
  have ht: "unat (wnd_head w) < unat (total_size w)" using hd l by (simp flip: t_def)
  have tail: "unat ((wnd_head w + window_size w) mod total_size w) = (base + l) mod t"
    using unat_tail[of "total_size w" "window_size w" "wnd_head w"] l ht hd
    by (simp add: mod_add_left_eq flip: t_def l_def)
  have head: "unat ((wnd_head w + 1) mod total_size w) = Suc base mod t"
    using unat_tail[of "total_size w" 1 "wnd_head w"] l ht hd by (simp add: mod_Suc_eq flip: t_def)
  have "ub_bitmap_is_set (ub_bitmap_set0 (wnd_bits w) ((base + l) mod t)) ((Suc base + k) mod t) \<longleftrightarrow> Suc base + k \<in> got"
    if k: "k < l" for k
  proof (cases "Suc k = l")
    case True
    then have "Suc base + k = base + l" by simp
    then show ?thesis using got(2) by auto
  next
    case False
    then have "Suc k < l" using k by simp
    moreover have "(base + Suc k) mod t \<noteq> (base + l) mod t"
      using window_residues_distinct[of "Suc k" t l base] \<open>Suc k < l\<close> l by auto
    ultimately show ?thesis using bits[of "Suc k"] by simp
  qed
  moreover have "{..<Suc base} \<subseteq> got" using got(1) b by (auto simp: less_Suc_eq)
  moreover have "got \<subseteq> {..<Suc base + l}" using got(2) by auto
  ultimately show ?thesis
    using sz by (simp add: wnd_rel_def wnd_sizes_def slide_once_def tail head flip: t_def l_def)
qed

text \<open>The loop ends, with the window at the smallest missing number.\<close>

lemma slide_ends:
  assumes "wnd_rel w base got"
  shows "\<exists>w' base'. slide w = Some w' \<and> wnd_rep w' base' got \<and> base \<le> base'
    \<and> total_size w' = total_size w \<and> window_size w' = window_size w"
  using assms
proof (induction "card (got \<inter> {base..})" arbitrary: w base rule: less_induct)
  case less
  have fin: "finite got" using less.prems by (auto simp: wnd_rel_def intro: finite_subset)
  have bit: "ub_bitmap_is_set (wnd_bits w) (unat (wnd_head w)) \<longleftrightarrow> base \<in> got"
    using less.prems unfolding wnd_rel_def wnd_sizes_def by (metis add_0_right)
  show ?case
  proof (cases "base \<in> got")
    case False
    then have "slide w = Some w" using bit by (subst slide.simps) simp
    with False less.prems show ?thesis by (auto simp: wnd_rep_def)
  next
    case True
    have "got \<inter> {Suc base..} = got \<inter> {base..} - {base}" by auto
    then have "card (got \<inter> {Suc base..}) < card (got \<inter> {base..})"
      using True fin by (simp only:) (rule card_Diff1_less, auto)
    from less.hyps[OF this wnd_rel_slide_once[OF less.prems True]] obtain w' base' where
      "slide (slide_once w) = Some w'" "wnd_rep w' base' got" "Suc base \<le> base'"
      "total_size w' = total_size w" "window_size w' = window_size w"
      by (auto simp: slide_once_def)
    moreover have "slide w = slide (slide_once w)" using bit True by (subst slide.simps) simp
    ultimately show ?thesis by (auto intro: Suc_leD)
  qed
qed

lemma wnd_seq_lt:
  assumes "wnd_sizes w"
  shows "\<not> total_size w \<le> of_nat (n mod unat (total_size w))"
proof -
  have "0 < unat (total_size w)" using assms by (simp add: wnd_sizes_def)
  then show ?thesis using unat_mod_seq[of "total_size w" n] by (simp add: word_le_nat_alt not_le)
qed

lemma wnd_bit:
  assumes "wnd_rel w base got" "base \<le> n" "n < base + unat (window_size w)"
  shows "ub_bitmap_is_set (wnd_bits w) (unat (of_nat (n mod unat (total_size w)) :: u32)) \<longleftrightarrow> n \<in> got"
proof -
  have "0 < unat (total_size w)" using assms(1) by (simp add: wnd_rel_def wnd_sizes_def)
  moreover have "n - base < unat (window_size w)" "base + (n - base) = n" using assms by auto
  ultimately show ?thesis using assms(1) unfolding wnd_rel_def by (metis unat_mod_seq)
qed

text \<open>The queries and the insertion agree with the specification on every number near the window.\<close>

theorem wnd_in_window:
  assumes "wnd_rel w base got" "near w base n"
  shows "bdp_slide_wnd_seq_in_window w (of_nat (n mod unat (total_size w))) \<longleftrightarrow> base \<le> n \<and> n < base + unat (window_size w)"
  using assms range_window[of w base n] wnd_seq_lt[of w n]
  by (simp add: bdp_slide_wnd_seq_in_window_def wnd_rel_def)

theorem wnd_has:
  assumes "wnd_rel w base got" "near w base n"
  shows "bdp_slide_wnd_has w (of_nat (n mod unat (total_size w))) \<longleftrightarrow> base \<le> n \<and> n \<in> got"
proof -
  have "got \<subseteq> {..<base + unat (window_size w)}" using assms(1) by (simp add: wnd_rel_def)
  then show ?thesis
    using assms range_window[of w base n] wnd_seq_lt[of w n] wnd_bit[OF assms(1), of n]
    by (auto simp: bdp_slide_wnd_has_def wnd_rel_def)
qed

theorem wnd_add_new:
  assumes w: "wnd_rep w base got" and n: "near w base n" and new: "base \<le> n" "n < base + unat (window_size w)" "n \<notin> got"
  shows "\<exists>w' base'. bdp_slide_wnd_add w (of_nat (n mod unat (total_size w))) = Some (w', 0)
    \<and> wnd_rep w' base' (insert n got) \<and> base \<le> base' \<and> total_size w' = total_size w \<and> window_size w' = window_size w"
proof -
  define t where "t = unat (total_size w)"
  define v where "v = w\<lparr>wnd_bits := ub_bitmap_set1 (wnd_bits w) (n mod t)\<rparr>"
  have r: "wnd_rel w base got" using w by (simp add: wnd_rep_def)
  then have t: "0 < t" "unat (window_size w) < t" by (auto simp: wnd_rel_def wnd_sizes_def t_def)
  have "(base + k) mod t = n mod t \<longleftrightarrow> base + k = n" if "k < unat (window_size w)" for k
    using window_residues_distinct[of k t "n - base" base] new that t by auto
  then have "wnd_rel v base (insert n got)"
    using r new by (auto simp: wnd_rel_def wnd_sizes_def v_def simp flip: t_def)
  from slide_ends[OF this] obtain w' base' where "slide v = Some w'" "wnd_rep w' base' (insert n got)" "base \<le> base'"
    "total_size w' = total_size w" "window_size w' = window_size w" by (auto simp: v_def)
  moreover have "bdp_slide_wnd_add w (of_nat (n mod t)) = map_option (\<lambda>w'. (w', 0)) (slide v)"
    using wnd_in_window[OF r n] wnd_bit[OF r new(1,2)] new t unat_mod_seq[of "total_size w" n]
    by (simp add: bdp_slide_wnd_add_def v_def flip: t_def)
  ultimately show ?thesis by (auto simp: t_def)
qed

theorem wnd_add_refused:
  assumes w: "wnd_rep w base got" and n: "near w base n"
  shows "n < base \<or> base + unat (window_size w) \<le> n \<Longrightarrow>
      bdp_slide_wnd_add w (of_nat (n mod unat (total_size w))) = Some (w, BDP_SLIDE_WND_OUT_OF_WND)"
    and "base \<le> n \<Longrightarrow> n \<in> got \<Longrightarrow>
      bdp_slide_wnd_add w (of_nat (n mod unat (total_size w))) = Some (w, BDP_SLIDE_WND_DUPLICATE)"
proof -
  have r: "wnd_rel w base got" using w by (simp add: wnd_rep_def)
  show "bdp_slide_wnd_add w (of_nat (n mod unat (total_size w))) = Some (w, BDP_SLIDE_WND_OUT_OF_WND)"
    if "n < base \<or> base + unat (window_size w) \<le> n"
    using wnd_in_window[OF r n] that by (auto simp: bdp_slide_wnd_add_def)
  show "bdp_slide_wnd_add w (of_nat (n mod unat (total_size w))) = Some (w, BDP_SLIDE_WND_DUPLICATE)"
    if "base \<le> n" "n \<in> got"
  proof -
    have "n < base + unat (window_size w)" using that r by (auto simp: wnd_rel_def)
    then show ?thesis using wnd_in_window[OF r n] wnd_bit[OF r that(1)] that by (simp add: bdp_slide_wnd_add_def)
  qed
qed

lemma wnd_rep_init:
  assumes "bdp_slide_wnd_init mem t l 0 = Some w" "0 < l" "unat t + unat l \<le> 2 ^ 32"
  shows "wnd_rep w 0 {}"
  using assms
  by (auto simp: bdp_slide_wnd_init_def ub_bitmap_alloc_def wnd_rep_def wnd_rel_def wnd_sizes_def not_le
      word_less_nat_alt split: if_splits)

end
