(* ===== verification/Spec2Isabelle.thy ===== *)
theory Spec2Isabelle
  imports DLock_Fair DLock_System DLock_ClientLaws DLock_Recovery DLock_ControlCrash DLock_ControlLease UMQ_Ring UMQ_FlowProps Bond_Window
begin

text \<open>
  Verification of UMDK, the unified memory development kit (\<^verbatim>\<open>src/src\<close>).  The development models
  three parts of it: the distributed lock service ULOCK, the message queues UMQ of URPC (the
  shared-memory ring and the data path over UB with its credit flow control), and the bonding
  provider of URMA.  Paths below are relative to \<^verbatim>\<open>src/src\<close>.

  \<^bold>\<open>The parts and how they interact.\<close>  A ULOCK client keeps an entry per lock and sends lock commands
  to a server over URMA; the server holds the lock structures in one lock memory, which commands of the
  data path change directly, while control messages over a socket create and delete locks, objects and
  clients.  UMQ carries messages between processes: through a ring in shared memory, or over UB devices,
  where a sender may only use as many receive buffers as its peer has announced.  URMA bonding puts
  several devices behind one jetty: it spreads requests over them, sends a request again on another device when one
  fails, and drops the duplicates this causes with a window of message numbers.

  \<^bold>\<open>Prelude.\<close>  \<open>Umdk_Prelude\<close>: machine integers as words, the byte memory, \<open>std::unordered_map\<close> as
  \<open>umap\<close>, and the locale \<open>step_system\<close> (initial states, a step relation, an invariant), which every
  state machine of the development interprets.

  \<^bold>\<open>ULOCK data path.\<close>
  \<^item> \<open>DLock_Types\<close>: enumerations, wire structures and lock structures of \<^verbatim>\<open>ulock/dlock/lib/include/dlock_types.h\<close>,
    \<^verbatim>\<open>common/dlock_common.h\<close> and \<^verbatim>\<open>server/lock_memory.h\<close>; the locale \<open>lock_layout\<close> states what a lock
    structure's encoding in the lock memory promises.
  \<^item> \<open>DLock_Alloc\<close>: the allocator of \<^verbatim>\<open>server/lock_memory.cpp\<close> on its two maps of free blocks.  Live lock entries and
    free bytes partition the memory in every history, and a release undoes the allocation.
  \<^item> \<open>DLock_Server\<close>: every operation on the three lock structures, their dispatch \<open>do_lock_cmd\<close>, and the batch
    handler of \<^verbatim>\<open>server/dlock_server.cpp\<close>.  Read-write locks refine an abstract lock; leases of atomic and fair locks are
    safe against other clients; commands on different locks commute and do not touch other entries.
  \<^item> \<open>DLock_Fair\<close>: a fair lock serves exclusive clients in the order of their tickets.
  \<^item> \<open>DLock_Client\<close>, \<open>DLock_Api\<close>: the lock entries of \<^verbatim>\<open>client/lock_entry_c.cpp\<close> and the calls of
    \<^verbatim>\<open>client/dlock_client_dp.cpp\<close>, over a transport that is an argument.  \<open>DLock_ClientLaws\<close>: what holds for every transport and every
    sequence of calls, through the locale \<open>entry_rel\<close>.
  \<^item> \<open>DLock_System\<close>: clients composed with the server's handler; mutual exclusion in every reachable state,
    the outcome of a trylock, and what a lost unlock reply does.
  \<^item> \<open>DLock_Recovery\<close>: a fresh server rebuilds the locks from the reports of the clients.

  \<^bold>\<open>ULOCK control plane.\<close>
  \<^item> \<open>DLock_Control\<close>: the message handlers of \<^verbatim>\<open>server/dlock_server.cpp\<close> for clients, locks and objects, on an explicit
    store of entries, so that a dangling pointer is a value of the model; a handler that would
    dereference a null or dangling pointer returns None.  Sockets, jetty creation and random bytes are arguments.
  \<^item> \<open>DLock_ControlLaws\<close>, \<open>DLock_ControlSystem\<close>, \<open>DLock_ControlProps\<close>: the tables agree with each other in every reachable state.
  \<^item> \<open>DLock_ControlSafety\<close>, \<open>DLock_ControlLease\<close>, \<open>DLock_ControlCrash\<close>: outcomes of requests, the lifetime of a leased
    object, which requests cannot crash the server, and those that do or that leave it in a bad state.

  \<^bold>\<open>UMQ.\<close>
  \<^item> \<open>UMQ_Ring\<close>: \<^verbatim>\<open>urpc/umq/msg_ring.c\<close> on byte memory; a ring pair refines two queues (locale \<open>fifo_channel\<close>), also for
    every interleaving of the memory actions of one producer and one consumer.
  \<^item> \<open>UMQ_Flow\<close>: \<^verbatim>\<open>urpc/umq/umq_ub/core/flow_control/umq_ub_flow_control.c\<close>: the credit counters in their plain and atomic
    versions, and the announcements.
  \<^item> \<open>UMQ_UbPro\<close>: \<open>umq_ub_post_tx\<close>, \<open>umq_ub_post_rx\<close>, \<open>umq_ub_poll_tx\<close>, \<open>umq_ub_poll_rx\<close> and the memory import of
    \<^verbatim>\<open>umq_ub/core/private/umq_pro_ub.c\<close> and \<^verbatim>\<open>umq_ub.c\<close>.  What the device accepts of a list of
    requests is an oracle in the state.
  \<^item> \<open>UMQ_FlowLaws\<close>, \<open>UMQ_FlowPost\<close>, \<open>UMQ_FlowPoll\<close>: the effect of every call on two accounts of credits.
    \<open>UMQ_FlowSystem\<close>, \<open>UMQ_FlowProps\<close>: two queues on a reliable connection never use more receive buffers than are posted; the
    retry loops on the atomic counters are linearizable; and the two kinds of calls that break the accounts.

  \<^bold>\<open>URMA bonding.\<close>
  \<^item> \<open>Bond_Window\<close>: the sliding window of \<^verbatim>\<open>urma/lib/urma/bond/utils/bondp_slide_window.c\<close> on the bitmaps of
    \<^verbatim>\<open>urma/common/include/ub_bitmap.h\<close>, and that it accepts every number at most once.

  \<^bold>\<open>Bounds and termination.\<close>  Loops over lists, batches and device tables are structural recursion.  The requests of one post are built with a
  recursion bounded by \<open>UMQ_BATCH_SIZE\<close> (64), the bound of the loop in the source.  Walks over linked buffers and the
  loop of the sliding window are \<open>partial_function (option)\<close>, so that a walk that does not end is None; the properties that
  rely on them prove the result is Some.  The retry loops on atomic counters take the list of values
  other threads store in between, one per retry.  Searches for a free id are shown to end.

  \<^bold>\<open>Not modelled.\<close>  The ULOCK client's control plane, the transport, cipher and thread start-up of ULOCK
  (\<^verbatim>\<open>dlock_client_cp.cpp\<close>, \<^verbatim>\<open>jetty_mgr*.cpp\<close>, \<^verbatim>\<open>ssl_connection.cpp\<close>, \<^verbatim>\<open>dlock_cipher.cpp\<close>), the epoll loops and replicas of the
  lock server: sockets, OpenSSL and threads, whose results are arguments of the handlers.  The URMA core, the udma
  provider, the UVS and the command-line tools: dispatch to function tables, ioctl encodings and device registers.  The URPC
  framework: connection set-up with epoll and timers.  The buffer pools and the UBMM and IPC back ends of UMQ: thread-local
  caches over shared memory.  The UMS kernel module: socket code inside the Linux kernel.  CAM: kernels for an
  accelerator whose instruction set is not part of the repository.  Log output, mutexes around single calls and the release of
  memory are left out throughout.
\<close>

end
